(* ===== verification/Ram_Prelude.thy ===== *)
theory Ram_Prelude
  imports Main
begin

text \<open>
  Shared vocabulary of the development.

  A C++ \<open>assert\<close> that fails, an index outside its array, a missing map entry, a loop that does not
  end and the use of a null pointer are values of \<open>error\<close>; an operation that can reach one of them
  returns a \<open>'a res\<close> (\<open>Inl\<close> is the failure) and \<open>bindR\<close> sequences two such operations, so that the first failure ends the
  operation, as the abort does in the program.  \<open>mapR\<close> runs a fallible loop body over a list.
  The clocks and addresses of the program (\<open>long\<close>) are \<open>int\<close>: the simulator only increments
  the clocks, and no property here depends on the 64-bit limit.
\<close>

datatype error =
    AssertFailed
  | OutOfRange
  | NoEntry
  | Diverges
  | NullPointer
  | DivideByZero
  | InvalidArgument

type_synonym 'a res = "error + 'a"

named_theorems res_simps \<open>rewriting of fallible computations\<close>
named_theorems ram_frame \<open>what an operation leaves unchanged\<close>

definition bindR :: "'a res \<Rightarrow> ('a \<Rightarrow> 'b res) \<Rightarrow> 'b res" where
  "bindR m f = (case m of Inl e \<Rightarrow> Inl e | Inr x \<Rightarrow> f x)"

definition guardR :: "bool \<Rightarrow> unit res" where
  "guardR b = (if b then Inr () else Inl AssertFailed)"

definition nthR :: "'a list \<Rightarrow> nat \<Rightarrow> 'a res" where
  "nthR xs i = (if i < length xs then Inr (xs ! i) else Inl OutOfRange)"

definition indexR :: "'a list \<Rightarrow> int \<Rightarrow> 'a res" where
  "indexR xs i = (if 0 \<le> i \<and> nat i < length xs then Inr (xs ! nat i) else Inl OutOfRange)"

definition findR :: "'b option \<Rightarrow> 'b res" where
  "findR m = (case m of None \<Rightarrow> Inl NoEntry | Some x \<Rightarrow> Inr x)"

definition runR :: "'b option \<Rightarrow> 'b res" where
  "runR m = (case m of None \<Rightarrow> Inl Diverges | Some x \<Rightarrow> Inr x)"

fun mapR :: "('a \<Rightarrow> 'b res) \<Rightarrow> 'a list \<Rightarrow> 'b list res" where
  "mapR f [] = Inr []"
| "mapR f (x # xs) = bindR (f x) (\<lambda>y. bindR (mapR f xs) (\<lambda>ys. Inr (y # ys)))"

fun foldR :: "('a \<Rightarrow> 's \<Rightarrow> 's res) \<Rightarrow> 'a list \<Rightarrow> 's \<Rightarrow> 's res" where
  "foldR f [] s = Inr s"
| "foldR f (x # xs) s = bindR (f x s) (\<lambda>s'. foldR f xs s')"

section \<open>Fallible computations\<close>

lemma bindR_simps [simp, res_simps]:
  "bindR (Inl e) f = Inl e"
  "bindR (Inr x) f = f x"
  by (simp_all add: bindR_def)

lemma bindR_eq_Inr [simp, res_simps]:
  "bindR m f = Inr y \<longleftrightarrow> (\<exists>x. m = Inr x \<and> f x = Inr y)"
  by (cases m) simp_all

lemma bindR_eq_Inl:
  "bindR m f = Inl e \<longleftrightarrow> m = Inl e \<or> (\<exists>x. m = Inr x \<and> f x = Inl e)"
  by (cases m) simp_all

lemma bindR_cong [fundef_cong]:
  "m = m' \<Longrightarrow> (\<And>x. m' = Inr x \<Longrightarrow> f x = g x) \<Longrightarrow> bindR m f = bindR m' g"
  by (cases m') simp_all

lemma guardR_simps [simp, res_simps]:
  "guardR True = Inr ()"
  "guardR False = Inl AssertFailed"
  by (simp_all add: guardR_def)

lemma guardR_eq_Inr [simp, res_simps]: "guardR b = Inr u \<longleftrightarrow> b"
  by (cases b) simp_all

lemma nthR_eq_Inr [simp, res_simps]: "nthR xs i = Inr x \<longleftrightarrow> i < length xs \<and> xs ! i = x"
  by (auto simp: nthR_def)

lemma nthR_lt: "i < length xs \<Longrightarrow> nthR xs i = Inr (xs ! i)"
  by (simp add: nthR_def)

lemma indexR_eq_Inr [simp, res_simps]:
  "indexR xs i = Inr x \<longleftrightarrow> 0 \<le> i \<and> nat i < length xs \<and> xs ! nat i = x"
  by (auto simp: indexR_def)

lemma indexR_lt: "0 \<le> i \<Longrightarrow> nat i < length xs \<Longrightarrow> indexR xs i = Inr (xs ! nat i)"
  by (simp add: indexR_def)

lemma findR_eq_Inr [simp, res_simps]: "findR m = Inr x \<longleftrightarrow> m = Some x"
  by (cases m) (simp_all add: findR_def)

lemma findR_Some [simp]: "findR (Some x) = Inr x"
  by (simp add: findR_def)

lemma runR_Some [simp]: "runR (Some x) = Inr x"
  by (simp add: runR_def)

lemma runR_eq_Inr [simp, res_simps]: "runR m = Inr x \<longleftrightarrow> m = Some x"
  by (cases m) (simp_all add: runR_def)

lemma mapR_cong [fundef_cong]:
  "xs = ys \<Longrightarrow> (\<And>x. x \<in> set ys \<Longrightarrow> f x = g x) \<Longrightarrow> mapR f xs = mapR g ys"
  by (induction ys arbitrary: xs) simp_all

lemma mapR_length: "mapR f xs = Inr ys \<Longrightarrow> length ys = length xs"
  by (induction xs arbitrary: ys) auto

lemma mapR_nth: "mapR f xs = Inr ys \<Longrightarrow> i < length xs \<Longrightarrow> f (xs ! i) = Inr (ys ! i)"
  by (induction xs arbitrary: ys i) (auto simp: nth_Cons split: nat.splits)

lemma mapR_total: "(\<And>x. x \<in> set xs \<Longrightarrow> \<exists>y. f x = Inr y) \<Longrightarrow> \<exists>ys. mapR f xs = Inr ys"
proof (induction xs)
  case (Cons a xs)
  then obtain y ys where "f a = Inr y" "mapR f xs = Inr ys" by fastforce
  then show ?case by simp
qed simp

lemma foldR_append:
  "foldR f (xs @ ys) s = bindR (foldR f xs s) (foldR f ys)"
  by (induction xs arbitrary: s) (auto simp: bindR_def split: sum.splits)

lemma foldR_invariant:
  assumes "foldR f xs s = Inr s'" "P s"
    and "\<And>x s s'. x \<in> set xs \<Longrightarrow> P s \<Longrightarrow> f x s = Inr s' \<Longrightarrow> P s'"
  shows "P s'"
  using assms
proof (induction xs arbitrary: s)
  case (Cons a xs)
  then obtain t where t: "f a s = Inr t" "foldR f xs t = Inr s'" by auto
  with Cons.prems(2,3) have "P t" by fastforce
  with t(2) Cons.prems(3) show ?case by (intro Cons.IH [of t]) auto
qed simp

lemma foldR_total:
  assumes "\<And>x s. x \<in> set xs \<Longrightarrow> P s \<Longrightarrow> \<exists>s'. f x s = Inr s' \<and> P s'" "P s"
  shows "\<exists>s'. foldR f xs s = Inr s' \<and> P s'"
  using assms
proof (induction xs arbitrary: s)
  case (Cons x xs)
  then obtain t where "f x s = Inr t" "P t" by force
  moreover from this Cons obtain s' where "foldR f xs t = Inr s'" "P s'" by force
  ultimately show ?case by simp
qed simp

lemma foldR_upt_total:
  assumes "\<And>i s. i < n \<Longrightarrow> P i s \<Longrightarrow> \<exists>s'. f i s = Inr s' \<and> P (Suc i) s'" "P 0 s"
  shows "\<exists>s'. foldR f [0..<n] s = Inr s' \<and> P n s'"
  using assms(1)
proof (induction n)
  case (Suc n)
  then obtain t where "foldR f [0..<n] s = Inr t" "P n t" by auto
  moreover from this(2) Suc.prems [of n t] obtain s' where "f n t = Inr s'" "P (Suc n) s'" by auto
  ultimately show ?case by (simp add: foldR_append)
qed (simp add: assms(2))

lemma not_isl_Inr: "\<not> isl m \<Longrightarrow> \<exists>x. m = Inr x"
  by (cases m) simp_all

section \<open>Lists\<close>

lemma take_Suc_prefix:
  "take (Suc n) xs = take (Suc n) ys \<Longrightarrow> take n xs = take n ys"
  by (metis take_take min.absorb_iff1 lessI less_imp_le)

lemma take_Suc_eq_iff:
  "n < length xs \<Longrightarrow> n < length ys \<Longrightarrow>
   take (Suc n) xs = take (Suc n) ys \<longleftrightarrow> take n xs = take n ys \<and> xs ! n = ys ! n"
  by (auto simp: take_Suc_conv_app_nth)

lemma find_index_lt: "i < length xs \<Longrightarrow> xs[i := y] ! i = y"
  by simp

lemma butlast_conv_take_Suc: "length xs = Suc n \<Longrightarrow> butlast xs = take n xs"
  by (simp add: butlast_conv_take)

end
