(* ===== verification/Ram_Bits.thy ===== *)
theory Ram_Bits
  imports Ram_Prelude
begin

text \<open>
  The bit-level helpers of the memory (\<open>calc_log2\<close>, \<open>slice_lower_bits\<close>, \<open>clear_lower_bits\<close>,
  \<open>clear_higher_bits\<close> of \<open>HMC_Memory.h\<close> and \<open>Memory.h\<close>) and of the links (\<open>leftmostbit\<close> of
  \<open>LogicLayer.h\<close>).  The shifting loop ends for every argument that is not negative; on a negative
  one it shifts \<open>-1\<close> for ever, which is the value \<open>None\<close>.
\<close>

unbundle bit_operations_syntax

partial_function (option) shift_loop :: "int \<Rightarrow> nat \<Rightarrow> nat option" where
  "shift_loop val n =
     (let val' = drop_bit 1 val in if val' \<noteq> 0 then shift_loop val' (Suc n) else Some n)"

declare shift_loop.simps [code]

definition calc_log2 :: "int \<Rightarrow> nat option" where
  "calc_log2 val = shift_loop val 0"

definition leftmostbit :: "int \<Rightarrow> int option" where
  "leftmostbit val = (if val = 0 then Some 0 else map_option (\<lambda>n. 2 ^ n) (shift_loop val 0))"

definition slice_lower_bits :: "int \<Rightarrow> nat \<Rightarrow> int \<times> int" where
  "slice_lower_bits adr bits = (adr AND (2 ^ bits - 1), drop_bit bits adr)"

definition clear_lower_bits :: "int \<Rightarrow> nat \<Rightarrow> int" where
  "clear_lower_bits adr bits = drop_bit bits adr"

definition clear_higher_bits :: "int \<Rightarrow> int \<Rightarrow> int" where
  "clear_higher_bits adr mask_bits = adr AND mask_bits"

section \<open>The loops end\<close>

lemma shift_loop_step: "shift_loop val n = (if val div 2 \<noteq> 0 then shift_loop (val div 2) (Suc n) else Some n)"
  by (subst shift_loop.simps) (simp add: drop_bit_eq_div Let_def)

lemma shift_loop_log:
  assumes "0 < val"
  shows "\<exists>k. shift_loop val n = Some (n + k) \<and> 2 ^ k \<le> val \<and> val < 2 ^ Suc k"
  using assms
proof (induction "nat val" arbitrary: val n rule: less_induct)
  case less
  show ?case
  proof (cases "val div 2 = 0")
    case True
    then have "val = 1" using less.prems by linarith
    then show ?thesis by (simp add: shift_loop_step [of 1])
  next
    case False
    then have "0 < val div 2" "nat (val div 2) < nat val" using less.prems by linarith+
    from less.hyps [OF this(2,1), of "Suc n"] obtain k where
      "shift_loop (val div 2) (Suc n) = Some (Suc n + k)" "2 ^ k \<le> val div 2" "val div 2 < 2 ^ Suc k" by blast
    moreover from this(2,3) have "2 ^ Suc k \<le> val" "val < 2 ^ Suc (Suc k)" by simp_all
    ultimately show ?thesis using False by (intro exI [of _ "Suc k"]) (simp add: shift_loop_step [of val])
  qed
qed

lemma shift_loop_pow: "shift_loop (2 ^ k) n = Some (n + k)"
proof (induction k arbitrary: n)
  case 0
  then show ?case by (simp add: shift_loop_step [of 1])
next
  case (Suc k)
  then show ?case by (simp add: shift_loop_step [of "2 * 2 ^ k"])
qed

lemma calc_log2_pow: "calc_log2 (2 ^ k) = Some k"
  by (simp add: calc_log2_def shift_loop_pow)

text \<open>On a negative number the shift reaches \<open>-1\<close> and stays there.\<close>

lemma shift_loop_nonneg:
  assumes "shift_loop val n = Some k"
  shows "0 \<le> val"
proof (rule shift_loop.raw_induct [where P = "\<lambda>val n k. 0 \<le> val", OF _ assms])
  fix loop :: "int \<Rightarrow> nat \<Rightarrow> nat option" and val :: int and n k :: nat
  assume ih: "\<And>val n k. loop val n = Some k \<Longrightarrow> 0 \<le> val"
    and "(let val' = drop_bit 1 val in if val' \<noteq> 0 then loop val' (Suc n) else Some n) = Some k"
  then have "drop_bit 1 val = 0 \<or> loop (drop_bit 1 val) (Suc n) = Some k" by (auto simp: Let_def split: if_splits)
  with ih [of "drop_bit 1 val" "Suc n" k] show "0 \<le> val" by (auto simp: drop_bit_eq_div)
qed

text \<open>
  C38.  The loop of \<open>calc_log2\<close> ends exactly for the arguments that are not negative, and then returns the
  logarithm rounded down (0 for the argument 0); for a negative argument it runs for ever.
\<close>

theorem calc_log2_returns:
  "if val < 0 then calc_log2 val = None
   else \<exists>k. calc_log2 val = Some k \<and> 2 ^ k \<le> max 1 val \<and> val < 2 ^ Suc k"
proof (cases "val \<le> 0")
  case True
  then show ?thesis
    using shift_loop_nonneg [of val 0] by (cases "shift_loop val 0") (auto simp: calc_log2_def shift_loop_step [of 0])
next
  case False
  then show ?thesis using shift_loop_log [of val 0] by (auto simp: calc_log2_def)
qed

lemma leftmostbit_0 [simp]: "leftmostbit 0 = Some 0"
  by (simp add: leftmostbit_def)

lemma leftmostbit_bounds:
  assumes "0 < val"
  shows "\<exists>k. leftmostbit val = Some (2 ^ k) \<and> 2 ^ k \<le> val \<and> val < 2 * 2 ^ k"
  using shift_loop_log [OF assms, of 0] assms by (auto simp: leftmostbit_def)

lemma leftmostbit_total:
  assumes "0 \<le> val"
  shows "\<exists>r. leftmostbit val = Some r \<and> 0 \<le> r \<and> r \<le> val"
proof (cases "val = 0")
  case False
  with assms have "0 < val" by simp
  from leftmostbit_bounds [OF this] show ?thesis by fastforce
qed simp

section \<open>Slices are quotient and remainder\<close>

lemma and_low: "(a::int) AND (2 ^ n - 1) = a mod 2 ^ n"
  by (simp add: take_bit_eq_mod flip: take_bit_eq_mask mask_eq_exp_minus_1)

lemma slice_lower_bits_eq: "slice_lower_bits a n = (a mod 2 ^ n, a div 2 ^ n)"
  by (simp add: slice_lower_bits_def and_low drop_bit_eq_div)

lemma clear_lower_bits_eq: "clear_lower_bits a n = a div 2 ^ n"
  by (simp add: clear_lower_bits_def drop_bit_eq_div)

lemma clear_higher_bits_pow: "clear_higher_bits a (2 ^ n - 1) = a mod 2 ^ n"
  by (simp add: clear_higher_bits_def and_low)

lemma or_shifted: "0 \<le> a \<Longrightarrow> a < 2 ^ n \<Longrightarrow> (a::int) OR push_bit n b = a + b * 2 ^ n"
proof -
  assume "0 \<le> a" "a < 2 ^ n"
  then have "take_bit n a = a" by (simp add: take_bit_int_eq_self)
  then have low: "bit a m \<Longrightarrow> m < n" for m by (metis bit_take_bit_iff)
  have "a AND push_bit n b = 0" by (auto simp: bit_eq_iff bit_and_iff bit_push_bit_iff dest: low)
  then have "a OR push_bit n b = a + push_bit n b" by (simp add: disjunctive_add_eq_or)
  then show ?thesis by (simp add: push_bit_eq_mult)
qed

end
