(* ===== verification/Inst_Window.thy ===== *)
theory Inst_Window
  imports Ram_Bits
begin

text \<open>
  The instruction window of a core (\<open>Window\<close> in \<open>ramulator/src/Processor.h\<close> and \<open>Processor.cpp\<close>): a
  ring buffer of instructions in program order, each with a ready bit and the address it waits for.
  It refines a first-in first-out queue: the interface \<open>fifo_window\<close> states what a core relies on,
  and the in-order retirement of instructions is proved from it.
\<close>

unbundle bit_operations_syntax

section \<open>The ring buffer\<close>

record window =
  wd_ipc :: int
  wd_depth :: int
  wd_load :: int
  wd_head :: int
  wd_tail :: int
  wd_ready_list :: "bool list"
  wd_addr_list :: "int list"

definition new_window :: window where
  "new_window =
     \<lparr>wd_ipc = 4, wd_depth = 128, wd_load = 0, wd_head = 0, wd_tail = 0,
      wd_ready_list = replicate 128 False, wd_addr_list = replicate 128 (-1)\<rparr>"

definition window_is_full :: "window \<Rightarrow> bool" where
  "window_is_full w \<longleftrightarrow> wd_load w = wd_depth w"

definition window_is_empty :: "window \<Rightarrow> bool" where
  "window_is_empty w \<longleftrightarrow> wd_load w = 0"

text \<open>\<open>xs.at(i) = v\<close>\<close>

definition storeR :: "'a list \<Rightarrow> int \<Rightarrow> 'a \<Rightarrow> 'a list res" where
  "storeR xs i v = (if 0 \<le> i \<and> nat i < length xs then Inr (xs[nat i := v]) else Inl OutOfRange)"

definition window_insert :: "bool \<Rightarrow> int \<Rightarrow> window \<Rightarrow> window res" where
  "window_insert ready adr w =
     bindR (guardR (wd_load w \<le> wd_depth w)) (\<lambda>_.
     bindR (storeR (wd_ready_list w) (wd_head w) ready) (\<lambda>rs.
     bindR (storeR (wd_addr_list w) (wd_head w) adr) (\<lambda>as.
       Inr (w\<lparr>wd_ready_list := rs, wd_addr_list := as,
              wd_head := (wd_head w + 1) mod wd_depth w, wd_load := wd_load w + 1\<rparr>))))"

text \<open>The loop of \<open>retire\<close>; the argument is the number of instructions that may still retire.\<close>

fun retire_loop :: "nat \<Rightarrow> window \<Rightarrow> (int \<times> window) res" where
  "retire_loop 0 w = Inr (0, w)"
| "retire_loop (Suc n) w =
     (if 0 < wd_load w then
        bindR (indexR (wd_ready_list w) (wd_tail w)) (\<lambda>ready.
          if \<not> ready then Inr (0, w)
          else bindR (retire_loop n (w\<lparr>wd_tail := (wd_tail w + 1) mod wd_depth w, wd_load := wd_load w - 1\<rparr>))
                 (\<lambda>(retired, w'). Inr (retired + 1, w')))
      else Inr (0, w))"

definition window_retire :: "window \<Rightarrow> (int \<times> window) res" where
  "window_retire w =
     bindR (guardR (wd_load w \<le> wd_depth w)) (\<lambda>_.
       if wd_load w = 0 then Inr (0, w) else retire_loop (nat (wd_ipc w)) w)"

definition set_ready_at :: "int \<Rightarrow> int \<Rightarrow> int \<Rightarrow> window \<Rightarrow> window res" where
  "set_ready_at adr mask_bits i w =
     (let ix = (wd_tail w + i) mod wd_depth w in
      bindR (indexR (wd_addr_list w) ix) (\<lambda>a.
        if a AND mask_bits \<noteq> adr AND mask_bits then Inr w
        else bindR (storeR (wd_ready_list w) ix True) (\<lambda>rs. Inr (w\<lparr>wd_ready_list := rs\<rparr>))))"

definition window_set_ready :: "int \<Rightarrow> int \<Rightarrow> window \<Rightarrow> window res" where
  "window_set_ready adr mask_bits w =
     (if wd_load w = 0 then Inr w
      else foldR (set_ready_at adr mask_bits) [0..wd_load w - 1] w)"

section \<open>The contents\<close>

definition window_inv :: "window \<Rightarrow> bool" where
  "window_inv w \<longleftrightarrow>
     0 < wd_depth w \<and> 0 \<le> wd_load w \<and> wd_load w \<le> wd_depth w \<and> 0 \<le> wd_tail w \<and> wd_tail w < wd_depth w
     \<and> wd_head w = (wd_tail w + wd_load w) mod wd_depth w \<and> 0 \<le> wd_ipc w
     \<and> int (length (wd_ready_list w)) = wd_depth w \<and> int (length (wd_addr_list w)) = wd_depth w"

definition slot :: "window \<Rightarrow> nat \<Rightarrow> nat" where
  "slot w i = nat ((wd_tail w + int i) mod wd_depth w)"

definition contents :: "window \<Rightarrow> (bool \<times> int) list" where
  "contents w = map (\<lambda>i. (wd_ready_list w ! slot w i, wd_addr_list w ! slot w i)) [0..<nat (wd_load w)]"

lemma length_contents [simp]: "length (contents w) = nat (wd_load w)"
  by (simp add: contents_def)

lemma slot_lt: "window_inv w \<Longrightarrow> int (slot w i) < wd_depth w \<and> slot w i < length (wd_ready_list w)
    \<and> slot w i < length (wd_addr_list w)"
  by (auto simp: window_inv_def slot_def nat_less_iff)

lemma slot_inj:
  assumes "window_inv w" "i < nat (wd_depth w)" "j < nat (wd_depth w)" "slot w i = slot w j"
  shows "i = j"
proof -
  have d: "0 < wd_depth w" using assms(1) by (simp add: window_inv_def)
  then have "(wd_tail w + int i) mod wd_depth w = (wd_tail w + int j) mod wd_depth w"
    using assms(4) by (simp add: slot_def nat_eq_iff)
  then have "int i mod wd_depth w = int j mod wd_depth w"
    using mod_add_left_eq [of "wd_tail w" "wd_depth w"]
    by (metis add_diff_cancel_left' mod_diff_left_eq)
  then show ?thesis using assms(2,3) d by simp
qed

lemma upto_map_int: "[0..n - 1] = map int [0..<nat n]"
  by (rule nth_equalityI) (auto simp: nth_upto)

lemma storeR_lt: "0 \<le> i \<Longrightarrow> nat i < length xs \<Longrightarrow> storeR xs i v = Inr (xs[nat i := v])"
  by (simp add: storeR_def)

lemma new_window_inv: "window_inv new_window \<and> contents new_window = []"
  by (simp add: window_inv_def new_window_def contents_def)

lemma window_insert_contents:
  assumes inv: "window_inv w" and "\<not> window_is_full w"
  shows "\<exists>w'. window_insert ready adr w = Inr w' \<and> window_inv w' \<and> contents w' = contents w @ [(ready, adr)]
    \<and> wd_ipc w' = wd_ipc w \<and> wd_depth w' = wd_depth w"
proof -
  let ?h = "slot w (nat (wd_load w))"
  have l: "0 \<le> wd_load w" "wd_load w < wd_depth w" using assms by (auto simp: window_inv_def window_is_full_def)
  have h: "wd_head w = int ?h" using inv l by (simp add: window_inv_def slot_def)
  note lt = slot_lt [OF inv, of "nat (wd_load w)"]
  let ?w = "w\<lparr>wd_ready_list := (wd_ready_list w)[?h := ready], wd_addr_list := (wd_addr_list w)[?h := adr],
    wd_head := (wd_head w + 1) mod wd_depth w, wd_load := wd_load w + 1\<rparr>"
  have run: "window_insert ready adr w = Inr ?w" using lt l by (simp add: window_insert_def h storeR_lt)
  have inv': "window_inv ?w"
    using inv l by (simp add: window_inv_def mod_add_left_eq add.assoc)
  have "?h \<noteq> slot w i" if "i < nat (wd_load w)" for i
    using slot_inj [OF inv, of i "nat (wd_load w)"] that l by auto
  moreover have "slot ?w = slot w" by (simp add: slot_def fun_eq_iff)
  ultimately have "contents ?w = contents w @ [(ready, adr)]"
    using lt l(1) by (auto simp: contents_def nat_add_distrib)
  then show ?thesis using run inv' by simp
qed

lemma contents_drop1:
  assumes inv: "window_inv w" and "0 < wd_load w"
  shows "window_inv (w\<lparr>wd_tail := (wd_tail w + 1) mod wd_depth w, wd_load := wd_load w - 1\<rparr>)"
    and "contents w = (wd_ready_list w ! nat (wd_tail w), wd_addr_list w ! nat (wd_tail w))
      # contents (w\<lparr>wd_tail := (wd_tail w + 1) mod wd_depth w, wd_load := wd_load w - 1\<rparr>)"
proof -
  let ?w = "w\<lparr>wd_tail := (wd_tail w + 1) mod wd_depth w, wd_load := wd_load w - 1\<rparr>"
  show "window_inv ?w" using assms by (simp add: window_inv_def mod_add_left_eq)
  have s: "slot w (Suc i) = slot ?w i" for i by (simp add: slot_def mod_add_left_eq add.assoc)
  have 0: "slot w 0 = nat (wd_tail w)" using inv by (simp add: slot_def window_inv_def)
  have "[0..<nat (wd_load w)] = 0 # map Suc [0..<nat (wd_load w - 1)]"
    using assms(2) by (simp add: map_Suc_upt upt_conv_Cons nat_diff_distrib')
  then show "contents w = (wd_ready_list w ! nat (wd_tail w), wd_addr_list w ! nat (wd_tail w)) # contents ?w"
    by (simp add: contents_def 0 s comp_def)
qed

lemma retire_loop_contents:
  assumes "window_inv w"
  shows "\<exists>w'. retire_loop n w = Inr (int (min n (length (takeWhile fst (contents w)))), w') \<and> window_inv w'
    \<and> contents w' = drop (min n (length (takeWhile fst (contents w)))) (contents w)
    \<and> wd_ipc w' = wd_ipc w \<and> wd_depth w' = wd_depth w"
  using assms
proof (induction n arbitrary: w)
  case (Suc n)
  show ?case
  proof (cases "0 < wd_load w")
    case False
    then have "contents w = []" using Suc.prems by (simp add: contents_def)
    then show ?thesis using False Suc.prems by simp
  next
    case True
    let ?w = "w\<lparr>wd_tail := (wd_tail w + 1) mod wd_depth w, wd_load := wd_load w - 1\<rparr>"
    note c = contents_drop1 [OF Suc.prems True]
    have t: "indexR (wd_ready_list w) (wd_tail w) = Inr (wd_ready_list w ! nat (wd_tail w))"
      using Suc.prems by (auto simp: window_inv_def nat_less_iff)
    obtain w' where "retire_loop n ?w = Inr (int (min n (length (takeWhile fst (contents ?w)))), w')" "window_inv w'"
      "contents w' = drop (min n (length (takeWhile fst (contents ?w)))) (contents ?w)"
      "wd_ipc w' = wd_ipc w" "wd_depth w' = wd_depth w"
      using Suc.IH [OF c(1)] by auto
    then show ?thesis using True Suc.prems by (simp add: t c(2))
  qed
qed auto

definition retires :: "window \<Rightarrow> nat" where
  "retires w = min (nat (wd_ipc w)) (length (takeWhile fst (contents w)))"

lemma window_retire_contents:
  assumes "window_inv w"
  shows "\<exists>w'. window_retire w = Inr (int (retires w), w') \<and> window_inv w'
    \<and> contents w' = drop (retires w) (contents w) \<and> wd_ipc w' = wd_ipc w \<and> wd_depth w' = wd_depth w"
proof (cases "wd_load w = 0")
  case True
  then have "contents w = []" by (simp add: contents_def)
  then show ?thesis using True assms by (simp add: window_retire_def retires_def window_inv_def)
next
  case False
  then show ?thesis using retire_loop_contents [OF assms, of "nat (wd_ipc w)"] assms
    by (auto simp: window_retire_def retires_def window_inv_def)
qed

text \<open>Setting ready bits; \<open>wake\<close> is what happens to one instruction.\<close>

definition wake :: "int \<Rightarrow> int \<Rightarrow> bool \<times> int \<Rightarrow> bool \<times> int" where
  "wake adr mask_bits = (\<lambda>(r, a). (r \<or> a AND mask_bits = adr AND mask_bits, a))"

lemma set_ready_loop:
  assumes "window_inv w" and "n \<le> nat (wd_load w)"
  shows "\<exists>w'. foldR (set_ready_at adr mask_bits) (map int [0..<n]) w = Inr w'
    \<and> window_inv w' \<and> w' = w\<lparr>wd_ready_list := wd_ready_list w'\<rparr>
    \<and> contents w' = map (wake adr mask_bits) (take n (contents w)) @ drop n (contents w)"
  using assms(2)
proof (induction n)
  case (Suc n)
  then obtain w1 where run: "foldR (set_ready_at adr mask_bits) (map int [0..<n]) w = Inr w1"
    and w1: "window_inv w1" "w1 = w\<lparr>wd_ready_list := wd_ready_list w1\<rparr>"
    and c1: "contents w1 = map (wake adr mask_bits) (take n (contents w)) @ drop n (contents w)" by auto
  have same: "wd_load w1 = wd_load w" "wd_tail w1 = wd_tail w" "wd_depth w1 = wd_depth w" "wd_addr_list w1 = wd_addr_list w"
    by (subst w1(2), simp)+
  let ?s = "slot w1 n"
  have ix: "(wd_tail w1 + int n) mod wd_depth w1 = int ?s" using w1(1) by (simp add: slot_def window_inv_def)
  note lt = slot_lt [OF w1(1), of n]
  have n: "n < nat (wd_load w1)" "n < length (contents w)" using Suc.prems same by simp_all
  have cn: "contents w ! n = (wd_ready_list w1 ! ?s, wd_addr_list w1 ! ?s)"
  proof -
    have "contents w ! n = contents w1 ! n" using n by (simp add: c1 nth_append same)
    then show ?thesis using n by (simp add: contents_def)
  qed
  let ?hit = "wd_addr_list w1 ! ?s AND mask_bits = adr AND mask_bits"
  let ?w' = "if ?hit then w1\<lparr>wd_ready_list := (wd_ready_list w1)[?s := True]\<rparr> else w1"
  have "contents ?w' = (contents w1)[n := wake adr mask_bits (contents w ! n)]"
  proof (rule nth_equalityI)
    fix i assume "i < length (contents ?w')"
    then have i: "i < nat (wd_load w1)" by (simp split: if_splits)
    have "slot w1 i = ?s \<longleftrightarrow> i = n"
      using slot_inj [OF w1(1), of i n] i n w1(1) by (auto simp: window_inv_def)
    then show "contents ?w' ! i = (contents w1)[n := wake adr mask_bits (contents w ! n)] ! i"
      using i lt n(1) cn by (auto simp: contents_def wake_def slot_def nth_list_update)
  qed simp
  also have "\<dots> = map (wake adr mask_bits) (take (Suc n) (contents w)) @ drop (Suc n) (contents w)"
    using n(2) by (simp add: c1 list_update_append take_Suc_conv_app_nth Cons_nth_drop_Suc [symmetric])
  finally have c': "contents ?w' = \<dots>" .
  have inv': "window_inv ?w'" using w1(1) by (simp add: window_inv_def)
  have upd: "?w' = w\<lparr>wd_ready_list := wd_ready_list ?w'\<rparr>"
  proof -
    obtain rs where rs: "w1 = w\<lparr>wd_ready_list := rs\<rparr>" using w1(2) ..
    show ?thesis by (simp add: rs)
  qed
  have "foldR (set_ready_at adr mask_bits) (map int [0..<Suc n]) w = Inr ?w'"
    using run lt by (simp add: foldR_append set_ready_at_def ix indexR_lt storeR_lt)
  then show ?case using inv' upd c' by blast
qed (use assms(1) in auto)

lemma window_set_ready_contents:
  assumes inv: "window_inv w"
  shows "\<exists>w'. window_set_ready adr mask_bits w = Inr w' \<and> window_inv w'
    \<and> contents w' = map (wake adr mask_bits) (contents w) \<and> wd_ipc w' = wd_ipc w \<and> wd_depth w' = wd_depth w"
proof (cases "wd_load w = 0")
  case True
  then show ?thesis using inv by (simp add: window_set_ready_def contents_def)
next
  case False
  obtain w' where "foldR (set_ready_at adr mask_bits) (map int [0..<nat (wd_load w)]) w = Inr w'" "window_inv w'"
    "w' = w\<lparr>wd_ready_list := wd_ready_list w'\<rparr>" "contents w' = map (wake adr mask_bits) (contents w)"
    using set_ready_loop [OF inv order_refl, of adr mask_bits] by auto
  moreover from this(3) have "wd_ipc w' = wd_ipc w \<and> wd_depth w' = wd_depth w" by (cases w; cases w') simp
  ultimately show ?thesis using False by (auto simp: window_set_ready_def upto_map_int)
qed

section \<open>First in, first out\<close>

text \<open>
  What a core relies on: a window holds at most \<open>cap\<close> instructions, \<open>put\<close> adds one at the end,
  \<open>retire\<close> removes the ready ones at the front, \<open>width\<close> at most, and \<open>set_ready\<close> wakes the
  instructions that wait for an address.
\<close>

locale fifo_window =
  fixes inv :: "'w \<Rightarrow> bool" and abs :: "'w \<Rightarrow> (bool \<times> int) list" and cap width :: nat
    and full :: "'w \<Rightarrow> bool" and put :: "bool \<Rightarrow> int \<Rightarrow> 'w \<Rightarrow> 'w res"
    and retire :: "'w \<Rightarrow> (int \<times> 'w) res" and set_ready :: "int \<Rightarrow> int \<Rightarrow> 'w \<Rightarrow> 'w res"
  assumes full_iff: "inv w \<Longrightarrow> length (abs w) \<le> cap \<and> (full w \<longleftrightarrow> length (abs w) = cap)"
    and insert_ok: "inv w \<Longrightarrow> \<not> full w \<Longrightarrow> \<exists>w'. put r a w = Inr w' \<and> inv w' \<and> abs w' = abs w @ [(r, a)]"
    and retire_ok: "inv w \<Longrightarrow> \<exists>w'. retire w = Inr (int (min width (length (takeWhile fst (abs w)))), w') \<and> inv w'
      \<and> abs w' = drop (min width (length (takeWhile fst (abs w)))) (abs w)"
    and set_ready_ok: "inv w \<Longrightarrow> \<exists>w'. set_ready a m w = Inr w' \<and> inv w' \<and> abs w' = map (wake a m) (abs w)"

text \<open>
  A sequence of operations, with the number of retired instructions and the addresses inserted; an
  instruction is inserted only if there is room, as in the core.
\<close>

datatype window_op = Insert bool int | Retire | SetReady int int

fun window_run ::
  "('w \<Rightarrow> bool) \<Rightarrow> (bool \<Rightarrow> int \<Rightarrow> 'w \<Rightarrow> 'w res) \<Rightarrow> ('w \<Rightarrow> (int \<times> 'w) res) \<Rightarrow> (int \<Rightarrow> int \<Rightarrow> 'w \<Rightarrow> 'w res)
   \<Rightarrow> window_op list \<Rightarrow> 'w \<Rightarrow> (int \<times> int list \<times> 'w) res" where
  "window_run full put retire set_ready [] w = Inr (0, [], w)"
| "window_run full put retire set_ready (Insert r a # ops) w =
     (if full w then window_run full put retire set_ready ops w
      else bindR (put r a w) (\<lambda>w1.
           bindR (window_run full put retire set_ready ops w1) (\<lambda>(n, ins, w'). Inr (n, a # ins, w'))))"
| "window_run full put retire set_ready (Retire # ops) w =
     bindR (retire w) (\<lambda>(k, w1).
     bindR (window_run full put retire set_ready ops w1) (\<lambda>(n, ins, w'). Inr (k + n, ins, w')))"
| "window_run full put retire set_ready (SetReady a m # ops) w =
     bindR (set_ready a m w) (\<lambda>w1. window_run full put retire set_ready ops w1)"

context fifo_window
begin

lemma run_in_order:
  assumes "inv w"
  shows "\<exists>n ins w'. window_run full put retire set_ready ops w = Inr (int n, ins, w') \<and> inv w'
    \<and> n \<le> length (abs w @ map (Pair False) ins) \<and> map snd (abs w') = drop n (map snd (abs w) @ ins)"
  using assms
proof (induction ops arbitrary: w)
  case Nil
  then show ?case by (intro exI [of _ 0]) simp
next
  case (Cons x ops)
  show ?case
  proof (cases x)
    case (Insert r a)
    show ?thesis
    proof (cases "full w")
      case True
      then show ?thesis using Cons.IH [OF Cons.prems] Insert by simp
    next
      case False
      obtain w1 where w1: "put r a w = Inr w1" "inv w1" "abs w1 = abs w @ [(r, a)]"
        using insert_ok [OF Cons.prems False, of r a] by blast
      show ?thesis using Cons.IH [OF w1(2)] Insert False w1 by (fastforce intro: exI [of _ "a # _"])
    qed
  next
    case Retire
    let ?k = "min width (length (takeWhile fst (abs w)))"
    obtain w1 where w1: "retire w = Inr (int ?k, w1)" "inv w1" "abs w1 = drop ?k (abs w)"
      using retire_ok [OF Cons.prems] by blast
    obtain n ins w' where r: "window_run full put retire set_ready ops w1 = Inr (int n, ins, w')" "inv w'"
      "n \<le> length (abs w1 @ map (Pair False) ins)" "map snd (abs w') = drop n (map snd (abs w1) @ ins)"
      using Cons.IH [OF w1(2)] by blast
    have k: "?k \<le> length (abs w)" using length_takeWhile_le [of fst "abs w"] by linarith
    have "map snd (abs w') = drop (?k + n) (map snd (abs w) @ ins)"
    proof -
      have "map snd (abs w1) @ ins = drop ?k (map snd (abs w) @ ins)" using k by (simp add: w1(3) drop_map)
      then show ?thesis using r(4) by (simp only: drop_drop add.commute)
    qed
    moreover have "?k + n \<le> length (abs w @ map (Pair False) ins)" using r(3) k by (simp add: w1(3))
    ultimately show ?thesis using Retire w1(1) r(1,2)
      by (intro exI [of _ "?k + n"] exI [of _ ins] exI [of _ w']) simp
  next
    case (SetReady a m)
    obtain w1 where w1: "set_ready a m w = Inr w1" "inv w1" "abs w1 = map (wake a m) (abs w)"
      using set_ready_ok [OF Cons.prems] by blast
    have eq: "map snd (abs w1) = map snd (abs w)" by (simp add: w1(3) wake_def split_def)
    have "length (abs w1) = length (abs w)" by (simp add: w1(3))
    then show ?thesis using Cons.IH [OF w1(2), unfolded eq] SetReady w1(1) by simp
  qed
qed

end

definition core_window :: "window \<Rightarrow> bool" where
  "core_window w \<longleftrightarrow> window_inv w \<and> wd_depth w = 128 \<and> wd_ipc w = 4"

lemma core_window_new: "core_window new_window"
  using new_window_inv by (simp add: core_window_def new_window_def)

interpretation core: fifo_window core_window contents 128 4 window_is_full window_insert window_retire window_set_ready
proof
  fix w :: window and r a m
  assume w: "core_window w"
  then have inv: "window_inv w" and d: "wd_depth w = 128" "wd_ipc w = 4" by (auto simp: core_window_def)
  show "length (contents w) \<le> 128 \<and> (window_is_full w \<longleftrightarrow> length (contents w) = 128)"
    using inv d by (auto simp: window_inv_def window_is_full_def)
  show "\<exists>w'. window_retire w = Inr (int (min 4 (length (takeWhile fst (contents w)))), w') \<and> core_window w'
      \<and> contents w' = drop (min 4 (length (takeWhile fst (contents w)))) (contents w)"
    using window_retire_contents [OF inv] d by (auto simp: core_window_def retires_def)
  show "\<exists>w'. window_set_ready a m w = Inr w' \<and> core_window w' \<and> contents w' = map (wake a m) (contents w)"
    using window_set_ready_contents [OF inv, of a m] d by (auto simp: core_window_def)
  show "\<exists>w'. window_insert r a w = Inr w' \<and> core_window w' \<and> contents w' = contents w @ [(r, a)]"
    if "\<not> window_is_full w"
    using window_insert_contents [OF inv that, of r a] d by (auto simp: core_window_def)
qed

section \<open>Properties\<close>

text \<open>
  C39.  The instruction window refines a queue: inserting appends an instruction, retiring removes
  the ready instructions at the front, four at most and none behind one that is not ready, and
  setting an address ready marks exactly the instructions that wait for an address of the same
  block.  None of the three fails.
\<close>

theorem window_refines:
  assumes "core_window w"
  shows "(\<exists>w'. window_retire w = Inr (int (min 4 (length (takeWhile fst (contents w)))), w') \<and> core_window w'
        \<and> contents w' = drop (min 4 (length (takeWhile fst (contents w)))) (contents w))
    \<and> (\<exists>w'. window_set_ready a m w = Inr w' \<and> core_window w'
        \<and> contents w' = map (\<lambda>(r, b). (r \<or> b AND m = a AND m, b)) (contents w))
    \<and> (length (contents w) = 128 \<or>
       (\<exists>w'. window_insert r a w = Inr w' \<and> core_window w' \<and> contents w' = contents w @ [(r, a)]))"
  using core.retire_ok [OF assms] core.set_ready_ok [OF assms, of a m] core.insert_ok [OF assms, of r a]
    core.full_iff [OF assms] by (auto simp: wake_def)

theorem window_refines_witness:
  "\<exists>w'. window_insert False 64 new_window = Inr w' \<and> contents w' = [(False, 64)]"
  using window_refines [OF core_window_new, of 64 0 False] new_window_inv by auto

text \<open>
  C40.  Instructions retire in program order: after any sequence of insertions, retirements and
  wake-ups, from an empty window and with insertions only where there is room, no operation has
  failed, and the window holds exactly the inserted instructions that have not been counted as
  retired, in the order of insertion.
\<close>

theorem window_in_order:
  "\<exists>n ins w'. window_run window_is_full window_insert window_retire window_set_ready ops new_window = Inr (int n, ins, w')
     \<and> n \<le> length ins \<and> map snd (contents w') = drop n ins"
  using core.run_in_order [OF core_window_new, of ops] new_window_inv by auto

end
