(* ===== verification/Ram_Request.thy ===== *)
theory Ram_Request
  imports Ram_Prelude
begin

text \<open>
  Memory requests (\<open>ramulator/src/Request.h\<close>).  The callback of a request is code of the
  processor; the model does not store it, an operation that calls it returns the requests it was
  called with.  The fields the constructors leave uninitialised (\<open>depart\<close>, \<open>arrive_hmc\<close>,
  \<open>depart_hmc\<close>) start at 0; the code writes each of them before it reads it.
\<close>

datatype req_type =
    READ
  | WRITE
  | REFRESH
  | POWERDOWN
  | SELFREFRESH
  | EXTENSION
  | INSTRUCTION

record request =
  rq_is_first_command :: bool
  rq_addr :: int
  rq_addr_vec :: "int list"
  rq_reqid :: int
  rq_coreid :: int
  rq_initial_addr :: int
  rq_instruction_request :: bool
  rq_type :: req_type
  rq_arrive :: int
  rq_depart :: int
  rq_arrive_hmc :: int
  rq_depart_hmc :: int
  rq_burst_count :: int
  rq_transaction_bytes :: int

text \<open>
  \<open>Request(long addr, Type type, int coreid)\<close>, with or without a callback.  Its body is
  \<open>initial_addr == addr;\<close>, a comparison whose value is dropped, so \<open>initial_addr\<close> keeps its
  default 0.
\<close>

definition mk_request :: "int \<Rightarrow> req_type \<Rightarrow> int \<Rightarrow> request" where
  "mk_request a ty core =
     \<lparr>rq_is_first_command = True, rq_addr = a, rq_addr_vec = [], rq_reqid = -1, rq_coreid = core,
      rq_initial_addr = 0, rq_instruction_request = False, rq_type = ty, rq_arrive = -1,
      rq_depart = 0, rq_arrive_hmc = 0, rq_depart_hmc = 0, rq_burst_count = 0,
      rq_transaction_bytes = 0\<rparr>"

text \<open>
  \<open>Request(vector<int>& addr_vec, Type type, callback, int coreid)\<close>: the flat address is not
  set by this constructor, and nothing that handles such a (refresh) request reads it.
\<close>

definition mk_request_vec :: "int list \<Rightarrow> req_type \<Rightarrow> int \<Rightarrow> request" where
  "mk_request_vec v ty core = (mk_request 0 ty core)\<lparr>rq_addr_vec := v\<rparr>"

end
