(* ===== verification/Trace_Parser.thy ===== *)
theory Trace_Parser
  imports Ram_Request
begin

text \<open>
  The trace files (class \<open>Trace\<close> of \<open>ramulator/src/Processor.h\<close> and \<open>Processor.cpp\<close>).  A file is its
  text, the part not yet read and the two state bits of the stream; \<open>getline\<close>, \<open>stoul\<close>, \<open>stoi\<close>,
  \<open>find_first_not_of\<close> and \<open>operator>>\<close> for strings are those of the C++ library, an exception they throw
  is an error value.  Reference parameters are arguments and results.
\<close>

section \<open>The library\<close>

definition newline :: char where
  "newline = CHR 0x0A"

definition is_space :: "char \<Rightarrow> bool" where
  "is_space c \<longleftrightarrow> c \<in> {CHR '' '', CHR 0x09, newline, CHR 0x0B, CHR 0x0C, CHR 0x0D}"

definition digit_val :: "char \<Rightarrow> nat" where
  "digit_val c =
     (let n = of_char c in
      if 48 \<le> n \<and> n \<le> 57 then n - 48
      else if 97 \<le> n \<and> n \<le> 122 then n - 87
      else if 65 \<le> n \<and> n \<le> 90 then n - 55
      else 36)"

fun scan_digits :: "nat \<Rightarrow> string \<Rightarrow> int \<Rightarrow> int \<times> string" where
  "scan_digits base [] acc = (acc, [])"
| "scan_digits base (c # s) acc =
     (if digit_val c < base then scan_digits base s (acc * int base + int (digit_val c)) else (acc, c # s))"

fun scan_sign :: "string \<Rightarrow> bool \<times> string" where
  "scan_sign [] = (False, [])"
| "scan_sign (c # s) =
     (if c = CHR ''-'' then (True, s) else if c = CHR ''+'' then (False, s) else (False, c # s))"

text \<open>The base 0 stands for 8, 10 or 16 depending on the prefix; \<open>0x\<close> is also accepted for base 16.\<close>

fun scan_base :: "nat \<Rightarrow> string \<Rightarrow> nat \<times> string" where
  "scan_base base (z # x # d # s) =
     (if (base = 0 \<or> base = 16) \<and> z = CHR ''0'' \<and> (x = CHR ''x'' \<or> x = CHR ''X'') \<and> digit_val d < 16
      then (16, d # s)
      else (if base = 0 then if z = CHR ''0'' then 8 else 10 else base, z # x # d # s))"
| "scan_base base s = (if base = 0 then if s \<noteq> [] \<and> hd s = CHR ''0'' then 8 else 10 else base, s)"

text \<open>Sign, magnitude and rest; \<open>None\<close> if there is no number.\<close>

definition strto :: "nat \<Rightarrow> string \<Rightarrow> (bool \<times> int \<times> string) option" where
  "strto base0 s0 =
     (let (neg, s1) = scan_sign (dropWhile is_space s0); (base, s) = scan_base base0 s1 in
      if s = [] \<or> \<not> digit_val (hd s) < base then None
      else let (v, rest) = scan_digits base s 0 in Some (neg, v, rest))"

text \<open>The value and the number of characters read.\<close>

definition stoul :: "nat \<Rightarrow> string \<Rightarrow> (int \<times> nat) res" where
  "stoul base s =
     (case strto base s of
        None \<Rightarrow> Inl InvalidArgument
      | Some (neg, v, rest) \<Rightarrow>
          if v \<ge> 2 ^ 64 then Inl OutOfRange
          else Inr ((if neg then (- v) mod 2 ^ 64 else v), length s - length rest))"

definition stoi :: "nat \<Rightarrow> string \<Rightarrow> int res" where
  "stoi base s =
     (case strto base s of
        None \<Rightarrow> Inl InvalidArgument
      | Some (neg, v, rest) \<Rightarrow>
          let x = (if neg then - v else v) in
          if x < - (2 ^ 31) \<or> x \<ge> 2 ^ 31 then Inl OutOfRange else Inr x)"

definition to_long :: "int \<Rightarrow> int" where
  "to_long u = signed_take_bit 63 u"

definition to_unsigned :: "int \<Rightarrow> int" where
  "to_unsigned x = x mod 2 ^ 32"

definition find_first_not_space :: "string \<Rightarrow> nat \<Rightarrow> nat option" where
  "find_first_not_space s pos =
     (case dropWhile (\<lambda>c. c = CHR '' '') (drop pos s) of [] \<Rightarrow> None | t \<Rightarrow> Some (length s - length t))"

text \<open>\<open>substr\<close> with \<open>npos\<close> throws \<open>out_of_range\<close>.\<close>

definition substr :: "string \<Rightarrow> nat option \<Rightarrow> string res" where
  "substr s pos = (case pos of None \<Rightarrow> Inl OutOfRange | Some p \<Rightarrow> Inr (drop p s))"

section \<open>The file\<close>

record trace =
  tr_text :: string
  tr_rest :: string
  tr_eof :: bool
  tr_fail :: bool
  tr_instructions :: "int list"
  tr_expected_limit_insts :: int
  tr_pim_mode_enabled :: bool

definition init_trace :: "string \<Rightarrow> bool \<Rightarrow> trace" where
  "init_trace text pim =
     \<lparr>tr_text = text, tr_rest = text, tr_eof = False, tr_fail = False, tr_instructions = replicate 256 0,
      tr_expected_limit_insts = 0, tr_pim_mode_enabled = pim\<rparr>"

text \<open>\<open>getline\<close> leaves its string alone when the stream is no longer good.\<close>

definition getline :: "string \<Rightarrow> trace \<Rightarrow> string \<times> trace" where
  "getline old t =
     (if tr_eof t \<or> tr_fail t then (old, t\<lparr>tr_fail := True\<rparr>)
      else
        let l = takeWhile (\<lambda>c. c \<noteq> newline) (tr_rest t) in
        case dropWhile (\<lambda>c. c \<noteq> newline) (tr_rest t) of
          [] \<Rightarrow> (l, t\<lparr>tr_rest := [], tr_eof := True, tr_fail := (l = [])\<rparr>)
        | _ # r \<Rightarrow> (l, t\<lparr>tr_rest := r\<rparr>))"

definition rewind :: "trace \<Rightarrow> trace" where
  "rewind t =
     (if \<not> tr_pim_mode_enabled t then t\<lparr>tr_rest := tr_text t, tr_eof := False, tr_fail := False\<rparr> else t)"

section \<open>The formats\<close>

text \<open>The letter of a request: nothing or \<open>R\<close> is a read, \<open>W\<close> a write, anything else fails.\<close>

definition letter_type :: "string \<Rightarrow> nat option \<Rightarrow> req_type res" where
  "letter_type l pos =
     (case pos of
        None \<Rightarrow> Inr READ
      | Some p \<Rightarrow>
          if l ! p = CHR ''R'' then Inr READ
          else if l ! p = CHR ''W'' then Inr WRITE
          else Inl AssertFailed)"

text \<open>\<open>None\<close>: the function returns false and leaves its reference parameters alone.\<close>

definition get_unfiltered_request :: "trace \<Rightarrow> ((int \<times> int \<times> req_type) option \<times> trace) res" where
  "get_unfiltered_request t0 =
     (let (l, t) = getline [] t0 in
      if tr_eof t then Inr (None, rewind t)
      else
        bindR (stoul 10 l) (\<lambda>(bubble_cnt, n).
        let pos = find_first_not_space l (n + 1) in
        bindR (bindR (substr l pos) (stoul 0)) (\<lambda>(adr, end).
        bindR (letter_type l (find_first_not_space l (the pos + end))) (\<lambda>ty.
          Inr (Some (to_long bubble_cnt, to_long adr, ty), t)))))"

text \<open>
  The \<open>static\<close> variables \<open>has_write\<close> and \<open>write_addr\<close> are one optional address (\<open>pend\<close>).  \<open>line_num\<close> is
  never read.
\<close>

definition get_filtered_request ::
  "int option \<Rightarrow> trace \<Rightarrow> ((int \<times> int \<times> req_type) option \<times> int option \<times> trace) res" where
  "get_filtered_request pend t0 =
     (case pend of
        Some write_addr \<Rightarrow> Inr (Some (0, write_addr, WRITE), None, t0)
      | None \<Rightarrow>
          let (l, t) = getline [] t0;
              over = (tr_eof t \<or> l = []);
              t1 = (if over then rewind t else t)
          in if over \<and> tr_expected_limit_insts t = 0 then Inr (None, None, t1)
             else
               let (l2, t2) = (if over then getline l t1 else (l, t1)) in
               bindR (stoul 10 l2) (\<lambda>(bubble_cnt, n).
               let pos = find_first_not_space l2 (n + 1) in
               bindR (bindR (substr l2 pos) (stoul 0)) (\<lambda>(adr, end).
               let pos2 = find_first_not_space l2 (the pos + end) in
               bindR (case pos2 of
                        None \<Rightarrow> Inr None
                      | Some p \<Rightarrow> bindR (stoul 0 (drop p l2)) (\<lambda>(w, _). Inr (Some (to_long w))))
                 (\<lambda>pend'. Inr (Some (to_long bubble_cnt, to_long adr, READ), pend', t2)))))"

definition get_dramtrace_request :: "trace \<Rightarrow> ((int \<times> req_type) option \<times> trace) res" where
  "get_dramtrace_request t0 =
     (let (l, t) = getline [] t0 in
      if tr_eof t then Inr (None, t)
      else
        bindR (stoul 16 l) (\<lambda>(adr, n).
        bindR (letter_type l (find_first_not_space l (n + 1))) (\<lambda>ty.
          Inr (Some (to_long adr, ty), t))))"

text \<open>Words separated by white space.\<close>

fun split_words :: "string \<Rightarrow> string \<Rightarrow> string list" where
  "split_words [] w = (if w = [] then [] else [w])"
| "split_words (c # s) w =
     (if is_space c then (if w = [] then split_words s [] else w # split_words s [])
      else split_words s (w @ [c]))"

definition split_str :: "string \<Rightarrow> string list" where
  "split_str s = split_words s []"

text \<open>
  Indexing a vector outside its length is undefined in C++, here an error.  \<open>bubble_cnt\<close> is the
  difference of two cycle numbers as an \<open>unsigned\<close>.
\<close>

definition get_pisa_request :: "trace \<Rightarrow> ((int \<times> int \<times> req_type \<times> int) option \<times> trace) res" where
  "get_pisa_request t0 =
     (let (l, t) = getline [] t0 in
      if tr_fail t \<or> l = [] then Inr (None, t)
      else
        let words = split_str l in
        bindR (bindR (nthR words 0) (stoi 10)) (\<lambda>threadID.
        bindR (bindR (nthR words 1) (stoi 10)) (\<lambda>processorID.
        bindR (bindR (nthR words 2) (stoi 10)) (\<lambda>cycleNum.
        bindR (indexR (tr_instructions t) (to_unsigned processorID)) (\<lambda>previous.
          let nInstructions = to_unsigned (cycleNum - previous);
              t1 = t\<lparr>tr_instructions := (tr_instructions t)[nat (to_unsigned processorID) := cycleNum]\<rparr>
          in bindR (nthR words 3) (\<lambda>ty.
             bindR (bindR (nthR words 4) (stoul 16)) (\<lambda>(adr, _).
             bindR (bindR (nthR words 5) (stoi 10)) (\<lambda>sz.
               Inr (Some (nInstructions, to_long adr, if ty = ''L'' then READ else WRITE, to_unsigned sz), t1)))))))))"

text \<open>The reference parameters of \<open>get_zsim_request\<close>.\<close>

record zsim_req =
  zr_bubble_cnt :: int
  zr_addr :: int
  zr_type :: req_type
  zr_cpu_id :: int

definition is_type_word :: "string \<Rightarrow> bool" where
  "is_type_word w \<longleftrightarrow> w = ''L'' \<or> w = ''S'' \<or> w = ''P'' \<or> w = ''I''"

fun type_position :: "nat \<Rightarrow> string list \<Rightarrow> nat" where
  "type_position i [] = 0"
| "type_position i (w # ws) = (if is_type_word w then i else type_position (Suc i) ws)"

definition zsim_type :: "string \<Rightarrow> req_type \<Rightarrow> req_type" where
  "zsim_type w old = (if w = ''L'' then READ else if w = ''S'' then WRITE else if w = ''I'' then INSTRUCTION else old)"

text \<open>The words around the type word, at position \<open>p\<close>.\<close>

definition zsim_access :: "string list \<Rightarrow> nat \<Rightarrow> zsim_req \<Rightarrow> zsim_req res" where
  "zsim_access words p z =
     bindR (bindR (nthR words (p - 3)) (stoi 10)) (\<lambda>threadID.
     bindR (bindR (nthR words (p - 2)) (stoi 10)) (\<lambda>processorID.
     if to_unsigned processorID > 512 then Inr (z\<lparr>zr_addr := -1\<rparr>)
     else
       bindR (if words ! (p - 1) \<noteq> ''-'' then stoi 10 (words ! (p - 1)) else Inr 0) (\<lambda>cycleNum.
       bindR (bindR (nthR words (p + 1)) (stoul 10)) (\<lambda>adr.
         Inr (z\<lparr>zr_bubble_cnt := to_unsigned cycleNum, zr_addr := to_long (fst adr),
               zr_type := zsim_type (words ! p) (zr_type z), zr_cpu_id := to_unsigned processorID\<rparr>)))))"

text \<open>The body of the \<open>try\<close> block; an exception that it throws sets \<open>req_addr\<close> to \<open>-1\<close>.\<close>

definition zsim_line :: "string list \<Rightarrow> zsim_req \<Rightarrow> zsim_req res" where
  "zsim_line words z =
     (if length words < 5 then Inr (z\<lparr>zr_addr := -1\<rparr>)
      else if 3 \<le> type_position 0 words \<and> type_position 0 words + 1 < length words
      then zsim_access words (type_position 0 words) z
      else Inr (z\<lparr>zr_addr := -1\<rparr>))"

definition get_zsim_request :: "trace \<Rightarrow> zsim_req \<Rightarrow> bool \<times> zsim_req \<times> trace" where
  "get_zsim_request t0 z =
     (let (l, t) = getline [] t0 in
      if tr_fail t \<or> l = [] then (False, z, t)
      else case zsim_line (split_str l) z of
             Inl _ \<Rightarrow> (True, z\<lparr>zr_addr := -1\<rparr>, t)
           | Inr z' \<Rightarrow> (True, z', t))"

end
