(* ===== verification/Core_Model.thy ===== *)
theory Core_Model
  imports Inst_Window Trace_Parser
begin

text \<open>
  A core of the processor (\<open>Core\<close>, \<open>SqueduleQueue\<close> in \<open>ramulator/src/Processor.h\<close> and
  \<open>Processor.cpp\<close>): it takes the instructions of its trace, keeps the ones in flight in its window and
  sends the memory accesses.  What a core calls outside (the next cache or the memory, the page
  allocator, the bookkeeping of the memory) is the record \<open>core_env\<close>, on a state \<open>'e\<close>.
\<close>

unbundle bit_operations_syntax

section \<open>State\<close>

record rqst_queue =
  sq_bubble_cnt :: "int list"
  sq_req_addr :: "int list"
  sq_req_type :: "req_type list"
  sq_number :: int

definition new_rqst_queue :: rqst_queue where
  "new_rqst_queue = \<lparr>sq_bubble_cnt = [], sq_req_addr = [], sq_req_type = [], sq_number = 0\<rparr>"

definition queue_is_empty :: "rqst_queue \<Rightarrow> bool" where
  "queue_is_empty q \<longleftrightarrow> sq_number q = 0"

definition pop_front :: "rqst_queue \<Rightarrow> rqst_queue" where
  "pop_front q =
     (if queue_is_empty q then q
      else q\<lparr>sq_bubble_cnt := tl (sq_bubble_cnt q), sq_req_addr := tl (sq_req_addr q),
             sq_req_type := tl (sq_req_type q), sq_number := sq_number q - 1\<rparr>)"

definition push_request :: "int \<Rightarrow> int \<Rightarrow> req_type \<Rightarrow> rqst_queue \<Rightarrow> rqst_queue" where
  "push_request bubble_cnt adr ty q =
     q\<lparr>sq_bubble_cnt := sq_bubble_cnt q @ [bubble_cnt], sq_req_addr := sq_req_addr q @ [adr],
       sq_req_type := sq_req_type q @ [ty], sq_number := sq_number q + 1\<rparr>"

record core_stats =
  cr_record_cycs :: int
  cr_record_insts :: int
  cr_memory_access_cycles :: int
  cr_cpu_inst :: int
  cr_idle_cycles :: int
  cr_memory_inst :: int
  cr_non_memory_inst :: int

record core =
  co_clk :: int
  co_retired :: int
  co_id :: int
  co_split_trace :: bool
  co_inFlightMemoryAccess :: int
  co_cpu_type :: string
  co_rqst_queue :: rqst_queue
  co_lock_core :: bool
  co_expected_limit_insts :: int
  co_reached_limit :: bool
  co_window :: window
  co_bubble_cnt :: int
  co_req_addr :: int
  co_req_type :: req_type
  co_more_reqs :: bool
  co_last :: int
  co_stats :: core_stats
  co_trace_per_core :: trace

record 'e core_env =
  ce_send :: "request \<Rightarrow> 'e \<Rightarrow> (bool \<times> 'e) res"
  ce_page_allocator :: "int \<Rightarrow> int \<Rightarrow> 'e \<Rightarrow> (int \<times> 'e) res"
  ce_record_core :: "int \<Rightarrow> 'e \<Rightarrow> 'e"

text \<open>
  \<open>expected_limit_insts\<close> is not initialised by any code: it is the argument \<open>limit\<close>.  \<open>bubble_cnt\<close>,
  \<open>req_type\<close> and \<open>more_reqs\<close> are written by the constructor of the processor before they are read.
\<close>

definition new_core :: "int \<Rightarrow> string \<Rightarrow> int \<Rightarrow> core" where
  "new_core coreid cpu_type limit =
     \<lparr>co_clk = 0, co_retired = 0, co_id = coreid, co_split_trace = False, co_inFlightMemoryAccess = 0,
      co_cpu_type = cpu_type, co_rqst_queue = new_rqst_queue, co_lock_core = False,
      co_expected_limit_insts = limit, co_reached_limit = False, co_window = new_window, co_bubble_cnt = 0,
      co_req_addr = -1, co_req_type = READ, co_more_reqs = False, co_last = 0,
      co_stats = \<lparr>cr_record_cycs = 0, cr_record_insts = 0, cr_memory_access_cycles = 0, cr_cpu_inst = 0,
                  cr_idle_cycles = 0, cr_memory_inst = 0, cr_non_memory_inst = 0\<rparr>,
      co_trace_per_core = init_trace [] False\<rparr>"

section \<open>Counting\<close>

definition upd_stats_core :: "(core_stats \<Rightarrow> core_stats) \<Rightarrow> core \<Rightarrow> core" where
  "upd_stats_core f c = c\<lparr>co_stats := f (co_stats c)\<rparr>"

definition count_idle :: "core \<Rightarrow> core" where
  "count_idle = upd_stats_core (\<lambda>s. s\<lparr>cr_idle_cycles := cr_idle_cycles s + 1\<rparr>)"

definition count_cpu :: "core \<Rightarrow> core" where
  "count_cpu = upd_stats_core (\<lambda>s. s\<lparr>cr_cpu_inst := cr_cpu_inst s + 1\<rparr>)"

definition count_memory :: "core \<Rightarrow> core" where
  "count_memory = upd_stats_core (\<lambda>s. s\<lparr>cr_cpu_inst := cr_cpu_inst s + 1, cr_memory_inst := cr_memory_inst s + 1\<rparr>)"

definition count_bubble :: "core \<Rightarrow> core" where
  "count_bubble =
     upd_stats_core (\<lambda>s. s\<lparr>cr_cpu_inst := cr_cpu_inst s + 1, cr_non_memory_inst := cr_non_memory_inst s + 1\<rparr>)"

definition record_limit :: "'e core_env \<Rightarrow> core \<Rightarrow> 'e \<Rightarrow> core \<times> 'e" where
  "record_limit env c e =
     ((upd_stats_core (\<lambda>s. s\<lparr>cr_record_cycs := co_clk c, cr_record_insts := cr_cpu_inst s\<rparr>) c)\<lparr>co_reached_limit := True\<rparr>,
      ce_record_core env (co_id c) e)"

definition check_limit :: "'e core_env \<Rightarrow> core \<Rightarrow> 'e \<Rightarrow> core \<times> 'e" where
  "check_limit env c e =
     (if cr_cpu_inst (co_stats c) = co_expected_limit_insts c \<and> \<not> co_reached_limit c
      then record_limit env c e else (c, e))"

section \<open>The next request\<close>

definition next_from_queue :: "core \<Rightarrow> core" where
  "next_from_queue c =
     (let q = co_rqst_queue c in
      if \<not> queue_is_empty q then
        c\<lparr>co_more_reqs := True, co_bubble_cnt := hd (sq_bubble_cnt q), co_req_addr := hd (sq_req_addr q),
          co_req_type := hd (sq_req_type q), co_rqst_queue := pop_front q\<rparr>
      else c\<lparr>co_more_reqs := False\<rparr>)"

text \<open>\<open>get_first_request\<close>, also what a core with its own trace does for every further request.\<close>

definition next_from_trace :: "'e core_env \<Rightarrow> core \<Rightarrow> 'e \<Rightarrow> (core \<times> 'e) res" where
  "next_from_trace env c e =
     (let (more, z, t) = get_zsim_request (co_trace_per_core c)
            \<lparr>zr_bubble_cnt = co_bubble_cnt c, zr_addr = co_req_addr c, zr_type = co_req_type c, zr_cpu_id = 0\<rparr>
      in bindR (ce_page_allocator env (zr_addr z) (co_id c) e) (\<lambda>(adr, e').
           Inr (c\<lparr>co_more_reqs := more, co_bubble_cnt := zr_bubble_cnt z, co_req_addr := adr,
                  co_req_type := zr_type z, co_trace_per_core := t\<rparr>, e')))"

definition trace_over :: "'e core_env \<Rightarrow> core \<Rightarrow> 'e \<Rightarrow> core \<times> 'e" where
  "trace_over env c e = (if \<not> co_more_reqs c \<and> \<not> co_reached_limit c then record_limit env c e else (c, e))"

section \<open>The out-of-order core\<close>

text \<open>
  The loop over the instructions that do not access memory.  The first component of the result is true
  if the function returns from inside the loop.
\<close>

function bubbles_outOrder :: "'e core_env \<Rightarrow> int \<Rightarrow> core \<Rightarrow> 'e \<Rightarrow> (bool \<times> int \<times> core \<times> 'e) res" where
  "bubbles_outOrder env inserted c e =
     (if 0 < co_bubble_cnt c then
        if inserted = wd_ipc (co_window c) then Inr (True, inserted, count_idle c, e)
        else if window_is_full (co_window c) then Inr (True, inserted, c, e)
        else
          bindR (window_insert True (-1) (co_window c)) (\<lambda>w.
            let (c', e') = check_limit env (count_bubble (c\<lparr>co_window := w, co_bubble_cnt := co_bubble_cnt c - 1\<rparr>)) e
            in bubbles_outOrder env (inserted + 1) c' e')
      else Inr (False, inserted, c, e))"
  by auto

lemma check_limit_bubbles [simp]: "co_bubble_cnt (fst (check_limit env c e)) = co_bubble_cnt c"
  by (simp add: check_limit_def record_limit_def upd_stats_core_def)

termination bubbles_outOrder
  by (relation "measure (\<lambda>(env, i, c, e). nat (co_bubble_cnt c))")
     (auto simp: count_bubble_def upd_stats_core_def split_def)

declare bubbles_outOrder.simps [simp del]

text \<open>The memory access; the first component is false if the function returns here.\<close>

definition access_outOrder :: "'e core_env \<Rightarrow> int \<Rightarrow> core \<Rightarrow> 'e \<Rightarrow> (bool \<times> core \<times> 'e) res" where
  "access_outOrder env inserted c e =
     (if co_req_type c = READ then
        if inserted = wd_ipc (co_window c) then Inr (False, count_idle c, e)
        else if window_is_full (co_window c) then Inr (False, c, e)
        else
          bindR (ce_send env (mk_request (co_req_addr c) READ (co_id c)) e) (\<lambda>(ok, e').
            if \<not> ok then Inr (False, c, e')
            else bindR (window_insert False (co_req_addr c) (co_window c)) (\<lambda>w.
                   Inr (True, count_memory (c\<lparr>co_window := w\<rparr>), e')))
      else if co_req_type c = WRITE then
        bindR (ce_send env (mk_request (co_req_addr c) WRITE (co_id c)) e) (\<lambda>(ok, e').
          Inr (if ok then (True, count_memory c, e') else (False, c, e')))
      else if co_req_type c = INSTRUCTION then
        if inserted = wd_ipc (co_window c) then Inr (False, count_idle c, e)
        else
          bindR (ce_send env ((mk_request (co_req_addr c) READ (co_id c))\<lparr>rq_instruction_request := True\<rparr>) e)
            (\<lambda>(ok, e'). Inr (ok, c, e'))
      else Inr (True, c, e))"

definition tick_outOrder :: "'e core_env \<Rightarrow> core \<Rightarrow> 'e \<Rightarrow> (core \<times> 'e) res" where
  "tick_outOrder env c0 e0 =
     bindR (window_retire (co_window c0)) (\<lambda>(n, w).
       let c = c0\<lparr>co_window := w, co_retired := co_retired c0 + n\<rparr> in
       if co_expected_limit_insts c = 0 \<and> \<not> co_more_reqs c then Inr (c, e0)
       else if co_lock_core c then Inr (c, e0)
       else
         bindR (bubbles_outOrder env 0 c e0) (\<lambda>(stop, inserted, c1, e1).
           if stop then Inr (c1, e1)
           else
             bindR (access_outOrder env inserted c1 e1) (\<lambda>(ok, c2, e2).
               if \<not> ok then Inr (c2, e2)
               else
                 bindR (if co_split_trace c2 then next_from_trace env c2 e2 else Inr (next_from_queue c2, e2))
                   (\<lambda>(c3, e3). Inr (trace_over env c3 e3)))))"

section \<open>The in-order core\<close>

function bubbles_inOrder :: "'e core_env \<Rightarrow> int \<Rightarrow> core \<Rightarrow> 'e \<Rightarrow> bool \<times> int \<times> core \<times> 'e" where
  "bubbles_inOrder env inserted c e =
     (if 0 < co_bubble_cnt c then
        if inserted = wd_ipc (co_window c) then (True, inserted, c, e)
        else
          let (c', e') = check_limit env
                (count_cpu (c\<lparr>co_bubble_cnt := co_bubble_cnt c - 1, co_retired := co_retired c + 1\<rparr>)) e
          in bubbles_inOrder env (inserted + 1) c' e'
      else (False, inserted, c, e))"
  by auto

termination bubbles_inOrder
  by (relation "measure (\<lambda>(env, i, c, e). nat (co_bubble_cnt c))")
     (auto simp: count_cpu_def upd_stats_core_def split_def)

declare bubbles_inOrder.simps [simp del]

text \<open>
  The source tests for \<open>READ\<close> twice: the first branch only counts the instruction, so the second, which
  sends the request, is never reached.
\<close>

definition access_inOrder :: "'e core_env \<Rightarrow> int \<Rightarrow> core \<Rightarrow> 'e \<Rightarrow> (bool \<times> core \<times> 'e) res" where
  "access_inOrder env inserted c e =
     (if co_req_type c = READ then
        if inserted = wd_ipc (co_window c) then Inr (False, c, e) else Inr (True, count_cpu c, e)
      else if co_req_type c = READ then
        if inserted = wd_ipc (co_window c) then Inr (False, c, e)
        else
          bindR (ce_send env (mk_request (co_req_addr c) READ (co_id c)) e) (\<lambda>(ok, e').
            if \<not> ok then Inr (False, c, e')
            else
              let (c', e'') = check_limit env
                    (count_cpu (c\<lparr>co_inFlightMemoryAccess := co_inFlightMemoryAccess c + 1\<rparr>)) e'
              in Inr (True, c', e''))
      else if co_req_type c = WRITE then
        bindR (ce_send env (mk_request (co_req_addr c) WRITE (co_id c)) e) (\<lambda>(ok, e').
          Inr (if ok then (True, count_cpu c, e') else (False, c, e')))
      else if co_req_type c = INSTRUCTION then
        if inserted = wd_ipc (co_window c) then Inr (False, c, e)
        else
          bindR (ce_send env ((mk_request (co_req_addr c) READ (co_id c))\<lparr>rq_instruction_request := True\<rparr>) e)
            (\<lambda>(ok, e').
              Inr (if ok then
                     (True, c\<lparr>co_inFlightMemoryAccess := co_inFlightMemoryAccess c + 1, co_lock_core := True\<rparr>, e')
                   else (False, c, e')))
      else Inr (True, c, e))"

definition tick_inOrder :: "'e core_env \<Rightarrow> core \<Rightarrow> 'e \<Rightarrow> (core \<times> 'e) res" where
  "tick_inOrder env c e =
     (if co_expected_limit_insts c = 0 \<and> \<not> co_more_reqs c then Inr (c, e)
      else if co_inFlightMemoryAccess c \<ge> 1 then Inr (c, e)
      else if co_lock_core c then Inr (c, e)
      else
        let (stop, inserted, c1, e1) = bubbles_inOrder env 0 c e in
        if stop then Inr (c1, e1)
        else
          bindR (access_inOrder env inserted c1 e1) (\<lambda>(ok, c2, e2).
            if \<not> ok then Inr (c2, e2) else Inr (trace_over env (next_from_queue c2) e2)))"

section \<open>Operations of a core\<close>

definition core_tick :: "'e core_env \<Rightarrow> core \<Rightarrow> 'e \<Rightarrow> (core \<times> 'e) res" where
  "core_tick env c0 e =
     (let c = c0\<lparr>co_clk := co_clk c0 + 1\<rparr> in
      if co_cpu_type c = ''inOrder'' then tick_inOrder env c e
      else if co_cpu_type c = ''outOrder'' then tick_outOrder env c e
      else Inr (c, e))"

definition core_finished :: "core \<Rightarrow> bool" where
  "core_finished c \<longleftrightarrow> \<not> co_more_reqs c"

text \<open>The blocks of the L1 cache have 64 bytes.\<close>

definition core_receive :: "request \<Rightarrow> core \<Rightarrow> core res" where
  "core_receive req c =
     bindR (window_set_ready (rq_addr req) (NOT (64 - 1)) (co_window c)) (\<lambda>w.
       let c1 = c\<lparr>co_window := w\<rparr> in
       Inr (if rq_arrive req \<noteq> -1 \<and> rq_depart req > co_last c1 then
              (upd_stats_core (\<lambda>s. s\<lparr>cr_memory_access_cycles :=
                   cr_memory_access_cycles s + (rq_depart req - max (co_last c1) (rq_arrive req))\<rparr>) c1)
                \<lparr>co_last := rq_depart req\<rparr>
            else c1))"

end
