(* ===== verification/Trace_Props.thy ===== *)
theory Trace_Props
  imports Trace_Parser
begin

text \<open>
  What the trace parsers return for well-formed traces, and on the lines that are not: a DRAM trace
  that was written line by line is read back in order, a line without its newline is dropped, and the
  parser of the zsim format never fails.
\<close>

section \<open>Printed numbers\<close>

definition digit_char :: "nat \<Rightarrow> char" where
  "digit_char d = char_of (if d < 10 then 48 + d else 87 + d)"

function show_digits :: "nat \<Rightarrow> nat \<Rightarrow> string" where
  "show_digits b n =
     (if n < b \<or> b < 2 then [digit_char n] else show_digits b (n div b) @ [digit_char (n mod b)])"
  by auto
termination by (relation "measure snd") auto

declare show_digits.simps [simp del]

lemma digit_val_char [simp]: "d < 36 \<Longrightarrow> digit_val (digit_char d) = d"
  by (auto simp: digit_val_def digit_char_def Let_def)

lemma show_digits_digits:
  "2 \<le> b \<Longrightarrow> b \<le> 36 \<Longrightarrow> show_digits b n \<noteq> [] \<and> (\<forall>c\<in>set (show_digits b n). digit_val c < b)"
proof (induction b n rule: show_digits.induct)
  case (1 b n)
  have "n mod b < b" using 1(2) by simp
  then have "digit_val (digit_char (n mod b)) < b" using 1(3) by simp
  with 1 show ?case by (subst (1 2) show_digits.simps) auto
qed

lemma scan_digits_append:
  "\<forall>c\<in>set s. digit_val c < b \<Longrightarrow>
     scan_digits b (s @ r) acc = scan_digits b r (foldl (\<lambda>a c. a * int b + int (digit_val c)) acc s)"
  by (induction s arbitrary: acc) auto

lemma show_digits_value:
  "2 \<le> b \<Longrightarrow> b \<le> 36 \<Longrightarrow> foldl (\<lambda>a c. a * int b + int (digit_val c)) 0 (show_digits b n) = int n"
proof (induction b n rule: show_digits.induct)
  case (1 b n)
  show ?case
  proof (cases "n < b")
    case True
    then show ?thesis using 1(3) by (simp add: show_digits.simps)
  next
    case False
    moreover have "n mod b < 36" using 1(2,3) mod_less_divisor [of b n] by linarith
    moreover have "int (n div b) * int b + int (n mod b) = int n" by (metis div_mult_mod_eq of_nat_add of_nat_mult)
    ultimately show ?thesis using 1 by (subst show_digits.simps) simp
  qed
qed

lemma scan_show:
  assumes "2 \<le> b" "b \<le> 36" "r = [] \<or> \<not> digit_val (hd r) < b"
  shows "scan_digits b (show_digits b n @ r) 0 = (int n, r)"
proof -
  have "scan_digits b r x = (x, r)" for x using assms(3) by (cases r) auto
  then show ?thesis
    using show_digits_digits [OF assms(1,2)] by (simp add: scan_digits_append show_digits_value [OF assms(1,2)])
qed

text \<open>The characters of a number are neither white space nor signs.\<close>

lemma digit_not_space: "digit_val c < 36 \<Longrightarrow> \<not> is_space c \<and> c \<noteq> CHR ''-'' \<and> c \<noteq> CHR ''+'' \<and> c \<noteq> CHR '' ''"
  by (auto simp: digit_val_def is_space_def newline_def split: if_splits)

definition ends_number :: "nat \<Rightarrow> string \<Rightarrow> bool" where
  "ends_number b r \<longleftrightarrow> r = [] \<or> \<not> digit_val (hd r) < b"

lemma dropWhile_digits:
  assumes "s \<noteq> []" "digit_val (hd s) < 36"
  shows "dropWhile is_space (s @ r) = s @ r" "scan_sign (s @ r) = (False, s @ r)"
  using assms digit_not_space [of "hd s"] by (cases s; auto)+

lemma show_hd: "2 \<le> b \<Longrightarrow> b \<le> 36 \<Longrightarrow> digit_val (hd (show_digits b n)) < b"
  using show_digits_digits [of b n] by (cases "show_digits b n") auto

lemma strto_dec:
  assumes "ends_number 10 r"
  shows "strto 10 (show_digits 10 n @ r) = Some (False, int n, r)"
proof -
  have h: "show_digits 10 n \<noteq> []" "digit_val (hd (show_digits 10 n)) < 10"
    using show_digits_digits [of 10 n] show_hd [of 10 n] by simp_all
  have "scan_base 10 s = (10, s)" for s by (cases "(10 :: nat, s)" rule: scan_base.cases) auto
  then show ?thesis
    using h dropWhile_digits [OF h(1), of r] scan_show [of 10 r n] assms by (simp add: strto_def ends_number_def)
qed

lemma stoul_dec:
  assumes "ends_number 10 r" "n < 2 ^ 64"
  shows "stoul 10 (show_digits 10 n @ r) = Inr (int n, length (show_digits 10 n))"
  using assms by (simp add: stoul_def strto_dec)

lemma stoi_dec:
  assumes "ends_number 10 r" "n < 2 ^ 31"
  shows "stoi 10 (show_digits 10 n @ r) = Inr (int n)"
  using assms by (simp add: stoi_def strto_dec)

lemma stoul_hex:
  assumes "b = 0 \<or> b = 16" "ends_number 16 r" "n < 2 ^ 64"
  shows "stoul b (''0x'' @ show_digits 16 n @ r) = Inr (int n, 2 + length (show_digits 16 n))"
proof -
  obtain d s where d: "show_digits 16 n = d # s" "digit_val d < 16"
    using show_digits_digits [of 16 n] by (cases "show_digits 16 n") auto
  have "dropWhile is_space (''0x'' @ show_digits 16 n @ r) = ''0x'' @ show_digits 16 n @ r"
    by (simp add: is_space_def newline_def)
  then have "strto b (''0x'' @ show_digits 16 n @ r) = Some (False, int n, r)"
    using d assms(1,2) scan_show [of 16 r n] by (simp add: strto_def ends_number_def)
  then show ?thesis using assms(3) by (simp add: stoul_def)
qed

section \<open>Lines\<close>

lemma line_split:
  assumes "newline \<notin> set l"
  shows "takeWhile (\<lambda>c. c \<noteq> newline) (l @ newline # r) = l" "dropWhile (\<lambda>c. c \<noteq> newline) (l @ newline # r) = newline # r"
    "takeWhile (\<lambda>c. c \<noteq> newline) l = l" "dropWhile (\<lambda>c. c \<noteq> newline) l = []"
  using assms by (induction l) auto

lemma getline_line:
  assumes "newline \<notin> set l" "tr_rest t = l @ newline # r" "\<not> tr_eof t" "\<not> tr_fail t"
  shows "getline old t = (l, t\<lparr>tr_rest := r\<rparr>)"
  using assms by (simp add: getline_def line_split)

lemma getline_last:
  assumes "newline \<notin> set (tr_rest t)" "\<not> tr_eof t" "\<not> tr_fail t"
  shows "getline old t = (tr_rest t, t\<lparr>tr_rest := [], tr_eof := True, tr_fail := (tr_rest t = [])\<rparr>)"
  using assms by (simp add: getline_def line_split Let_def)

text \<open>A line of a DRAM trace, and reading at most \<open>n\<close> requests as \<open>run_dramtrace\<close> does.\<close>

definition dram_line :: "int \<times> req_type \<Rightarrow> string" where
  "dram_line r =
     ''0x'' @ show_digits 16 (nat (fst r mod 2 ^ 64)) @ (if snd r = WRITE then '' W'' else '' R'')"

fun read_dramtrace :: "nat \<Rightarrow> trace \<Rightarrow> ((int \<times> req_type) list \<times> trace) res" where
  "read_dramtrace 0 t = Inr ([], t)"
| "read_dramtrace (Suc n) t =
     bindR (get_dramtrace_request t) (\<lambda>(r, t1).
       case r of
         None \<Rightarrow> Inr ([], t1)
       | Some x \<Rightarrow> bindR (read_dramtrace n t1) (\<lambda>(xs, t2). Inr (x # xs, t2)))"

definition dram_request :: "int \<times> req_type \<Rightarrow> bool" where
  "dram_request r \<longleftrightarrow> - (2 ^ 63) \<le> fst r \<and> fst r < 2 ^ 63 \<and> (snd r = READ \<or> snd r = WRITE)"

lemma to_long_mod: "- (2 ^ 63) \<le> a \<Longrightarrow> a < 2 ^ 63 \<Longrightarrow> to_long (a mod 2 ^ 64) = a"
proof -
  assume "- (2 ^ 63) \<le> a" "a < 2 ^ 63"
  moreover have "signed_take_bit 63 (a mod 2 ^ 64) = signed_take_bit 63 a"
    using signed_take_bit_take_bit [of 63 64 a] by (simp add: take_bit_eq_mod)
  ultimately show ?thesis using signed_take_bit_int_eq_self [of 63 a] by (simp add: to_long_def)
qed

lemma dram_line_no_newline: "newline \<notin> set (dram_line r)"
proof -
  have "newline \<notin> set (show_digits 16 n)" for n
    using show_digits_digits [of 16 n] digit_not_space [of newline] by (force simp: is_space_def)
  then show ?thesis by (auto simp: dram_line_def newline_def)
qed

lemma get_dram_line:
  assumes "dram_request r" "tr_rest t = dram_line r @ newline # s" "\<not> tr_eof t" "\<not> tr_fail t"
  shows "get_dramtrace_request t = Inr (Some r, t\<lparr>tr_rest := s\<rparr>)"
proof -
  let ?n = "nat (fst r mod 2 ^ 64)" and ?w = "if snd r = WRITE then '' W'' else '' R''"
  have "ends_number 16 ?w" by (simp add: ends_number_def digit_val_def)
  moreover have "?n < 2 ^ 64" by (simp add: nat_less_iff)
  ultimately have st: "stoul 16 (dram_line r) = Inr (fst r mod 2 ^ 64, 2 + length (show_digits 16 ?n))"
    using stoul_hex [of 16 ?w ?n] by (simp add: dram_line_def)
  have "drop (2 + length (show_digits 16 ?n) + 1) (dram_line r) = (if snd r = WRITE then ''W'' else ''R'')"
    "length (dram_line r) = 2 + length (show_digits 16 ?n) + 2"
    by (simp_all add: dram_line_def)
  then have "find_first_not_space (dram_line r) (2 + length (show_digits 16 ?n) + 1)
      = Some (2 + length (show_digits 16 ?n) + 1)"
    by (simp add: find_first_not_space_def)
  moreover have "dram_line r ! (2 + length (show_digits 16 ?n) + 1) = (if snd r = WRITE then CHR ''W'' else CHR ''R'')"
    by (simp add: dram_line_def nth_append)
  ultimately have "letter_type (dram_line r) (find_first_not_space (dram_line r) (2 + length (show_digits 16 ?n) + 1))
      = Inr (snd r)"
    using assms(1) by (auto simp: letter_type_def dram_request_def)
  then show ?thesis
    using getline_line [OF dram_line_no_newline assms(2-4)] st assms(1,3) to_long_mod [of "fst r"]
    by (simp add: get_dramtrace_request_def dram_request_def)
qed

lemma read_dram_lines:
  assumes "\<forall>r\<in>set rs. dram_request r" "tr_rest t = concat (map (\<lambda>r. dram_line r @ [newline]) rs) @ tail"
    "newline \<notin> set tail" "\<not> tr_eof t" "\<not> tr_fail t" "length rs < n"
  shows "\<exists>t'. read_dramtrace n t = Inr (rs, t') \<and> tr_eof t'"
  using assms
proof (induction rs arbitrary: t n)
  case Nil
  then obtain k where "n = Suc k" by (cases n) auto
  with Nil show ?case using getline_last [of t "[]"] by (simp add: get_dramtrace_request_def)
next
  case (Cons r rs)
  then obtain k where n: "n = Suc k" by (cases n) auto
  have "get_dramtrace_request t = Inr (Some r, t\<lparr>tr_rest := concat (map (\<lambda>r. dram_line r @ [newline]) rs) @ tail\<rparr>)"
    using Cons.prems by (intro get_dram_line) simp_all
  moreover obtain t' where "read_dramtrace k (t\<lparr>tr_rest := concat (map (\<lambda>r. dram_line r @ [newline]) rs) @ tail\<rparr>)
      = Inr (rs, t')" "tr_eof t'"
    using Cons.IH [of "t\<lparr>tr_rest := concat (map (\<lambda>r. dram_line r @ [newline]) rs) @ tail\<rparr>" k] Cons.prems n by auto
  ultimately show ?case by (simp add: n)
qed

section \<open>Lines of the zsim format\<close>

lemma split_words_append:
  "\<forall>c\<in>set w. \<not> is_space c \<Longrightarrow> split_words (w @ s) v = split_words s (v @ w)"
  by (induction w arbitrary: v) auto

definition word :: "string \<Rightarrow> bool" where
  "word w \<longleftrightarrow> w \<noteq> [] \<and> (\<forall>c\<in>set w. \<not> is_space c)"

fun unwords :: "string list \<Rightarrow> string" where
  "unwords [] = []"
| "unwords [w] = w"
| "unwords (w # ws) = w @ '' '' @ unwords ws"

lemma split_unwords: "\<forall>w\<in>set ws. word w \<Longrightarrow> split_str (unwords ws) = ws"
  unfolding split_str_def
proof (induction ws rule: unwords.induct)
  case (2 w)
  then show ?case using split_words_append [of w "[]" "[]"] by (simp add: word_def)
next
  case (3 w v ws)
  moreover have "is_space CHR '' ''" by (simp add: is_space_def)
  ultimately show ?case using split_words_append [of w "'' '' @ unwords (v # ws)" "[]"] by (simp add: word_def)
qed simp

lemma unwords_no_newline: "\<forall>w\<in>set ws. word w \<Longrightarrow> newline \<notin> set (unwords ws)"
  by (induction ws rule: unwords.induct) (auto simp: word_def is_space_def newline_def)

lemma word_digits: "word (show_digits 10 n)"
  using show_digits_digits [of 10 n] digit_not_space by (fastforce simp: word_def)

lemma type_word_not_digits:
  assumes "is_type_word w"
  shows "w \<noteq> show_digits 10 n"
proof
  assume "w = show_digits 10 n"
  then have "digit_val (hd w) < 10" using show_hd [of 10 n] by simp
  then show False using assms by (auto simp: is_type_word_def digit_val_def)
qed

lemma stoul_word: "n < 2 ^ 64 \<Longrightarrow> stoul 10 (show_digits 10 n) = Inr (int n, length (show_digits 10 n))"
  using stoul_dec [of "[]" n] by (simp add: ends_number_def)

lemma stoi_word: "n < 2 ^ 31 \<Longrightarrow> stoi 10 (show_digits 10 n) = Inr (int n)"
  using stoi_dec [of "[]" n] by (simp add: ends_number_def)

text \<open>Thread, processor, instructions since the last access, type, address and further words (the size).\<close>

definition zsim_words :: "nat \<Rightarrow> nat \<Rightarrow> nat \<Rightarrow> string \<Rightarrow> nat \<Rightarrow> string list \<Rightarrow> string list" where
  "zsim_words thr cpu cyc ty adr rest =
     [show_digits 10 thr, show_digits 10 cpu, show_digits 10 cyc, ty, show_digits 10 adr] @ rest"

lemma zsim_words_line:
  assumes "is_type_word ty" "thr < 2 ^ 31" "cpu \<le> 512" "cyc < 2 ^ 31" "adr < 2 ^ 63"
  shows "zsim_line (zsim_words thr cpu cyc ty adr rest) z = Inr (z\<lparr>zr_bubble_cnt := int cyc, zr_addr := int adr,
    zr_type := (if ty = ''L'' then READ else if ty = ''S'' then WRITE else if ty = ''I'' then INSTRUCTION else zr_type z),
    zr_cpu_id := int cpu\<rparr>)"
proof -
  have w: "is_type_word ty" "\<not> is_type_word (show_digits 10 n)" for n
    using assms(1) type_word_not_digits by auto
  have p: "type_position 0 (zsim_words thr cpu cyc ty adr rest) = 3"
    using w by (simp add: zsim_words_def)
  have "show_digits 10 cyc \<noteq> ''-''" using show_hd [of 10 cyc] by (auto simp: digit_val_def)
  moreover have "to_unsigned (int n) = int n" if "n < 2 ^ 31" for n
    using that by (simp add: to_unsigned_def)
  moreover have "to_long (int adr) = int adr"
    using signed_take_bit_int_eq_self [of 63 "int adr"] assms(5) by (simp add: to_long_def)
  moreover have "stoi 10 (show_digits 10 thr) = Inr (int thr)" "stoi 10 (show_digits 10 cpu) = Inr (int cpu)"
    "stoi 10 (show_digits 10 cyc) = Inr (int cyc)" "stoul 10 (show_digits 10 adr) = Inr (int adr, length (show_digits 10 adr))"
    using assms by (intro stoi_word stoul_word; simp)+
  ultimately show ?thesis
    unfolding zsim_line_def zsim_access_def p using assms by (simp add: zsim_words_def nthR_def zsim_type_def)
qed

lemma zsim_line_typed:
  assumes "zsim_line ws z = Inr z'"
  shows "z' = z\<lparr>zr_addr := -1\<rparr> \<or>
    0 \<le> zr_bubble_cnt z' \<and> zr_bubble_cnt z' < 2 ^ 32 \<and> - (2 ^ 63) \<le> zr_addr z' \<and> zr_addr z' < 2 ^ 63
      \<and> 0 \<le> zr_cpu_id z' \<and> zr_cpu_id z' \<le> 512 \<and> zr_type z' \<in> {READ, WRITE, INSTRUCTION, zr_type z}"
proof -
  have u: "0 \<le> to_unsigned x \<and> to_unsigned x < 2 ^ 32" for x by (simp add: to_unsigned_def)
  have l: "- (2 ^ 63) \<le> to_long x \<and> to_long x < 2 ^ 63" for x
    unfolding to_long_def using signed_take_bit_int_greater_eq_minus_exp [of 63 x] signed_take_bit_int_less_exp [of 63 x] by simp
  have "zsim_access ws p z = Inr z' \<Longrightarrow> ?thesis" for p
    unfolding zsim_access_def bindR_eq_Inr using u l by (elim exE conjE) (auto simp: zsim_type_def split: if_split_asm)
  then show ?thesis using assms by (simp add: zsim_line_def split: if_splits)
qed

section \<open>Properties\<close>

text \<open>
  C33.  A DRAM trace is read back as it was written: of a file with one line \<open>0x<address> R\<close> or
  \<open>0x<address> W\<close> per request, for any addresses of 64 bits, the parser returns exactly the requests in
  order and then reports the end of the file.  Characters after the last newline are never a request,
  even if they are a complete line: the parser tests for the end of the file after reading the line.
\<close>

theorem dramtrace_roundtrip:
  assumes "\<forall>r\<in>set rs. dram_request r" "newline \<notin> set tail" "length rs < n"
  shows "\<exists>t'. read_dramtrace n (init_trace (concat (map (\<lambda>r. dram_line r @ [newline]) rs) @ tail) pim)
      = Inr (rs, t') \<and> tr_eof t'"
  using assms by (intro read_dram_lines) (simp_all add: init_trace_def)

theorem dramtrace_roundtrip_witness:
  "\<exists>t'. read_dramtrace 3 (init_trace (dram_line (0x12f00, READ) @ [newline] @ dram_line (-64, WRITE) @ [newline]
      @ ''0x40 R'') False) = Inr ([(0x12f00, READ), (-64, WRITE)], t') \<and> tr_eof t'"
  using dramtrace_roundtrip [of "[(0x12f00, READ), (-64, WRITE)]" "''0x40 R''" 3 False]
  by (simp add: dram_request_def newline_def)

text \<open>
  C36.  The values that \<open>get_zsim_request\<close> hands to the processor are well typed for every line, however
  malformed: either the address is \<open>-1\<close> and the rest is unchanged, or the number of instructions is an
  \<open>unsigned\<close>, the address a \<open>long\<close>, the processor at most 512 and the type one of the three request types or,
  for a line of type \<open>P\<close>, the type of the line before.  No exception leaves the function.
\<close>

theorem zsim_well_typed:
  assumes "get_zsim_request t z = (True, z', t')"
  shows "z' = z\<lparr>zr_addr := -1\<rparr> \<or>
    0 \<le> zr_bubble_cnt z' \<and> zr_bubble_cnt z' < 2 ^ 32 \<and> - (2 ^ 63) \<le> zr_addr z' \<and> zr_addr z' < 2 ^ 63
      \<and> 0 \<le> zr_cpu_id z' \<and> zr_cpu_id z' \<le> 512 \<and> zr_type z' \<in> {READ, WRITE, INSTRUCTION, zr_type z}"
proof -
  obtain l u where "getline [] t = (l, u)" by force
  with assms have "z' = z\<lparr>zr_addr := -1\<rparr> \<or> zsim_line (split_str l) z = Inr z'"
    by (auto simp: get_zsim_request_def split: if_splits sum.splits)
  then show ?thesis using zsim_line_typed by blast
qed

definition sample_zsim :: zsim_req where
  "sample_zsim = \<lparr>zr_bubble_cnt = 0, zr_addr = 0, zr_type = READ, zr_cpu_id = 0\<rparr>"

theorem zsim_well_typed_witness:
  "\<exists>z' t'. get_zsim_request (init_trace ''0 7 12 S 4096'' False) sample_zsim = (True, z', t')
     \<and> 0 \<le> zr_cpu_id z' \<and> zr_cpu_id z' \<le> 512"
proof -
  have "fst (get_zsim_request (init_trace ''0 7 12 S 4096'' False) sample_zsim)" by code_simp
  then obtain z' t' where z: "get_zsim_request (init_trace ''0 7 12 S 4096'' False) sample_zsim = (True, z', t')"
    by (metis (full_types) prod.collapse)
  have "0 \<le> zr_cpu_id z' \<and> zr_cpu_id z' \<le> 512" using zsim_well_typed [OF z] by (auto simp: sample_zsim_def)
  with z show ?thesis by blast
qed

text \<open>
  C34.  A line of the documented zsim format (thread, processor, instruction count, type, address), with or
  without the size or other words at its end, gives the processor the instruction count, the address and
  the processor that were written, for any thread and count of 31 bits, processor up to 512 and address of
  63 bits.  Types \<open>L\<close>, \<open>S\<close> and \<open>I\<close> are a read, a write and an instruction request; a line of type \<open>P\<close>
  (a prefetch) keeps the type of the request before it.  The words after the address are ignored.
\<close>

theorem zsim_line_parsed:
  assumes "ty \<in> {''L'', ''S'', ''P'', ''I''}" "thr < 2 ^ 31" "cpu \<le> 512" "cyc < 2 ^ 31" "adr < 2 ^ 63"
    and "\<forall>w\<in>set rest. word w"
    and "tr_rest t = unwords (zsim_words thr cpu cyc ty adr rest) @ newline # s" "\<not> tr_eof t" "\<not> tr_fail t"
  shows "get_zsim_request t z = (True, z\<lparr>zr_bubble_cnt := int cyc, zr_addr := int adr,
    zr_type := (if ty = ''L'' then READ else if ty = ''S'' then WRITE else if ty = ''I'' then INSTRUCTION else zr_type z),
    zr_cpu_id := int cpu\<rparr>, t\<lparr>tr_rest := s\<rparr>)"
proof -
  have ty: "is_type_word ty" using assms(1) by (auto simp: is_type_word_def)
  have "word ty" using assms(1) by (auto simp: word_def is_space_def newline_def)
  then have w: "\<forall>w\<in>set (zsim_words thr cpu cyc ty adr rest). word w"
    using assms(6) by (auto simp: zsim_words_def word_digits)
  have "unwords (zsim_words thr cpu cyc ty adr rest) \<noteq> []" by (simp add: zsim_words_def)
  then show ?thesis
    using getline_line [OF unwords_no_newline [OF w] assms(7-9)] split_unwords [OF w] zsim_words_line [OF ty assms(2-5)] assms(9)
    by (simp add: get_zsim_request_def)
qed

theorem zsim_line_parsed_witness:
  "let z = fst (snd (get_zsim_request (init_trace (unwords (zsim_words 0 7 12 ''P'' 4096 [''64'']) @ [newline]) False) sample_zsim))
   in zr_addr z = 4096 \<and> zr_cpu_id z = 7 \<and> zr_bubble_cnt z = 12 \<and> zr_type z = zr_type sample_zsim"
  using zsim_line_parsed [of "''P''" 0 7 12 4096 "[''64'']"
      "init_trace (unwords (zsim_words 0 7 12 ''P'' 4096 [''64'']) @ [newline]) False" "[]" sample_zsim]
  by (simp add: init_trace_def word_def is_space_def newline_def)

end
