(* ===== verification/Cache_Model.thy ===== *)
theory Cache_Model
  imports Ram_Request Ram_Bits
begin

text \<open>
  The caches of the processor (\<open>ramulator/src/Cache.h\<close>, \<open>Cache.cpp\<close>): set-associative write-back
  caches with least-recently-used replacement and miss status holding registers (MSHR), and the
  cache system with its lists of waiting misses and finished hits.

  The caches of one system are the elements of a list and point to each other by index, a null
  pointer is \<open>None\<close>.  An iterator into a \<open>std::list<Line>\<close> stays valid while its element is in the
  list, so every line has an identity (\<open>ln_id\<close>) and an iterator is the set and the identity; using one
  whose line was erased is the error \<open>NoEntry\<close>.  The callback of a request is not stored: \<open>tick\<close> returns
  the requests it calls back.
\<close>

unbundle bit_operations_syntax

section \<open>State\<close>

datatype cache_level = L1 | L2 | L3 | LMAX

fun level_num :: "cache_level \<Rightarrow> nat" where
  "level_num L1 = 0"
| "level_num L2 = 1"
| "level_num L3 = 2"
| "level_num LMAX = 3"

record line =
  ln_id :: int
  ln_addr :: int
  ln_tag :: int
  ln_lock :: bool
  ln_dirty :: bool

record cache_stats =
  cst_read_miss :: int
  cst_write_miss :: int
  cst_total_miss :: int
  cst_eviction :: int
  cst_read_access :: int
  cst_write_access :: int
  cst_total_access :: int
  cst_mshr_hit :: int
  cst_mshr_unavailable :: int
  cst_set_unavailable :: int

record cache =
  ca_level :: cache_level
  ca_latency :: "int list"
  ca_latency_each :: "int list"
  ca_higher_cache :: "nat list"
  ca_lower_cache :: "nat option"
  ca_is_first_level :: bool
  ca_is_last_level :: bool
  ca_assoc :: int
  ca_block_num :: int
  ca_index_mask :: int
  ca_block_size :: int
  ca_index_offset :: nat
  ca_tag_offset :: nat
  ca_mshr_entry_num :: int
  ca_mshr_entries :: "(int \<times> int \<times> int) list"
  ca_cache_lines :: "int \<rightharpoonup> line list"
  ca_stats :: cache_stats

record cache_system =
  cs_caches :: "cache list"
  cs_wait_list :: "(int \<times> request) list"
  cs_hit_list :: "(int \<times> request) list"
  cs_clk :: int
  cs_first_level :: cache_level
  cs_last_level :: cache_level
  cs_next_id :: int

section \<open>Construction\<close>

text \<open>
  The constructor of \<open>CacheSystem\<close> first derives the two levels from the configuration and then sets
  both to \<open>L1\<close>.  The field \<open>first_level\<close> is not initialised before; \<open>garbage\<close> is its first value.
\<close>

definition new_cache_system :: "cache_level \<Rightarrow> bool \<Rightarrow> bool \<Rightarrow> cache_system" where
  "new_cache_system garbage core_caches l3_cache =
     (let s = \<lparr>cs_caches = [], cs_wait_list = [], cs_hit_list = [], cs_clk = 0, cs_first_level = garbage,
               cs_last_level = garbage, cs_next_id = 0\<rparr>;
          s1 = (if core_caches then s\<lparr>cs_first_level := L1\<rparr>
                else if l3_cache then s\<lparr>cs_first_level := L3\<rparr>
                else s\<lparr>cs_last_level := LMAX\<rparr>);
          s2 = (if l3_cache then s1\<lparr>cs_last_level := L3\<rparr>
                else if core_caches then s1\<lparr>cs_last_level := L2\<rparr>
                else s1\<lparr>cs_last_level := LMAX\<rparr>)
      in s2\<lparr>cs_first_level := L1, cs_last_level := L1\<rparr>)"

definition zero_cache_stats :: cache_stats where
  "zero_cache_stats =
     \<lparr>cst_read_miss = 0, cst_write_miss = 0, cst_total_miss = 0, cst_eviction = 0, cst_read_access = 0,
      cst_write_access = 0, cst_total_access = 0, cst_mshr_hit = 0, cst_mshr_unavailable = 0,
      cst_set_unavailable = 0\<rparr>"

text \<open>\<open>unsigned\<close> arithmetic of 32 bits; \<open>index_mask\<close> wraps when the cache is smaller than one set.\<close>

definition new_cache :: "int \<Rightarrow> int \<Rightarrow> int \<Rightarrow> int \<Rightarrow> cache_level \<Rightarrow> bool \<Rightarrow> cache_system \<Rightarrow> cache res" where
  "new_cache sz assoc block_size mshr_entry_num level pim s =
     bindR (guardR (sz AND (sz - 1) = 0)) (\<lambda>_.
     bindR (guardR (block_size AND (block_size - 1) = 0)) (\<lambda>_.
     bindR (guardR (assoc AND (assoc - 1) = 0)) (\<lambda>_.
     bindR (guardR (sz \<ge> block_size)) (\<lambda>_.
     bindR (if block_size * assoc = 0 then Inl DivideByZero else Inr ()) (\<lambda>_.
       let block_num = sz div (block_size * assoc) in
       bindR (runR (calc_log2 block_size)) (\<lambda>index_offset.
       bindR (runR (calc_log2 block_num)) (\<lambda>log_num.
         Inr \<lparr>ca_level = level,
              ca_latency = (if pim then [4, 4 + 0, 4 + 0 + 31] else [4, 4 + 12, 4 + 12 + 31]),
              ca_latency_each = (if pim then [4, 0, 31] else [4, 12, 31]),
              ca_higher_cache = [], ca_lower_cache = None,
              ca_is_first_level = (level = cs_first_level s),
              ca_is_last_level = (level = cs_last_level s),
              ca_assoc = assoc, ca_block_num = block_num, ca_index_mask = (block_num - 1) mod 2 ^ 32,
              ca_block_size = block_size, ca_index_offset = index_offset,
              ca_tag_offset = log_num + index_offset, ca_mshr_entry_num = mshr_entry_num,
              ca_mshr_entries = [], ca_cache_lines = Map.empty, ca_stats = zero_cache_stats\<rparr>)))))))"

definition cache_at :: "cache_system \<Rightarrow> nat \<Rightarrow> cache" where
  "cache_at s i = cs_caches s ! i"

definition upd_cache :: "nat \<Rightarrow> (cache \<Rightarrow> cache) \<Rightarrow> cache_system \<Rightarrow> cache_system" where
  "upd_cache i f s = s\<lparr>cs_caches := (cs_caches s)[i := f (cs_caches s ! i)]\<rparr>"

definition upd_stats :: "nat \<Rightarrow> (cache_stats \<Rightarrow> cache_stats) \<Rightarrow> cache_system \<Rightarrow> cache_system" where
  "upd_stats i f = upd_cache i (\<lambda>c. c\<lparr>ca_stats := f (ca_stats c)\<rparr>)"

definition concatlower :: "nat \<Rightarrow> nat \<Rightarrow> cache_system \<Rightarrow> cache_system" where
  "concatlower i lower s =
     upd_cache lower (\<lambda>c. c\<lparr>ca_higher_cache := ca_higher_cache c @ [i]\<rparr>)
       (upd_cache i (\<lambda>c. c\<lparr>ca_lower_cache := Some lower\<rparr>) s)"

definition add_cache :: "cache \<Rightarrow> cache_system \<Rightarrow> cache_system" where
  "add_cache c s = s\<lparr>cs_caches := cs_caches s @ [c]\<rparr>"

section \<open>Addresses\<close>

text \<open>\<open>get_index\<close> returns an \<open>int\<close> of 32 bits.\<close>

definition get_index :: "cache \<Rightarrow> int \<Rightarrow> int" where
  "get_index c adr = signed_take_bit 31 (drop_bit (ca_index_offset c) adr AND ca_index_mask c)"

definition get_tag :: "cache \<Rightarrow> int \<Rightarrow> int" where
  "get_tag c adr = drop_bit (ca_tag_offset c) adr"

definition align :: "cache \<Rightarrow> int \<Rightarrow> int" where
  "align c adr = adr AND NOT (ca_block_size c - 1)"

section \<open>Lines\<close>

text \<open>A set that is not in the map is created empty by \<open>get_lines\<close>.\<close>

definition get_lines :: "cache \<Rightarrow> int \<Rightarrow> line list" where
  "get_lines c adr = (case ca_cache_lines c (get_index c adr) of None \<Rightarrow> [] | Some ls \<Rightarrow> ls)"

definition set_lines :: "int \<Rightarrow> line list \<Rightarrow> cache \<Rightarrow> cache" where
  "set_lines adr ls c = c\<lparr>ca_cache_lines := (ca_cache_lines c)(get_index c adr \<mapsto> ls)\<rparr>"

definition find_line :: "cache \<Rightarrow> int \<Rightarrow> line list \<Rightarrow> line option" where
  "find_line c adr ls = find (\<lambda>l. ln_tag l = get_tag c adr) ls"

definition erase_line :: "int \<Rightarrow> line list \<Rightarrow> line list" where
  "erase_line i ls = filter (\<lambda>l. ln_id l \<noteq> i) ls"

text \<open>The line of the address when it is there and unlocked.\<close>

definition is_hit :: "cache \<Rightarrow> int \<Rightarrow> line list \<Rightarrow> line option" where
  "is_hit c adr ls =
     (case find_line c adr ls of None \<Rightarrow> None | Some l \<Rightarrow> if ln_lock l then None else Some l)"

definition all_sets_locked :: "cache \<Rightarrow> line list \<Rightarrow> bool" where
  "all_sets_locked c ls \<longleftrightarrow> \<not> int (length ls) < ca_assoc c \<and> (\<forall>l\<in>set ls. ln_lock l)"

definition need_eviction :: "cache \<Rightarrow> line list \<Rightarrow> int \<Rightarrow> bool res" where
  "need_eviction c ls adr =
     (if find_line c adr ls \<noteq> None then Inl AssertFailed
      else Inr (\<not> int (length ls) < ca_assoc c))"

definition hit_mshr :: "cache \<Rightarrow> int \<Rightarrow> (int \<times> int \<times> int) option" where
  "hit_mshr c adr = find (\<lambda>(a, p). align c a = align c adr) (ca_mshr_entries c)"

text \<open>Writing a field of the line an iterator points to.\<close>

definition upd_line :: "int \<times> int \<Rightarrow> (line \<Rightarrow> line) \<Rightarrow> cache \<Rightarrow> cache res" where
  "upd_line p f c =
     bindR (findR (ca_cache_lines c (fst p))) (\<lambda>ls.
     bindR (findR (find (\<lambda>l. ln_id l = snd p) ls)) (\<lambda>_.
       Inr (c\<lparr>ca_cache_lines := (ca_cache_lines c)(fst p \<mapsto> map (\<lambda>l. if ln_id l = snd p then f l else l) ls)\<rparr>)))"

text \<open>
  \<open>check_unlock\<close>, \<open>invalidate\<close>, \<open>callback\<close> and \<open>send\<close> call the same function of a higher or lower cache.
  The first argument bounds the depth of these calls; caches of different levels are
  chained at most three deep.
\<close>

definition line_unlocked :: "(nat \<Rightarrow> int \<Rightarrow> bool res) \<Rightarrow> cache \<Rightarrow> line \<Rightarrow> bool res" where
  "line_unlocked hc_check_unlock c l =
     (if ca_is_first_level c then Inr (\<not> ln_lock l)
      else foldR (\<lambda>hc ok. if \<not> ok then Inr ok else hc_check_unlock hc (ln_addr l))
             (ca_higher_cache c) (\<not> ln_lock l))"

primrec check_unlock :: "nat \<Rightarrow> cache_system \<Rightarrow> nat \<Rightarrow> int \<Rightarrow> bool res" where
  "check_unlock 0 s i adr = Inl Diverges"
| "check_unlock (Suc n) s i adr =
     (let c = cache_at s i in
      case ca_cache_lines c (get_index c adr) of
        None \<Rightarrow> Inr True
      | Some ls \<Rightarrow>
          (case find_line c adr ls of
             None \<Rightarrow> Inr True
           | Some l \<Rightarrow> line_unlocked (check_unlock n s) c l))"

fun find_victim :: "nat \<Rightarrow> cache_system \<Rightarrow> cache \<Rightarrow> line list \<Rightarrow> line option res" where
  "find_victim n s c [] = Inr None"
| "find_victim n s c (l # ls) =
     bindR (line_unlocked (check_unlock n s) c l) (\<lambda>ok. if ok then Inr (Some l) else find_victim n s c ls)"

section \<open>Eviction\<close>

text \<open>\<open>Line(addr, tag, lock, dirty)\<close> in a new list element.\<close>

definition mk_line :: "int \<Rightarrow> cache \<Rightarrow> int \<Rightarrow> bool \<Rightarrow> bool \<Rightarrow> line" where
  "mk_line i c adr lock dirty =
     \<lparr>ln_id = i, ln_addr = adr, ln_tag = get_tag c adr, ln_lock = lock, ln_dirty = dirty\<rparr>"

definition evictline :: "nat \<Rightarrow> int \<Rightarrow> bool \<Rightarrow> cache_system \<Rightarrow> cache_system res" where
  "evictline i adr dirty s =
     (let c = cache_at s i in
      case ca_cache_lines c (get_index c adr) of
        None \<Rightarrow> Inl AssertFailed
      | Some ls \<Rightarrow>
          (case find_line c adr ls of
             None \<Rightarrow> Inl AssertFailed
           | Some l \<Rightarrow>
               let ls' = erase_line (ln_id l) (ls @ [mk_line (cs_next_id s) c adr False (dirty \<or> ln_dirty l)])
               in Inr ((upd_cache i (set_lines adr ls') s)\<lparr>cs_next_id := cs_next_id s + 1\<rparr>)))"

text \<open>
  The program reads \<open>line->dirty\<close> after erasing the line; the model reads the value the line had.
\<close>

fun invalidate :: "nat \<Rightarrow> nat \<Rightarrow> int \<Rightarrow> cache_system \<Rightarrow> ((int \<times> bool) \<times> cache_system) res" where
  "invalidate 0 i adr s = Inl Diverges"
| "invalidate (Suc n) i adr s =
     (let c = cache_at s i; ls = get_lines c adr; s1 = upd_cache i (set_lines adr ls) s;
          delay = ca_latency_each c ! level_num (ca_level c)
      in if ls = [] then Inr ((0, False), s1)
         else
           case find_line c adr ls of
             None \<Rightarrow> Inr ((delay, False), s1)
           | Some l \<Rightarrow>
               bindR (guardR (\<not> ln_lock l)) (\<lambda>_.
                 let s2 = upd_cache i (set_lines adr (erase_line (ln_id l) ls)) s1 in
                 if ca_higher_cache c \<noteq> [] then
                   bindR (foldR (\<lambda>hc (max_delay, dirty, t).
                       bindR (invalidate n hc adr t) (\<lambda>((d, dr), t').
                         Inr (max max_delay (delay + (if dr then d * 2 else d)),
                              dirty \<or> ln_dirty l \<or> dr, t')))
                       (ca_higher_cache c) (delay, False, s2))
                     (\<lambda>(max_delay, dirty, t). Inr ((max_delay, dirty), t))
                 else Inr ((delay, ln_dirty l), s2)))"

definition evict :: "nat \<Rightarrow> nat \<Rightarrow> int \<Rightarrow> line \<Rightarrow> cache_system \<Rightarrow> cache_system res" where
  "evict n i adr victim s =
     (let c = cache_at s i;
          s0 = upd_stats i (\<lambda>st. st\<lparr>cst_eviction := cst_eviction st + 1\<rparr>) s
      in bindR (foldR (\<lambda>hc (time, dirty, t).
             bindR (invalidate n hc (ln_addr victim) t) (\<lambda>((d, dr), t').
               Inr (max time (d + (if dr then ca_latency_each c ! level_num (ca_level c) else 0)),
                    dirty \<or> dr \<or> ln_dirty victim, t')))
             (ca_higher_cache c) (0, ln_dirty victim, s0)) (\<lambda>(time, dirty, s1).
         bindR (if \<not> ca_is_last_level c then
                  (case ca_lower_cache c of
                     None \<Rightarrow> Inl AssertFailed
                   | Some j \<Rightarrow> evictline j (ln_addr victim) dirty s1)
                else if dirty then
                  Inr (s1\<lparr>cs_wait_list := cs_wait_list s1 @
                         [(cs_clk s1 + time + ca_latency c ! level_num (ca_level c),
                           mk_request (ln_addr victim) WRITE 0)]\<rparr>)
                else Inr s1) (\<lambda>s2.
           Inr (upd_cache i (\<lambda>c. set_lines adr (erase_line (ln_id victim) (get_lines c adr)) c) s2))))"

text \<open>\<open>None\<close> is the iterator \<open>lines.end()\<close>: no line can be evicted.\<close>

definition allocate_line :: "nat \<Rightarrow> nat \<Rightarrow> int \<Rightarrow> cache_system \<Rightarrow> ((int \<times> int) option \<times> cache_system) res" where
  "allocate_line n i adr s =
     (let c = cache_at s i; ls = get_lines c adr;
          allocate = (\<lambda>s.
            Inr (Some (get_index c adr, cs_next_id s),
                 (upd_cache i (\<lambda>c. set_lines adr (get_lines c adr @ [mk_line (cs_next_id s) c adr True False]) c) s)
                   \<lparr>cs_next_id := cs_next_id s + 1\<rparr>))
      in bindR (need_eviction c ls adr) (\<lambda>need.
           if need then
             bindR (find_victim n s c ls) (\<lambda>victim.
               case victim of
                 None \<Rightarrow> Inr (None, s)
               | Some v \<Rightarrow> bindR (evict n i adr v s) allocate)
           else allocate s))"

section \<open>Requests\<close>

definition count_access :: "request \<Rightarrow> cache_stats \<Rightarrow> cache_stats" where
  "count_access req st =
     (let st1 = st\<lparr>cst_total_access := cst_total_access st + 1\<rparr> in
      if rq_type req = WRITE then st1\<lparr>cst_write_access := cst_write_access st1 + 1\<rparr>
      else st1\<lparr>cst_read_access := cst_read_access st1 + 1\<rparr>)"

definition count_miss :: "request \<Rightarrow> cache_stats \<Rightarrow> cache_stats" where
  "count_miss req st =
     (let st1 = st\<lparr>cst_total_miss := cst_total_miss st + 1\<rparr> in
      if rq_type req = WRITE then st1\<lparr>cst_write_miss := cst_write_miss st1 + 1\<rparr>
      else st1\<lparr>cst_read_miss := cst_read_miss st1 + 1\<rparr>)"

definition send_hit :: "nat \<Rightarrow> request \<Rightarrow> line \<Rightarrow> cache_system \<Rightarrow> cache_system" where
  "send_hit i req l s =
     (let c = cache_at s i; adr = rq_addr req;
          ls' = erase_line (ln_id l) (get_lines c adr
                  @ [mk_line (cs_next_id s) c adr False (ln_dirty l \<or> rq_type req = WRITE)])
      in (upd_cache i (set_lines adr ls') s)
           \<lparr>cs_next_id := cs_next_id s + 1,
            cs_hit_list := cs_hit_list s @ [(cs_clk s + ca_latency c ! level_num (ca_level c), req)]\<rparr>)"

text \<open>
  The part of \<open>send\<close> after a miss was counted: the request goes on as a \<open>READ\<close>, joins an MSHR entry
  or allocates a line and one.  \<open>lower_send\<close> is \<open>send\<close> of the lower cache.
\<close>

definition send_mshr ::
  "(nat \<Rightarrow> request \<Rightarrow> cache_system \<Rightarrow> (bool \<times> cache_system) res) \<Rightarrow> nat \<Rightarrow> nat \<Rightarrow> request \<Rightarrow> cache_system
    \<Rightarrow> (bool \<times> cache_system) res" where
  "send_mshr lower_send n i req0 s =
     (let c = cache_at s i; adr = rq_addr req0;
          dirty = (rq_type req0 = WRITE); req = req0\<lparr>rq_type := READ\<rparr>
      in case hit_mshr c adr of
           Some (a, p) \<Rightarrow>
             bindR (upd_line p (\<lambda>l. l\<lparr>ln_dirty := dirty \<or> ln_dirty l\<rparr>) c) (\<lambda>c'.
               Inr (True, upd_cache i (\<lambda>_. c')
                 (upd_stats i (\<lambda>st. st\<lparr>cst_mshr_hit := cst_mshr_hit st + 1\<rparr>) s)))
         | None \<Rightarrow>
             if int (length (ca_mshr_entries c)) = ca_mshr_entry_num c then
               Inr (False, upd_stats i (\<lambda>st. st\<lparr>cst_mshr_unavailable := cst_mshr_unavailable st + 1\<rparr>) s)
             else if all_sets_locked c (get_lines c adr) then
               Inr (False, upd_stats i (\<lambda>st. st\<lparr>cst_set_unavailable := cst_set_unavailable st + 1\<rparr>) s)
             else
               bindR (allocate_line n i adr s) (\<lambda>(newline, s1).
                 case newline of
                   None \<Rightarrow> Inr (False, s1)
                 | Some p \<Rightarrow>
                     bindR (upd_line p (\<lambda>l. l\<lparr>ln_dirty := dirty\<rparr>) (cache_at s1 i)) (\<lambda>c1.
                       let s2 = upd_cache i (\<lambda>_. c1\<lparr>ca_mshr_entries := ca_mshr_entries c1 @ [(adr, p)]\<rparr>) s1
                       in if \<not> ca_is_last_level c then
                            (case ca_lower_cache c of
                               None \<Rightarrow> Inl NullPointer
                             | Some j \<Rightarrow> bindR (lower_send j req s2) (\<lambda>(_, s3). Inr (True, s3)))
                          else
                            Inr (True, s2\<lparr>cs_wait_list := cs_wait_list s2 @
                              [(cs_clk s2 + ca_latency c ! level_num (ca_level c), req)]\<rparr>))))"

definition send_miss ::
  "(nat \<Rightarrow> request \<Rightarrow> cache_system \<Rightarrow> (bool \<times> cache_system) res) \<Rightarrow> nat \<Rightarrow> nat \<Rightarrow> request \<Rightarrow> cache_system
    \<Rightarrow> (bool \<times> cache_system) res" where
  "send_miss lower_send n i req s = send_mshr lower_send n i req (upd_stats i (count_miss req) s)"

primrec cache_send :: "nat \<Rightarrow> nat \<Rightarrow> request \<Rightarrow> cache_system \<Rightarrow> (bool \<times> cache_system) res" where
  "cache_send 0 i req s = Inl Diverges"
| "cache_send (Suc n) i req s =
     bindR (guardR (rq_type req = WRITE \<or> rq_type req = READ)) (\<lambda>_.
       let adr = rq_addr req;
           s1 = upd_cache i (\<lambda>c. set_lines adr (get_lines c adr) c) (upd_stats i (count_access req) s);
           c = cache_at s1 i
       in case is_hit c adr (get_lines c adr) of
            Some l \<Rightarrow> Inr (True, send_hit i req l s1)
          | None \<Rightarrow> send_miss (cache_send n) n i req s1)"

definition erase_mshr :: "int \<Rightarrow> cache \<Rightarrow> cache res" where
  "erase_mshr adr c =
     (case hit_mshr c adr of
        None \<Rightarrow> Inr c
      | Some (a, p) \<Rightarrow>
          bindR (upd_line p (\<lambda>l. l\<lparr>ln_lock := False\<rparr>) c) (\<lambda>c'.
            Inr (c'\<lparr>ca_mshr_entries := remove1 (a, p) (ca_mshr_entries c')\<rparr>)))"

primrec cache_callback :: "nat \<Rightarrow> request \<Rightarrow> nat \<Rightarrow> cache_system \<Rightarrow> cache_system res" where
  "cache_callback 0 req i s = Inl Diverges"
| "cache_callback (Suc n) req i s =
     bindR (erase_mshr (rq_addr req) (cache_at s i)) (\<lambda>c.
       foldR (cache_callback n req) (ca_higher_cache c) (upd_cache i (\<lambda>_. c) s))"

section \<open>The cache system\<close>

text \<open>
  \<open>tick\<close> offers the waiting requests whose latency has passed to the memory (\<open>send_memory\<close>, with the
  state of the memory) and calls back the finished hits, which it returns in order.
\<close>

fun wait_loop ::
  "('m \<Rightarrow> request \<Rightarrow> (bool \<times> 'm) res) \<Rightarrow> int \<Rightarrow> (int \<times> request) list \<Rightarrow> 'm \<Rightarrow> ((int \<times> request) list \<times> 'm) res" where
  "wait_loop send_memory clk [] m = Inr ([], m)"
| "wait_loop send_memory clk ((t, r) # w) m =
     (if clk \<ge> t then
        bindR (send_memory m r) (\<lambda>(ok, m1).
        bindR (wait_loop send_memory clk w m1) (\<lambda>(w', m2).
          Inr (if ok then w' else (t, r) # w', m2)))
      else Inr ((t, r) # w, m))"

fun hit_loop :: "int \<Rightarrow> (int \<times> request) list \<Rightarrow> (int \<times> request) list \<times> request list" where
  "hit_loop clk [] = ([], [])"
| "hit_loop clk ((t, r) # h) =
     (let (h', done) = hit_loop clk h in if clk \<ge> t then (h', r # done) else ((t, r) # h', done))"

definition cache_tick ::
  "('m \<Rightarrow> request \<Rightarrow> (bool \<times> 'm) res) \<Rightarrow> cache_system \<Rightarrow> 'm \<Rightarrow> (request list \<times> cache_system \<times> 'm) res" where
  "cache_tick send_memory s m =
     (let clk = cs_clk s + 1 in
      bindR (wait_loop send_memory clk (cs_wait_list s) m) (\<lambda>(w, m').
        let hits = hit_loop clk (cs_hit_list s) in
        Inr (snd hits, s\<lparr>cs_clk := clk, cs_wait_list := w, cs_hit_list := fst hits\<rparr>, m')))"

section \<open>The caches of a processor\<close>

text \<open>
  The processor owns the last-level cache (index 0), a core with caches its L2 and L1 cache; a core
  sends its requests to the L1.  The result lists the L2 and the L1 of each core.
\<close>

definition new_core_caches :: "bool \<Rightarrow> nat option \<Rightarrow> cache_system \<Rightarrow> ((nat \<times> nat) \<times> cache_system) res" where
  "new_core_caches pim llc s =
     bindR (new_cache (if pim then 2 ^ 6 else 2 ^ 18) (2 ^ 3) (2 ^ 6) 16 L2 pim s) (\<lambda>c2.
     bindR (new_cache (2 ^ 15) (2 ^ 3) (2 ^ 6) 16 L1 pim s) (\<lambda>c1.
       let l2 = length (cs_caches s); l1 = Suc l2; s1 = add_cache c1 (add_cache c2 s);
           s2 = (case llc of None \<Rightarrow> s1 | Some j \<Rightarrow> concatlower l2 j s1)
       in Inr ((l2, l1), concatlower l1 l2 s2)))"

definition processor_caches ::
  "bool \<Rightarrow> bool \<Rightarrow> bool \<Rightarrow> cache_level \<Rightarrow> nat \<Rightarrow> nat \<Rightarrow> ((nat \<times> nat) list \<times> cache_system) res" where
  "processor_caches pim core_caches l3_cache garbage tracenum number_cores =
     (let s = new_cache_system garbage core_caches l3_cache in
      bindR (new_cache (2 ^ 23) (2 ^ 3) (2 ^ 6) (16 * int tracenum) L3 pim s) (\<lambda>llc.
        foldR (\<lambda>_ (cores, s).
            if core_caches then
              bindR (new_core_caches pim (if l3_cache then Some 0 else None) s) (\<lambda>(p, s').
                Inr (cores @ [p], s'))
            else Inr (cores, s))
          [0..<number_cores] ([], add_cache llc s)))"

text \<open>The caches' part of \<open>Processor::receive\<close>.\<close>

definition receive_caches :: "bool \<Rightarrow> (nat \<times> nat) list \<Rightarrow> request \<Rightarrow> cache_system \<Rightarrow> cache_system res" where
  "receive_caches l3_cache cores req s =
     (if l3_cache then cache_callback 3 req 0 s
      else foldR (\<lambda>(l2, l1). cache_callback 3 req l2) cores s)"

end
