(* ===== verification/DRAM_Tree.thy ===== *)
theory DRAM_Tree
  imports Complex_Main Ram_Request
begin

text \<open>
  The device tree \<open>DRAM<T>\<close> of \<open>ramulator/src/DRAM.h\<close>, generic in the DRAM standard \<open>T\<close>.

  A node is a \<open>dnode\<close> record (its C++ fields) and the list of its children; the standard is a
  \<open>spec\<close> record holding the tables the node constructor copies out of \<open>T\<close> (\<open>prereq\<close>,
  \<open>rowhit\<close>, \<open>rowopen\<close>, \<open>lambda\<close>, \<open>timing\<close>), indexed by level and command.  Levels are the
  integers of \<open>T::Level\<close>; \<open>Command::MAX\<close> as the answer of a prerequisite is \<open>None\<close>; an
  unset table entry is \<open>None\<close>.  The statistics counters of a node are integers (the program
  keeps them in doubles and only ever adds integers to them).
\<close>

record 'c timing_entry =
  te_cmd :: 'c
  te_dist :: nat
  te_val :: int
  te_sibling :: bool

record ('c, 's) dnode =
  dn_level :: nat
  dn_id :: int
  dn_state :: 's
  dn_row_state :: "int \<rightharpoonup> 's"
  dn_cur_clk :: int
  dn_next :: "'c \<Rightarrow> int"
  dn_prev :: "'c \<Rightarrow> int list"
  dn_active_cycles :: int
  dn_refresh_cycles :: int
  dn_busy_cycles :: int
  dn_active_refresh_overlap_cycles :: int
  dn_serving_requests :: int
  dn_average_serving_requests :: rat
  dn_cur_serving_requests :: int
  dn_begin_of_serving :: int
  dn_end_of_serving :: int
  dn_begin_of_cur_reqcnt :: int
  dn_begin_of_refreshing :: int
  dn_end_of_refreshing :: int
  dn_refresh_intervals :: "(int \<times> int) list"

datatype ('c, 's) dram = DRAM (dinfo: "('c, 's) dnode") (dchildren: "('c, 's) dram list")

record ('c, 's) spec =
  sp_scope :: "'c \<Rightarrow> nat"
  sp_start :: "nat \<Rightarrow> 's"
  sp_row_level :: nat
  sp_bank_level :: nat
  sp_level_max :: nat
  sp_count :: "nat \<Rightarrow> int"
  sp_prereq :: "nat \<Rightarrow> 'c \<Rightarrow> (('c, 's) dram \<Rightarrow> 'c \<Rightarrow> int \<Rightarrow> 'c option res) option"
  sp_rowhit :: "nat \<Rightarrow> 'c \<Rightarrow> (('c, 's) dram \<Rightarrow> 'c \<Rightarrow> int \<Rightarrow> bool res) option"
  sp_rowopen :: "nat \<Rightarrow> 'c \<Rightarrow> (('c, 's) dram \<Rightarrow> 'c \<Rightarrow> int \<Rightarrow> bool res) option"
  sp_lambda :: "nat \<Rightarrow> 'c \<Rightarrow> (('c, 's) dram \<Rightarrow> int \<Rightarrow> ('c, 's) dram) option"
  sp_timing :: "nat \<Rightarrow> 'c \<Rightarrow> 'c timing_entry list"
  sp_is_opening :: "'c \<Rightarrow> bool"
  sp_is_accessing :: "'c \<Rightarrow> bool"
  sp_is_closing :: "'c \<Rightarrow> bool"
  sp_is_refreshing :: "'c \<Rightarrow> bool"
  sp_translate :: "req_type \<Rightarrow> 'c"
  sp_PRE :: 'c
  sp_read_latency :: int
  sp_nREFI :: int
  sp_prefetch_size :: int
  sp_channel_width :: int

section \<open>Construction\<close>

text \<open>The length of the history kept for a command: the largest distance in its timing entries.\<close>

definition max_dist :: "'c timing_entry list \<Rightarrow> nat" where
  "max_dist ts = foldl (\<lambda>d t. max d (te_dist t)) 0 ts"

definition init_dnode :: "('c, 's) spec \<Rightarrow> nat \<Rightarrow> int \<Rightarrow> ('c, 's) dnode" where
  "init_dnode sp lv i =
     \<lparr>dn_level = lv, dn_id = i, dn_state = sp_start sp lv, dn_row_state = Map.empty,
      dn_cur_clk = 0, dn_next = (\<lambda>_. -1),
      dn_prev = (\<lambda>c. replicate (max_dist (sp_timing sp lv c)) (-1)),
      dn_active_cycles = 0, dn_refresh_cycles = 0, dn_busy_cycles = 0,
      dn_active_refresh_overlap_cycles = 0, dn_serving_requests = 0,
      dn_average_serving_requests = 0, dn_cur_serving_requests = 0, dn_begin_of_serving = -1,
      dn_end_of_serving = -1, dn_begin_of_cur_reqcnt = -1, dn_begin_of_refreshing = -1,
      dn_end_of_refreshing = -1, dn_refresh_intervals = []\<rparr>"

text \<open>
  The constructor.  The code stops when the child level is \<open>Row\<close>; it is only called on levels
  above \<open>Row\<close>, where \<open>==\<close> and \<open>\<ge>\<close> agree.  A missing or negative child count gives no
  children.
\<close>

function new_dram :: "('c, 's) spec \<Rightarrow> nat \<Rightarrow> int \<Rightarrow> ('c, 's) dram" where
  "new_dram sp lv i =
     DRAM (init_dnode sp lv i)
       (if sp_row_level sp \<le> Suc lv then []
        else map (\<lambda>k. new_dram sp (Suc lv) (int k)) [0..<nat (sp_count sp (Suc lv))])"
  by pat_completeness auto
termination
  by (relation "measure (\<lambda>(sp, lv, i). sp_row_level sp - lv)") auto

declare new_dram.simps [simp del]

definition insert_child :: "('c, 's) dram \<Rightarrow> ('c, 's) dram \<Rightarrow> ('c, 's) dram" where
  "insert_child t child =
     (case t of DRAM n cs \<Rightarrow>
        (case child of DRAM m ds \<Rightarrow> DRAM n (cs @ [DRAM (m\<lparr>dn_id := int (length cs)\<rparr>) ds])))"

section \<open>Queries\<close>

lemma size_nth_child [termination_simp]:
  "i < length cs \<Longrightarrow> size (cs ! i) < Suc (size_list size cs)"
  by (metis less_Suc_eq less_imp_le nth_mem size_list_estimation' order_refl le_imp_less_Suc)

fun decode :: "('c, 's) spec \<Rightarrow> ('c, 's) dram \<Rightarrow> 'c \<Rightarrow> int list \<Rightarrow> 'c res" where
  "decode sp (DRAM n cs) cmd ad =
     bindR (nthR ad (Suc (dn_level n))) (\<lambda>child_id.
     bindR (case sp_prereq sp (dn_level n) cmd of
              None \<Rightarrow> Inr None
            | Some f \<Rightarrow> f (DRAM n cs) cmd child_id) (\<lambda>p.
     case p of
       Some c \<Rightarrow> Inr c
     | None \<Rightarrow>
         if child_id < 0 \<or> cs = [] then Inr cmd
         else if nat child_id < length cs then decode sp (cs ! nat child_id) cmd ad
         else Inl OutOfRange))"

fun check :: "('c, 's) spec \<Rightarrow> ('c, 's) dram \<Rightarrow> 'c \<Rightarrow> int list \<Rightarrow> int \<Rightarrow> bool res" where
  "check sp (DRAM n cs) cmd ad clk =
     (if dn_next n cmd \<noteq> -1 \<and> clk < dn_next n cmd then Inr False
      else bindR (nthR ad (Suc (dn_level n))) (\<lambda>child_id.
        if child_id < 0 \<or> dn_level n = sp_scope sp cmd \<or> cs = [] then Inr True
        else if nat child_id < length cs then check sp (cs ! nat child_id) cmd ad clk
        else Inl OutOfRange))"

fun check_row_hit :: "('c, 's) spec \<Rightarrow> ('c, 's) dram \<Rightarrow> 'c \<Rightarrow> int list \<Rightarrow> bool res" where
  "check_row_hit sp (DRAM n cs) cmd ad =
     bindR (nthR ad (Suc (dn_level n))) (\<lambda>child_id.
     case sp_rowhit sp (dn_level n) cmd of
       Some f \<Rightarrow> f (DRAM n cs) cmd child_id
     | None \<Rightarrow>
         if child_id < 0 \<or> cs = [] then Inr False
         else if nat child_id < length cs then check_row_hit sp (cs ! nat child_id) cmd ad
         else Inl OutOfRange)"

fun check_row_open :: "('c, 's) spec \<Rightarrow> ('c, 's) dram \<Rightarrow> 'c \<Rightarrow> int list \<Rightarrow> bool res" where
  "check_row_open sp (DRAM n cs) cmd ad =
     bindR (nthR ad (Suc (dn_level n))) (\<lambda>child_id.
     case sp_rowopen sp (dn_level n) cmd of
       Some f \<Rightarrow> f (DRAM n cs) cmd child_id
     | None \<Rightarrow>
         if child_id < 0 \<or> cs = [] then Inr False
         else if nat child_id < length cs then check_row_open sp (cs ! nat child_id) cmd ad
         else Inl OutOfRange)"

text \<open>
  The loop of \<open>get_next\<close>: \<open>l\<close> is the loop variable, which counts levels from the level of the
  node the call starts at, while \<open>node\<close> moves down the tree.
\<close>

fun get_next_loop ::
  "('c, 's) spec \<Rightarrow> nat \<Rightarrow> ('c, 's) dram \<Rightarrow> 'c \<Rightarrow> int list \<Rightarrow> int \<Rightarrow> int res" where
  "get_next_loop sp l (DRAM n cs) cmd ad acc =
     (if l < sp_scope sp cmd \<and> cs \<noteq> [] then
        bindR (nthR ad (Suc l)) (\<lambda>a.
          if 0 \<le> a then
            (if nat a < length cs then
               get_next_loop sp (Suc l) (cs ! nat a) cmd ad
                 (max acc (dn_next (dinfo (cs ! nat a)) cmd))
             else Inl OutOfRange)
          else Inr acc)
      else Inr acc)"

definition get_next :: "('c, 's) spec \<Rightarrow> ('c, 's) dram \<Rightarrow> 'c \<Rightarrow> int list \<Rightarrow> int res" where
  "get_next sp t cmd ad =
     get_next_loop sp (dn_level (dinfo t)) t cmd ad
       (max (dn_cur_clk (dinfo t)) (dn_next (dinfo t) cmd))"

section \<open>State transitions\<close>

fun dheight :: "('c, 's) dram \<Rightarrow> nat" where
  "dheight (DRAM n cs) = foldr max (map (\<lambda>c. Suc (dheight c)) cs) 0"

text \<open>
  \<open>update_state\<close> calls the standard's transition on the node and goes on at the addressed child of
  the node as the transition left it.  The recursion is bounded by a fuel argument, because a
  transition is an arbitrary function on trees; the height of the tree is enough whenever the
  transitions keep the shape of the tree, which is a law of the interface \<open>dram_spec\<close> below.
\<close>

fun update_state_fuel ::
  "nat \<Rightarrow> ('c, 's) spec \<Rightarrow> ('c, 's) dram \<Rightarrow> 'c \<Rightarrow> int list \<Rightarrow> ('c, 's) dram res" where
  "update_state_fuel 0 sp t cmd ad = Inl OutOfRange"
| "update_state_fuel (Suc k) sp t cmd ad =
     bindR (nthR ad (Suc (dn_level (dinfo t)))) (\<lambda>child_id.
       let t' = (case sp_lambda sp (dn_level (dinfo t)) cmd of None \<Rightarrow> t | Some f \<Rightarrow> f t child_id) in
       if dn_level (dinfo t') = sp_scope sp cmd \<or> dchildren t' = [] then Inr t'
       else bindR (indexR (dchildren t') child_id) (\<lambda>c.
            bindR (update_state_fuel k sp c cmd ad) (\<lambda>c'.
            Inr (DRAM (dinfo t') ((dchildren t')[nat child_id := c'])))))"

definition update_state ::
  "('c, 's) spec \<Rightarrow> ('c, 's) dram \<Rightarrow> 'c \<Rightarrow> int list \<Rightarrow> ('c, 's) dram res" where
  "update_state sp t cmd ad = update_state_fuel (Suc (dheight t)) sp t cmd ad"

section \<open>Timing\<close>

text \<open>The loop over the timing entries at a node that is only a sibling of a target node.\<close>

fun sibling_entries ::
  "'c timing_entry list \<Rightarrow> int \<Rightarrow> ('c, 's) dnode \<Rightarrow> ('c, 's) dnode res" where
  "sibling_entries [] clk n = Inr n"
| "sibling_entries (t # ts) clk n =
     (if \<not> te_sibling t then sibling_entries ts clk n
      else bindR (guardR (te_dist t = 1)) (\<lambda>_.
        sibling_entries ts clk
          (n\<lparr>dn_next := (dn_next n)(te_cmd t := max (dn_next n (te_cmd t)) (clk + te_val t))\<rparr>)))"

text \<open>The refresh statistics updated inside the loop over the entries of a target node.\<close>

definition note_refresh ::
  "('c, 's) spec \<Rightarrow> 'c \<Rightarrow> 'c timing_entry \<Rightarrow> int \<Rightarrow> int \<Rightarrow> ('c, 's) dnode \<Rightarrow> ('c, 's) dnode res"
where
  "note_refresh sp cmd t past clk n =
     (if sp_is_refreshing sp cmd \<and> sp_is_opening sp (te_cmd t) then
        bindR (guardR (past = clk)) (\<lambda>_.
          let e = max (dn_end_of_refreshing n) (dn_next n (te_cmd t));
              n' = n\<lparr>dn_begin_of_refreshing := clk, dn_end_of_refreshing := e,
                     dn_refresh_cycles := dn_refresh_cycles n + (e - clk)\<rparr>
          in Inr (if 0 < dn_cur_serving_requests n'
                  then n'\<lparr>dn_refresh_intervals := dn_refresh_intervals n' @ [(clk, e)]\<rparr>
                  else n'))
      else Inr n)"

fun target_entries ::
  "('c, 's) spec \<Rightarrow> 'c \<Rightarrow> 'c timing_entry list \<Rightarrow> int \<Rightarrow> ('c, 's) dnode \<Rightarrow> ('c, 's) dnode res"
where
  "target_entries sp cmd [] clk n = Inr n"
| "target_entries sp cmd (t # ts) clk n =
     (if te_sibling t then target_entries sp cmd ts clk n
      else bindR (if 0 < te_dist t then nthR (dn_prev n cmd) (te_dist t - 1) else Inl OutOfRange)
        (\<lambda>past.
          if past < 0 then target_entries sp cmd ts clk n
          else bindR
            (note_refresh sp cmd t past clk
              (n\<lparr>dn_next := (dn_next n)(te_cmd t := max (dn_next n (te_cmd t)) (past + te_val t))\<rparr>))
            (\<lambda>n'. target_entries sp cmd ts clk n')))"

definition push_prev :: "'c \<Rightarrow> int \<Rightarrow> ('c, 's) dnode \<Rightarrow> ('c, 's) dnode" where
  "push_prev cmd clk n =
     (if dn_prev n cmd = [] then n
      else n\<lparr>dn_prev := (dn_prev n)(cmd := clk # butlast (dn_prev n cmd))\<rparr>)"

fun update_timing ::
  "('c, 's) spec \<Rightarrow> ('c, 's) dram \<Rightarrow> 'c \<Rightarrow> int list \<Rightarrow> int \<Rightarrow> ('c, 's) dram res" where
  "update_timing sp (DRAM n cs) cmd ad clk =
     bindR (nthR ad (dn_level n)) (\<lambda>a.
       if dn_id n \<noteq> a then
         bindR (sibling_entries (sp_timing sp (dn_level n) cmd) clk n) (\<lambda>n'. Inr (DRAM n' cs))
       else
         bindR (target_entries sp cmd (sp_timing sp (dn_level n) cmd) clk (push_prev cmd clk n))
           (\<lambda>n'. bindR (mapR (\<lambda>c. update_timing sp c cmd ad clk) cs) (\<lambda>cs'. Inr (DRAM n' cs'))))"

definition update ::
  "('c, 's) spec \<Rightarrow> ('c, 's) dram \<Rightarrow> 'c \<Rightarrow> int list \<Rightarrow> int \<Rightarrow> ('c, 's) dram res" where
  "update sp t cmd ad clk =
     bindR (update_state sp (DRAM ((dinfo t)\<lparr>dn_cur_clk := clk\<rparr>) (dchildren t)) cmd ad)
       (\<lambda>t'. update_timing sp t' cmd ad clk)"

section \<open>Statistics\<close>

definition serve_node :: "int \<Rightarrow> int \<Rightarrow> ('c, 's) dnode \<Rightarrow> ('c, 's) dnode res" where
  "serve_node delta clk n0 =
     (let n1 = (if dn_begin_of_cur_reqcnt n0 \<noteq> -1 \<and> 0 < dn_cur_serving_requests n0 then
                  n0\<lparr>dn_serving_requests := dn_serving_requests n0
                       + (clk - dn_begin_of_cur_reqcnt n0) * dn_cur_serving_requests n0,
                     dn_active_cycles := dn_active_cycles n0 + (clk - dn_begin_of_cur_reqcnt n0)\<rparr>
                else n0);
          n2 = n1\<lparr>dn_begin_of_cur_reqcnt := clk,
                  dn_cur_serving_requests := dn_cur_serving_requests n1 + delta\<rparr>
      in bindR (guardR (0 \<le> dn_cur_serving_requests n2)) (\<lambda>_.
         if delta = 1 \<and> dn_cur_serving_requests n2 = 1 then
           let n3 = n2\<lparr>dn_begin_of_serving := clk\<rparr> in
           Inr (if dn_begin_of_serving n3 < dn_end_of_refreshing n3
                then n3\<lparr>dn_active_refresh_overlap_cycles := dn_active_refresh_overlap_cycles n3
                          + (dn_end_of_refreshing n3 - dn_begin_of_serving n3)\<rparr>
                else n3)
         else if dn_cur_serving_requests n2 = 0 then
           bindR (guardR (dn_begin_of_serving n2 \<noteq> -1)) (\<lambda>_.
           bindR (guardR (delta = -1)) (\<lambda>_.
             let n3 = n2\<lparr>dn_active_cycles := dn_active_cycles n2 + (clk - dn_begin_of_cur_reqcnt n2),
                         dn_end_of_serving := clk\<rparr>
             in Inr (n3\<lparr>dn_active_refresh_overlap_cycles := dn_active_refresh_overlap_cycles n3
                         + (\<Sum>r\<leftarrow>dn_refresh_intervals n3. min clk (snd r) - fst r),
                       dn_refresh_intervals := []\<rparr>)))
         else Inr n2))"

fun update_serving_requests ::
  "('c, 's) spec \<Rightarrow> ('c, 's) dram \<Rightarrow> int list \<Rightarrow> int \<Rightarrow> int \<Rightarrow> ('c, 's) dram res" where
  "update_serving_requests sp (DRAM n cs) ad delta clk =
     bindR (nthR ad (dn_level n)) (\<lambda>a.
     bindR (guardR (dn_id n = a)) (\<lambda>_.
     bindR (guardR (delta = 1 \<or> delta = -1)) (\<lambda>_.
     bindR (serve_node delta clk n) (\<lambda>n'.
     bindR (nthR ad (Suc (dn_level n))) (\<lambda>child_id.
       if child_id < 0 \<or> cs = [] \<or> sp_bank_level sp < dn_level n then Inr (DRAM n' cs)
       else if nat child_id < length cs then
         bindR (update_serving_requests sp (cs ! nat child_id) ad delta clk)
           (\<lambda>c'. Inr (DRAM n' (cs[nat child_id := c'])))
       else Inl OutOfRange)))))"

fun finish_dram :: "('c, 's) dram \<Rightarrow> int \<Rightarrow> ('c, 's) dram" where
  "finish_dram (DRAM n cs) cycles =
     DRAM (n\<lparr>dn_busy_cycles := dn_active_cycles n + dn_refresh_cycles n
                                - dn_active_refresh_overlap_cycles n,
             dn_average_serving_requests := of_int (dn_serving_requests n) / of_int cycles\<rparr>)
       (map (\<lambda>c. finish_dram c cycles) cs)"

end
