(* ===== verification/DRAM_Timing.thy ===== *)
theory DRAM_Timing
  imports DRAM_Tree
begin

text \<open>
  What the timing tables of a standard mean, and that the incremental bookkeeping of
  \<open>DRAM<T>::update_timing\<close> (the arrays \<open>next\<close> and \<open>prev\<close> of each node) implements it.

  The specification looks at the whole history \<open>H\<close> of issued commands (most recent first, each
  with its address and clock).  For a node, named by the path \<open>pre\<close> of identifiers from the root,
  \<open>constraint sp H pre c f\<close> says that some timing entry of the standard forbids command \<open>c\<close> at
  this node before clock \<open>f\<close>: an entry with distance \<open>d\<close> counts from the \<open>d\<close>-th most recent
  command that went through the node, a sibling entry from the most recent one that went to a
  sibling.  The locale \<open>dram_spec\<close> is the interface between the generic tree and a standard.
\<close>

type_synonym 'c history = "('c \<times> int list \<times> int) list"

definition hist :: "'c history \<Rightarrow> int list \<Rightarrow> 'c \<Rightarrow> int list" where
  "hist H pre c =
     map (\<lambda>(c', a, k). k) (filter (\<lambda>(c', a, k). c' = c \<and> take (length pre) a = pre) H)"

definition sib_hist :: "'c history \<Rightarrow> int list \<Rightarrow> 'c \<Rightarrow> int list" where
  "sib_hist H pre c =
     map (\<lambda>(c', a, k). k)
       (filter (\<lambda>(c', a, k). c' = c \<and> length pre \<le> length a
                  \<and> take (length pre - 1) a = butlast pre \<and> a ! (length pre - 1) \<noteq> last pre) H)"

definition entry_deadline :: "'c history \<Rightarrow> int list \<Rightarrow> 'c \<Rightarrow> 'c timing_entry \<Rightarrow> int option" where
  "entry_deadline H pre c0 e =
     (if te_sibling e then
        (case sib_hist H pre c0 of [] \<Rightarrow> None | k # _ \<Rightarrow> Some (k + te_val e))
      else if te_dist e \<le> length (hist H pre c0)
        then Some (hist H pre c0 ! (te_dist e - 1) + te_val e)
      else None)"

definition constraint :: "('c, 's) spec \<Rightarrow> 'c history \<Rightarrow> int list \<Rightarrow> 'c \<Rightarrow> int \<Rightarrow> bool" where
  "constraint sp H pre c f \<longleftrightarrow>
     (\<exists>c0. \<exists>e\<in>set (sp_timing sp (length pre - 1) c0). te_cmd e = c \<and> entry_deadline H pre c0 e = Some f)"

definition hist_ok :: "'c history \<Rightarrow> bool" where
  "hist_ok H \<longleftrightarrow> sorted_wrt (\<lambda>x y. snd (snd y) \<le> snd (snd x)) H \<and> (\<forall>x\<in>set H. 0 \<le> snd (snd x))"

section \<open>The invariant of the tree\<close>

definition node_inv :: "('c, 's) spec \<Rightarrow> 'c history \<Rightarrow> int list \<Rightarrow> ('c, 's) dnode \<Rightarrow> bool" where
  "node_inv sp H pre n \<longleftrightarrow>
     length pre = Suc (dn_level n) \<and> dn_id n = last pre
     \<and> (\<forall>c. dn_prev n c =
           take (max_dist (sp_timing sp (dn_level n) c))
             (hist H pre c @ replicate (max_dist (sp_timing sp (dn_level n) c)) (-1)))
     \<and> (\<forall>c f. constraint sp H pre c f \<longrightarrow> f \<le> dn_next n c)
     \<and> (\<forall>c. dn_next n c = -1 \<or> (\<exists>f. constraint sp H pre c f \<and> dn_next n c \<le> f))"

fun tree_inv :: "('c, 's) spec \<Rightarrow> 'c history \<Rightarrow> int list \<Rightarrow> ('c, 's) dram \<Rightarrow> bool" where
  "tree_inv sp H pre (DRAM n cs) \<longleftrightarrow>
     node_inv sp H pre n
     \<and> length cs = (if sp_row_level sp \<le> Suc (dn_level n) then 0
                    else nat (sp_count sp (Suc (dn_level n))))
     \<and> (\<forall>i<length cs. tree_inv sp H (pre @ [int i]) (cs ! i))"

section \<open>Views of a tree\<close>

text \<open>
  A view keeps some fields of every node.  \<open>tview\<close> is what the timing code reads and writes;
  \<open>node_core\<close> forgets only the two state fields, which are what the transitions of a standard may
  change.
\<close>

datatype 'a rose = Rose 'a "'a rose list"

fun view :: "(('c, 's) dnode \<Rightarrow> 'a) \<Rightarrow> ('c, 's) dram \<Rightarrow> 'a rose" where
  "view g (DRAM n cs) = Rose (g n) (map (view g) cs)"

abbreviation tview :: "('c, 's) dram \<Rightarrow> (nat \<times> int \<times> ('c \<Rightarrow> int) \<times> ('c \<Rightarrow> int list)) rose" where
  "tview \<equiv> view (\<lambda>n. (dn_level n, dn_id n, dn_next n, dn_prev n))"

definition node_core :: "('c, 's) spec \<Rightarrow> ('c, 's) dnode \<Rightarrow> ('c, 's) dnode" where
  "node_core sp n = n\<lparr>dn_state := sp_start sp 0, dn_row_state := Map.empty\<rparr>"

lemma view_children:
  assumes "view g t = view g t'"
  shows "length (dchildren t) = length (dchildren t')" "g (dinfo t) = g (dinfo t')"
    "i < length (dchildren t) \<Longrightarrow> view g (dchildren t ! i) = view g (dchildren t' ! i)"
  using assms by (cases t; cases t'; auto simp: list_eq_iff_nth_eq)+

lemma view_core_eq:
  assumes "view (node_core sp) t = view (node_core sp) t'"
    and "\<And>n s r. g (n\<lparr>dn_state := s, dn_row_state := r\<rparr>) = g n"
  shows "view g t = view g t'"
proof -
  have "view g u = map_rose g (view (node_core sp) u)" for u
    by (induction u) (simp add: node_core_def assms(2))
  with assms(1) show ?thesis by simp
qed

locale dram_spec =
  fixes sp :: "('c, 's) spec"
  assumes lambda_core: "sp_lambda sp lv c = Some f \<Longrightarrow> view (node_core sp) (f t i) = view (node_core sp) t"
    and dist_pos: "e \<in> set (sp_timing sp lv c) \<Longrightarrow> 0 < te_dist e"
    and sibling_dist: "e \<in> set (sp_timing sp lv c) \<Longrightarrow> te_sibling e \<Longrightarrow> te_dist e = 1"
    and refresh_dist: "e \<in> set (sp_timing sp lv c) \<Longrightarrow> \<not> te_sibling e \<Longrightarrow> sp_is_refreshing sp c
                        \<Longrightarrow> sp_is_opening sp (te_cmd e) \<Longrightarrow> te_dist e = 1"
    and row_pos: "0 < sp_row_level sp"
    and count_pos: "0 < lv \<Longrightarrow> lv < sp_row_level sp \<Longrightarrow> 0 < sp_count sp lv"

section \<open>Histories\<close>

lemma hist_Nil [simp]: "hist [] pre c = []" "sib_hist [] pre c = []"
  by (simp_all add: hist_def sib_hist_def)

lemma hist_Cons:
  "hist ((cmd, a, k) # H) pre c =
     (if cmd = c \<and> take (length pre) a = pre then k # hist H pre c else hist H pre c)"
  by (simp add: hist_def)

lemma sib_hist_Cons:
  "sib_hist ((cmd, a, k) # H) pre c =
     (if cmd = c \<and> length pre \<le> length a \<and> take (length pre - 1) a = butlast pre
         \<and> a ! (length pre - 1) \<noteq> last pre
      then k # sib_hist H pre c else sib_hist H pre c)"
  by (simp add: sib_hist_def)

lemma hist_okD:
  assumes "hist_ok ((cmd, a, k) # H)"
  shows "hist_ok H" "0 \<le> k" "x \<in> set (hist H pre c) \<Longrightarrow> x \<le> k \<and> 0 \<le> x"
    "x \<in> set (sib_hist H pre c) \<Longrightarrow> x \<le> k \<and> 0 \<le> x"
  using assms by (auto simp: hist_ok_def hist_def sib_hist_def)

lemma hist_sorted: "hist_ok H \<Longrightarrow> sorted_wrt (\<ge>) (hist H pre c)"
  unfolding hist_ok_def hist_def
  by (auto simp: sorted_wrt_map case_prod_beta intro: sorted_wrt_filter sorted_wrt_mono_rel)

text \<open>One more command only moves the deadline of a timing entry later.\<close>

lemma entry_deadline_mono:
  assumes ok: "hist_ok ((cmd, a, k) # H)" and d: "0 < te_dist e"
    and f: "entry_deadline H pre c0 e = Some f"
  shows "\<exists>f'. entry_deadline ((cmd, a, k) # H) pre c0 e = Some f' \<and> f \<le> f'"
proof (cases "te_sibling e")
  case True
  with f obtain x xs where x: "sib_hist H pre c0 = x # xs" "f = x + te_val e"
    by (auto simp: entry_deadline_def split: list.splits)
  with hist_okD(4) [OF ok, of x pre c0] True show ?thesis
    by (auto simp: entry_deadline_def sib_hist_Cons)
next
  case False
  let ?h = "hist H pre c0"
  from f False have len: "te_dist e \<le> length ?h" and fv: "f = ?h ! (te_dist e - 1) + te_val e"
    by (auto simp: entry_deadline_def split: if_splits)
  have step: "?h ! (te_dist e - 1) \<le> (k # ?h) ! (te_dist e - 1)"
  proof (cases "te_dist e - 1")
    case 0
    from len d have "?h ! 0 \<in> set ?h" by (intro nth_mem) linarith
    with 0 show ?thesis using hist_okD(3) [OF ok, of "?h ! 0" pre c0] by simp
  next
    case (Suc j)
    with len have "Suc j < length ?h" by simp
    with sorted_wrt_nth_less [OF hist_sorted [OF hist_okD(1) [OF ok], of pre c0], of j "Suc j"] Suc
    show ?thesis by simp
  qed
  show ?thesis
    using False len fv step by (auto simp: entry_deadline_def hist_Cons)
qed

lemma constraint_mono:
  assumes "hist_ok ((cmd, a, k) # H)" and "constraint sp H pre c f"
    and "\<forall>c0. \<forall>e\<in>set (sp_timing sp (length pre - 1) c0). 0 < te_dist e"
  shows "\<exists>f'. constraint sp ((cmd, a, k) # H) pre c f' \<and> f \<le> f'"
  using assms entry_deadline_mono [OF assms(1)] unfolding constraint_def by metis

text \<open>A command that does not reach the parent of a node changes none of its deadlines.\<close>

lemma entry_deadline_frame:
  assumes "take (length pre - 1) a \<noteq> butlast pre" and "pre \<noteq> []"
  shows "entry_deadline ((cmd, a, k) # H) pre c0 e = entry_deadline H pre c0 e"
    and "hist ((cmd, a, k) # H) pre c0 = hist H pre c0"
proof -
  have "take (length pre) a \<noteq> pre"
    using assms by (metis butlast_take diff_le_self nat_le_linear take_all take_butlast
        butlast_conv_take take_take min.absorb1)
  then show "hist ((cmd, a, k) # H) pre c0 = hist H pre c0" by (simp add: hist_Cons)
  with assms(1) show "entry_deadline ((cmd, a, k) # H) pre c0 e = entry_deadline H pre c0 e"
    by (simp add: entry_deadline_def sib_hist_Cons)
qed

lemma constraint_frame:
  assumes "take (length pre - 1) a \<noteq> butlast pre" and "pre \<noteq> []"
  shows "constraint sp ((cmd, a, k) # H) pre c f \<longleftrightarrow> constraint sp H pre c f"
  by (simp add: constraint_def entry_deadline_frame [OF assms])

lemma tree_inv_frame:
  assumes "take (length pre - 1) a \<noteq> butlast pre" and "pre \<noteq> []" and "tree_inv sp H pre t"
  shows "tree_inv sp ((cmd, a, k) # H) pre t"
  using assms
proof (induction t arbitrary: pre)
  case (DRAM n cs)
  have off: "take (length pre) a \<noteq> pre"
    using DRAM.prems(1,2) by (metis butlast_conv_take diff_le_self min.absorb1 take_take)
  have "node_inv sp ((cmd, a, k) # H) pre n"
    using DRAM.prems(3)
    by (simp add: node_inv_def entry_deadline_frame(2) [OF DRAM.prems(1,2)]
        constraint_frame [OF DRAM.prems(1,2)])
  moreover have "tree_inv sp ((cmd, a, k) # H) (pre @ [int i]) (cs ! i)" if "i < length cs" for i
    using that DRAM.prems(3) off by (intro DRAM.IH) auto
  ultimately show ?case using DRAM.prems(3) by simp
qed

section \<open>The loops over timing entries\<close>

lemma max_dist_ge: "e \<in> set ts \<Longrightarrow> te_dist e \<le> max_dist ts"
proof -
  have "d \<le> foldl (\<lambda>d t. max d (te_dist t)) d ts
        \<and> (e \<in> set ts \<longrightarrow> te_dist e \<le> foldl (\<lambda>d t. max d (te_dist t)) d ts)" for d
    by (induction ts arbitrary: d) (auto, (metis max.bounded_iff)+)
  then show "e \<in> set ts \<Longrightarrow> te_dist e \<le> max_dist ts" by (simp add: max_dist_def)
qed

lemma sibling_entries_frame [ram_frame]:
  "sibling_entries ts clk n = Inr n' \<Longrightarrow>
   dn_level n' = dn_level n \<and> dn_id n' = dn_id n \<and> dn_prev n' = dn_prev n"
  by (induction ts clk n rule: sibling_entries.induct) (auto split: if_splits)

lemma sibling_entries_mono: "sibling_entries ts clk n = Inr n' \<Longrightarrow> dn_next n c \<le> dn_next n' c"
  by (induction ts clk n rule: sibling_entries.induct) (force split: if_splits)+

lemma sibling_entries_lower:
  "sibling_entries ts clk n = Inr n' \<Longrightarrow> e \<in> set ts \<Longrightarrow> te_sibling e \<Longrightarrow>
   clk + te_val e \<le> dn_next n' (te_cmd e)"
proof (induction ts clk n rule: sibling_entries.induct)
  case (2 t ts clk n)
  then show ?case
    by (auto split: if_splits dest!: sibling_entries_mono [where c = "te_cmd t"])
qed simp

lemma sibling_entries_upper:
  "sibling_entries ts clk n = Inr n' \<Longrightarrow>
   dn_next n' c = dn_next n c
   \<or> (\<exists>e\<in>set ts. te_sibling e \<and> te_cmd e = c \<and> dn_next n' c = clk + te_val e)"
proof (induction ts clk n rule: sibling_entries.induct)
  case (2 t ts clk n)
  then show ?case by (auto split: if_splits simp: max_def)
qed simp

lemma sibling_entries_total:
  "(\<And>e. e \<in> set ts \<Longrightarrow> te_sibling e \<Longrightarrow> te_dist e = 1) \<Longrightarrow> \<exists>n'. sibling_entries ts clk n = Inr n'"
  by (induction ts clk n rule: sibling_entries.induct) simp_all

lemma note_refresh_frame [ram_frame]:
  "note_refresh sp cmd t past clk n = Inr n' \<Longrightarrow>
   dn_level n' = dn_level n \<and> dn_id n' = dn_id n \<and> dn_prev n' = dn_prev n \<and> dn_next n' = dn_next n"
  by (auto simp: note_refresh_def Let_def split: if_splits)

lemma note_refresh_total:
  "(sp_is_refreshing sp cmd \<Longrightarrow> sp_is_opening sp (te_cmd t) \<Longrightarrow> past = clk) \<Longrightarrow>
   \<exists>n'. note_refresh sp cmd t past clk n = Inr n'"
  by (auto simp: note_refresh_def Let_def)

lemma target_entries_step:
  assumes "target_entries sp cmd (t # ts) clk n = Inr n'"
  obtains m where "target_entries sp cmd ts clk m = Inr n'"
    "dn_level m = dn_level n" "dn_id m = dn_id n" "dn_prev m = dn_prev n"
    "dn_next m = (if \<not> te_sibling t \<and> 0 \<le> dn_prev n cmd ! (te_dist t - 1)
       then (dn_next n)(te_cmd t := max (dn_next n (te_cmd t)) (dn_prev n cmd ! (te_dist t - 1) + te_val t))
       else dn_next n)"
  using assms by (auto split: if_splits dest!: note_refresh_frame)

lemma target_entries_frame [ram_frame]:
  "target_entries sp cmd ts clk n = Inr n' \<Longrightarrow>
   dn_level n' = dn_level n \<and> dn_id n' = dn_id n \<and> dn_prev n' = dn_prev n"
proof (induction ts arbitrary: n)
  case (Cons t ts)
  from Cons.prems show ?case by (rule target_entries_step) (auto dest: Cons.IH)
qed simp

lemma target_entries_mono: "target_entries sp cmd ts clk n = Inr n' \<Longrightarrow> dn_next n c \<le> dn_next n' c"
proof (induction ts arbitrary: n)
  case (Cons t ts)
  from Cons.prems show ?case
    by (rule target_entries_step) (drule Cons.IH, auto split: if_splits)
qed simp

lemma target_entries_lower:
  "target_entries sp cmd ts clk n = Inr n' \<Longrightarrow> e \<in> set ts \<Longrightarrow> \<not> te_sibling e \<Longrightarrow>
   0 \<le> dn_prev n cmd ! (te_dist e - 1) \<Longrightarrow>
   dn_prev n cmd ! (te_dist e - 1) + te_val e \<le> dn_next n' (te_cmd e)"
proof (induction ts arbitrary: n)
  case (Cons t ts)
  from Cons.prems(1) obtain m where m: "target_entries sp cmd ts clk m = Inr n'"
    "dn_prev m = dn_prev n"
    "dn_next m = (if \<not> te_sibling t \<and> 0 \<le> dn_prev n cmd ! (te_dist t - 1)
       then (dn_next n)(te_cmd t := max (dn_next n (te_cmd t)) (dn_prev n cmd ! (te_dist t - 1) + te_val t))
       else dn_next n)"
    by (rule target_entries_step)
  show ?case
  proof (cases "e = t")
    case True
    with m(3) Cons.prems(3,4) target_entries_mono [OF m(1), of "te_cmd t"] show ?thesis by simp
  next
    case False
    with Cons.prems Cons.IH [OF m(1)] m(2) show ?thesis by simp
  qed
qed simp

lemma target_entries_upper:
  "target_entries sp cmd ts clk n = Inr n' \<Longrightarrow>
   dn_next n' c = dn_next n c
   \<or> (\<exists>e\<in>set ts. \<not> te_sibling e \<and> te_cmd e = c \<and> 0 \<le> dn_prev n cmd ! (te_dist e - 1)
        \<and> dn_next n' c = dn_prev n cmd ! (te_dist e - 1) + te_val e)"
proof (induction ts arbitrary: n)
  case (Cons t ts)
  from Cons.prems show ?case
    by (rule target_entries_step) (drule Cons.IH, auto simp: max_def split: if_splits)
qed simp

lemma target_entries_total:
  assumes "\<And>e. e \<in> set ts \<Longrightarrow> 0 < te_dist e \<and> te_dist e \<le> length (dn_prev n cmd)"
    and "\<And>e. e \<in> set ts \<Longrightarrow> \<not> te_sibling e \<Longrightarrow> sp_is_refreshing sp cmd
           \<Longrightarrow> sp_is_opening sp (te_cmd e) \<Longrightarrow> te_dist e = 1"
    and "dn_prev n cmd \<noteq> [] \<Longrightarrow> hd (dn_prev n cmd) = clk"
  shows "\<exists>n'. target_entries sp cmd ts clk n = Inr n'"
  using assms
proof (induction ts arbitrary: n)
  case (Cons t ts)
  let ?past = "dn_prev n cmd ! (te_dist t - 1)"
  let ?m = "n\<lparr>dn_next := (dn_next n)(te_cmd t := max (dn_next n (te_cmd t)) (?past + te_val t))\<rparr>"
  have d: "0 < te_dist t" "te_dist t - 1 < length (dn_prev n cmd)"
    using Cons.prems(1) [of t] by auto
  have n: "\<exists>n'. target_entries sp cmd ts clk n = Inr n'" using Cons.prems by (intro Cons.IH) auto
  show ?case
  proof (cases "te_sibling t \<or> ?past < 0")
    case True
    with n d show ?thesis by (auto simp: nthR_lt)
  next
    case False
    with d Cons.prems(2) [of t] Cons.prems(3)
    have "?past = clk" if "sp_is_refreshing sp cmd" "sp_is_opening sp (te_cmd t)"
      using that by (cases "dn_prev n cmd") auto
    then obtain m' where m': "note_refresh sp cmd t ?past clk ?m = Inr m'"
      using note_refresh_total [of sp cmd t ?past clk ?m] by auto
    from note_refresh_frame [OF m'] Cons.prems obtain n' where "target_entries sp cmd ts clk m' = Inr n'"
      using Cons.IH [of m'] by auto
    with False d m' show ?thesis by (simp add: nthR_lt)
  qed
qed simp

section \<open>One command at one node\<close>

lemma take_push:
  "(if take D (h @ replicate D (-1)) = [] then take D (h @ replicate D (-1))
    else clk # butlast (take D (h @ replicate D (-1 :: int))))
   = take D (clk # h @ replicate D (-1))"
proof (cases D)
  case (Suc d)
  then show ?thesis by (simp add: butlast_take del: take_append)
qed simp

lemma prev_nth:
  "d < D \<Longrightarrow> take D (h @ replicate D (-1 :: int)) ! d = (if d < length h then h ! d else -1)"
  by (simp add: nth_append del: take_append)

lemma push_prev_hist:
  assumes "\<And>c. dn_prev n c = take (D c) (hist H pre c @ replicate (D c) (-1))"
    and "take (length pre) ad = pre"
  shows "dn_prev (push_prev cmd clk n) c =
    take (D c) (hist ((cmd, ad, clk) # H) pre c @ replicate (D c) (-1))"
  using assms take_push [of "D cmd" "hist H pre cmd" clk]
  by (auto simp: push_prev_def hist_Cons simp del: take_append)

lemma push_prev_frame [ram_frame]:
  "dn_level (push_prev cmd clk n) = dn_level n" "dn_id (push_prev cmd clk n) = dn_id n"
  "dn_next (push_prev cmd clk n) = dn_next n"
  by (simp_all add: push_prev_def)

text \<open>
  The common step of both loops: new values of \<open>next\<close> that dominate the old ones and the deadlines
  of the command's own entries, and that are each an old value or one of these deadlines.
\<close>

lemma node_inv_step:
  fixes H :: "'c history"
  assumes inv: "node_inv sp H pre n" and ok: "hist_ok ((cmd, ad, clk) # H)"
    and pos: "\<forall>c0. \<forall>e\<in>set (sp_timing sp (dn_level n) c0). 0 < te_dist e"
    and lv: "dn_level n' = dn_level n" "dn_id n' = dn_id n"
    and prev: "\<And>c. dn_prev n' c =
      take (max_dist (sp_timing sp (dn_level n) c))
        (hist ((cmd, ad, clk) # H) pre c @ replicate (max_dist (sp_timing sp (dn_level n) c)) (-1))"
    and mono: "\<And>c. dn_next n c \<le> dn_next n' c"
    and lower: "\<And>e f. e \<in> set (sp_timing sp (dn_level n) cmd) \<Longrightarrow>
      entry_deadline ((cmd, ad, clk) # H) pre cmd e = Some f \<Longrightarrow>
      f \<le> dn_next n' (te_cmd e) \<or> entry_deadline H pre cmd e = Some f"
    and upper: "\<And>c. dn_next n' c = dn_next n c
      \<or> (\<exists>e\<in>set (sp_timing sp (dn_level n) cmd). te_cmd e = c
           \<and> entry_deadline ((cmd, ad, clk) # H) pre cmd e = Some (dn_next n' c))"
  shows "node_inv sp ((cmd, ad, clk) # H) pre n'"
proof -
  let ?H = "(cmd, ad, clk) # H"
  have len: "length pre - 1 = dn_level n" using inv by (simp add: node_inv_def)
  have old: "entry_deadline ?H pre c0 e = entry_deadline H pre c0 e" if "c0 \<noteq> cmd" for c0 e
    using that by (auto simp: entry_deadline_def hist_Cons sib_hist_Cons)
  have "f \<le> dn_next n' c" if "constraint sp ?H pre c f" for c f
  proof -
    from that obtain c0 e where e: "e \<in> set (sp_timing sp (dn_level n) c0)" "te_cmd e = c"
      "entry_deadline ?H pre c0 e = Some f"
      unfolding constraint_def len by blast
    with lower old have "f \<le> dn_next n' c \<or> entry_deadline H pre c0 e = Some f" by metis
    with e(1,2) have "f \<le> dn_next n' c \<or> constraint sp H pre c f" unfolding constraint_def len by blast
    moreover have "constraint sp H pre c f \<longrightarrow> f \<le> dn_next n c" using inv unfolding node_inv_def by blast
    ultimately show ?thesis using mono [of c] by linarith
  qed
  moreover have "dn_next n' c = -1 \<or> (\<exists>f. constraint sp ?H pre c f \<and> dn_next n' c \<le> f)" for c
  proof (cases "dn_next n' c = dn_next n c")
    case True
    have "dn_next n c = -1 \<or> (\<exists>f. constraint sp H pre c f \<and> dn_next n c \<le> f)"
      using inv by (simp add: node_inv_def)
    with True show ?thesis using constraint_mono [OF ok _ pos [folded len]] by (metis order_trans)
  next
    case False
    with upper [of c] have "constraint sp ?H pre c (dn_next n' c)" unfolding constraint_def len by metis
    then show ?thesis by blast
  qed
  ultimately show ?thesis using inv prev unfolding node_inv_def lv by blast
qed

lemma node_inv_push:
  assumes "node_inv sp H pre n" "take (length pre) ad = pre"
  shows "dn_prev (push_prev cmd clk n) c = take (max_dist (sp_timing sp (dn_level n) c))
    (hist ((cmd, ad, clk) # H) pre c @ replicate (max_dist (sp_timing sp (dn_level n) c)) (-1))"
proof (rule push_prev_hist [of n "\<lambda>c. max_dist (sp_timing sp (dn_level n) c)", OF _ assms(2)])
  show "dn_prev n c = take (max_dist (sp_timing sp (dn_level n) c))
    (hist H pre c @ replicate (max_dist (sp_timing sp (dn_level n) c)) (-1))" for c
    using assms(1) unfolding node_inv_def by blast
qed

text \<open>At a target node the deadlines of the command's own entries are what the loop computes.\<close>

lemma target_deadline:
  assumes inv: "node_inv sp H pre n" and ok: "hist_ok ((cmd, ad, clk) # H)"
    and pos: "\<forall>c0. \<forall>e\<in>set (sp_timing sp (dn_level n) c0). 0 < te_dist e"
    and at: "take (length pre) ad = pre"
    and e: "e \<in> set (sp_timing sp (dn_level n) cmd)" "\<not> te_sibling e"
    and p: "p = dn_prev (push_prev cmd clk n) cmd ! (te_dist e - 1)"
  shows "entry_deadline ((cmd, ad, clk) # H) pre cmd e = Some f \<longleftrightarrow> 0 \<le> p \<and> f = p + te_val e"
proof -
  let ?h = "hist ((cmd, ad, clk) # H) pre cmd" and ?D = "max_dist (sp_timing sp (dn_level n) cmd)"
  have "dn_prev (push_prev cmd clk n) cmd = take ?D (?h @ replicate ?D (-1))"
    by (rule node_inv_push [OF inv at])
  moreover obtain d where d: "te_dist e = Suc d" using pos e(1) gr0_implies_Suc by blast
  ultimately have past: "p = (if d < length ?h then ?h ! d else -1)"
    using max_dist_ge [OF e(1)] prev_nth [of d ?D ?h] p by simp
  have "0 \<le> x" if "x \<in> set ?h" for x
    using that hist_okD(2) [OF ok] hist_okD(3) [OF ok, of x pre cmd]
    by (auto simp: hist_Cons split: if_splits)
  then have nonneg: "0 \<le> ?h ! d" if "d < length ?h" using nth_mem [OF that] by blast
  have "entry_deadline ((cmd, ad, clk) # H) pre cmd e
      = (if d < length ?h then Some (?h ! d + te_val e) else None)"
    using e(2) d unfolding entry_deadline_def by simp
  with nonneg show ?thesis unfolding past by (cases "d < length ?h") auto
qed

lemma node_inv_target:
  assumes inv: "node_inv sp H pre n" and ok: "hist_ok ((cmd, ad, clk) # H)"
    and pos: "\<forall>c0. \<forall>e\<in>set (sp_timing sp (dn_level n) c0). 0 < te_dist e"
    and at: "take (length pre) ad = pre"
    and run: "target_entries sp cmd (sp_timing sp (dn_level n) cmd) clk (push_prev cmd clk n) = Inr n'"
  shows "node_inv sp ((cmd, ad, clk) # H) pre n'"
proof -
  let ?H = "(cmd, ad, clk) # H" and ?ts = "sp_timing sp (dn_level n) cmd"
  have ne: "pre \<noteq> []" using inv by (auto simp: node_inv_def)
  then have "last pre = take (length pre) ad ! (length pre - 1)" by (simp add: at last_conv_nth)
  with ne have "ad ! (length pre - 1) = last pre" by simp
  then have sib: "entry_deadline ?H pre cmd e = entry_deadline H pre cmd e" if "te_sibling e" for e
    using that by (simp add: entry_deadline_def sib_hist_Cons)
  note dl = target_deadline [OF inv ok pos at _ _ refl]
  note fr = target_entries_frame [OF run] and pf = push_prev_frame
  show ?thesis
  proof (rule node_inv_step [OF inv ok pos])
    show "f \<le> dn_next n' (te_cmd e) \<or> entry_deadline H pre cmd e = Some f"
      if "e \<in> set ?ts" "entry_deadline ?H pre cmd e = Some f" for e f
    proof (cases "te_sibling e")
      case False
      with that(2) dl [OF that(1) False] target_entries_lower [OF run that(1) False]
      show ?thesis by simp
    qed (use that sib in simp)
    show "dn_next n' c = dn_next n c \<or> (\<exists>e\<in>set ?ts. te_cmd e = c
         \<and> entry_deadline ?H pre cmd e = Some (dn_next n' c))" for c
      using target_entries_upper [OF run, of c] dl [THEN iffD2] unfolding pf by (elim disjE bexE) auto
    show "dn_next n c \<le> dn_next n' c" for c using target_entries_mono [OF run] by (simp add: pf)
    show "dn_prev n' c = take (max_dist (sp_timing sp (dn_level n) c))
      (hist ?H pre c @ replicate (max_dist (sp_timing sp (dn_level n) c)) (-1))" for c
      using node_inv_push [OF inv at] fr by simp
  qed (use fr in \<open>simp_all add: pf\<close>)
qed

lemma node_inv_sibling:
  assumes inv: "node_inv sp H pre n" and ok: "hist_ok ((cmd, ad, clk) # H)"
    and pos: "\<forall>c0. \<forall>e\<in>set (sp_timing sp (dn_level n) c0). 0 < te_dist e"
    and up: "take (length pre - 1) ad = butlast pre" "dn_level n < length ad" "ad ! dn_level n \<noteq> dn_id n"
    and run: "sibling_entries (sp_timing sp (dn_level n) cmd) clk n = Inr n'"
  shows "node_inv sp ((cmd, ad, clk) # H) pre n'"
proof -
  let ?H = "(cmd, ad, clk) # H" and ?ts = "sp_timing sp (dn_level n) cmd"
  have len: "length pre = Suc (dn_level n)" "dn_id n = last pre" using inv by (simp_all add: node_inv_def)
  have off: "take (length pre) ad \<noteq> pre"
    using up(2,3) len by (metis diff_Suc_1 last_conv_nth lessI list.size(3) nat.simps(3) nth_take)
  have dl: "entry_deadline ?H pre cmd e
      = (if te_sibling e then Some (clk + te_val e) else entry_deadline H pre cmd e)" for e
    using up len off by (simp add: entry_deadline_def sib_hist_Cons hist_Cons)
  show ?thesis
  proof (rule node_inv_step [OF inv ok pos])
    show "f \<le> dn_next n' (te_cmd e) \<or> entry_deadline H pre cmd e = Some f"
      if "e \<in> set ?ts" "entry_deadline ?H pre cmd e = Some f" for e f
      using that(2) sibling_entries_lower [OF run that(1)] by (cases "te_sibling e") (auto simp: dl)
    show "dn_next n' c = dn_next n c \<or> (\<exists>e\<in>set ?ts. te_cmd e = c
         \<and> entry_deadline ?H pre cmd e = Some (dn_next n' c))" for c
      using sibling_entries_upper [OF run, of c] by (auto simp: dl)
    show "dn_next n c \<le> dn_next n' c" for c by (rule sibling_entries_mono [OF run])
    show "dn_prev n' c = take (max_dist (sp_timing sp (dn_level n) c))
      (hist ?H pre c @ replicate (max_dist (sp_timing sp (dn_level n) c)) (-1))" for c
      using inv sibling_entries_frame [OF run] off unfolding node_inv_def by (simp add: hist_Cons)
  qed (use sibling_entries_frame [OF run] in simp_all)
qed

section \<open>Trees with the same timing view\<close>

lemma tree_inv_tview: "tview t = tview t' \<Longrightarrow> tree_inv sp H pre t = tree_inv sp H pre t'"
proof (induction t arbitrary: t' pre)
  case (DRAM n cs)
  obtain m ds where t': "t' = DRAM m ds" by (cases t')
  with DRAM.prems have v: "dn_level n = dn_level m" "dn_id n = dn_id m" "dn_next n = dn_next m"
    "dn_prev n = dn_prev m" and l: "length cs = length ds"
    by (auto dest: map_eq_imp_length_eq)
  have "tree_inv sp H q (cs ! i) = tree_inv sp H q (ds ! i)" if "i < length cs" for i q
    using that DRAM.prems t' l by (intro DRAM.IH) (auto simp: list_eq_iff_nth_eq)
  then show ?case using v l by (simp add: t' node_inv_def)
qed

lemma dheight_tview: "tview t = tview t' \<Longrightarrow> dheight t = dheight t'"
proof (induction t arbitrary: t')
  case (DRAM n cs)
  obtain m ds where t': "t' = DRAM m ds" by (cases t')
  have "map (\<lambda>c. Suc (dheight c)) cs = map (\<lambda>c. Suc (dheight c)) ds"
    using DRAM.prems DRAM.IH t' by (auto simp: list_eq_iff_nth_eq)
  then show ?case by (simp add: t')
qed

lemma dheight_child: "i < length cs \<Longrightarrow> dheight (cs ! i) < dheight (DRAM n cs)"
proof -
  have "x \<in> set xs \<Longrightarrow> x \<le> foldr max xs (0::nat)" for x xs by (induction xs) auto
  then show "i < length cs \<Longrightarrow> dheight (cs ! i) < dheight (DRAM n cs)" by (auto simp: Suc_le_eq [symmetric])
qed

section \<open>Every standard that keeps the laws\<close>

text \<open>
  An address that can be used with a command: long enough for every level down to the row, and
  inside the organisation at each level the command goes through.
\<close>

definition addr_ok :: "('c, 's) spec \<Rightarrow> 'c \<Rightarrow> int list \<Rightarrow> bool" where
  "addr_ok sp cmd ad \<longleftrightarrow>
     sp_row_level sp < length ad
     \<and> (\<forall>lv<sp_scope sp cmd. Suc lv < sp_row_level sp \<longrightarrow>
           0 \<le> ad ! Suc lv \<and> ad ! Suc lv < sp_count sp (Suc lv))"

context dram_spec
begin

lemma node_inv_init: "node_inv sp [] (pre @ [i]) (init_dnode sp (length pre) i)"
  using dist_pos
  by (fastforce simp: node_inv_def init_dnode_def constraint_def entry_deadline_def split: if_splits)

lemma tree_inv_new: "length pre = lv \<Longrightarrow> tree_inv sp [] (pre @ [i]) (new_dram sp lv i)"
proof (induction "sp_row_level sp - lv" arbitrary: pre lv i rule: less_induct)
  case less
  have "tree_inv sp [] ((pre @ [i]) @ [int k]) (new_dram sp (Suc lv) (int k))"
    if "\<not> sp_row_level sp \<le> Suc lv" for k
    using less.hyps [of "Suc lv" "pre @ [i]"] that less.prems by simp
  with less.prems node_inv_init [of pre i] show ?case
    by (simp add: new_dram.simps [of sp lv i]) (simp add: init_dnode_def)
qed

lemma update_timing_inv:
  assumes "tree_inv sp H pre t" and "hist_ok ((cmd, ad, clk) # H)"
    and "take (length pre - 1) ad = butlast pre" and "update_timing sp t cmd ad clk = Inr t'"
  shows "tree_inv sp ((cmd, ad, clk) # H) pre t'"
  using assms
proof (induction t arbitrary: pre t')
  case (DRAM n cs)
  let ?H = "(cmd, ad, clk) # H"
  have n: "node_inv sp H pre n" and len: "length pre = Suc (dn_level n)" "dn_id n = last pre"
    using DRAM.prems(1) by (auto simp: node_inv_def)
  have lt: "dn_level n < length ad" using DRAM.prems(4) by auto
  have pos: "\<forall>c0. \<forall>e\<in>set (sp_timing sp (dn_level n) c0). 0 < te_dist e" using dist_pos by blast
  show ?case
  proof (cases "dn_id n = ad ! dn_level n")
    case True
    have at: "take (length pre) ad = pre"
      using DRAM.prems(3) len lt True
      by (metis append_butlast_last_id diff_Suc_1 list.size(3) nat.simps(3) take_Suc_conv_app_nth)
    from DRAM.prems(4) True lt obtain n' cs' where t': "t' = DRAM n' cs'"
      and run: "target_entries sp cmd (sp_timing sp (dn_level n) cmd) clk (push_prev cmd clk n) = Inr n'"
      and cs': "mapR (\<lambda>c. update_timing sp c cmd ad clk) cs = Inr cs'"
      by (auto simp: nthR_lt)
    have "tree_inv sp ?H (pre @ [int i]) (cs' ! i)" if "i < length cs" for i
      using that DRAM.prems(1,2) at mapR_nth [OF cs' that] by (intro DRAM.IH [of "cs ! i"]) auto
    with node_inv_target [OF n DRAM.prems(2) pos at run] DRAM.prems(1) mapR_length [OF cs']
      target_entries_frame [OF run]
    show ?thesis by (simp add: t' push_prev_frame)
  next
    case False
    with DRAM.prems(4) lt obtain n' where t': "t' = DRAM n' cs"
      and run: "sibling_entries (sp_timing sp (dn_level n) cmd) clk n = Inr n'"
      by (auto simp: nthR_lt)
    have off: "take (length pre) ad \<noteq> pre"
      using False len by (metis last_conv_nth diff_Suc_1 lessI list.size(3) nat.simps(3) nth_take)
    have "tree_inv sp ?H (pre @ [int i]) (cs ! i)" if "i < length cs" for i
      using that DRAM.prems(1) off by (intro tree_inv_frame) auto
    with node_inv_sibling [OF n DRAM.prems(2) pos DRAM.prems(3) lt _ run] False DRAM.prems(1)
      sibling_entries_frame [OF run]
    show ?thesis by (simp add: t')
  qed
qed

lemma update_timing_total:
  assumes "tree_inv sp H pre t" and "dn_level (dinfo t) < length ad" "sp_row_level sp \<le> length ad"
  shows "\<exists>t'. update_timing sp t cmd ad clk = Inr t'"
  using assms
proof (induction t arbitrary: pre)
  case (DRAM n cs)
  let ?ts = "sp_timing sp (dn_level n) cmd"
  have lt: "dn_level n < length ad" using DRAM.prems(2) by simp
  have lp: "length (dn_prev n cmd) = max_dist ?ts" using DRAM.prems(1) by (simp add: node_inv_def)
  obtain n1 where n1: "sibling_entries ?ts clk n = Inr n1"
    using sibling_entries_total sibling_dist by blast
  have "0 < te_dist e \<and> te_dist e \<le> length (dn_prev (push_prev cmd clk n) cmd)" if "e \<in> set ?ts" for e
    using dist_pos [OF that] max_dist_ge [OF that] lp by (auto simp: push_prev_def)
  moreover have "dn_prev (push_prev cmd clk n) cmd \<noteq> [] \<longrightarrow> hd (dn_prev (push_prev cmd clk n) cmd) = clk"
    by (simp add: push_prev_def)
  ultimately obtain n2 where n2: "target_entries sp cmd ?ts clk (push_prev cmd clk n) = Inr n2"
    using target_entries_total [of ?ts "push_prev cmd clk n" cmd sp clk] refresh_dist by auto
  have "\<exists>t'. update_timing sp c cmd ad clk = Inr t'" if "c \<in> set cs" for c
  proof -
    from that obtain i where i: "i < length cs" "c = cs ! i" by (metis in_set_conv_nth)
    with DRAM.prems(1) have c: "tree_inv sp H (pre @ [int i]) c" "Suc (dn_level n) < sp_row_level sp"
      by (auto split: if_splits)
    have "dn_level (dinfo c) = length pre" using c(1) by (cases c) (simp add: node_inv_def)
    moreover have "length pre = Suc (dn_level n)" using DRAM.prems(1) by (simp add: node_inv_def)
    ultimately show ?thesis using DRAM.IH [OF that c(1)] c(2) DRAM.prems(3) by simp
  qed
  then obtain cs' where "mapR (\<lambda>c. update_timing sp c cmd ad clk) cs = Inr cs'"
    using mapR_total [of cs "\<lambda>c. update_timing sp c cmd ad clk"] by auto
  with n1 n2 lt show ?case by (simp add: nthR_lt)
qed

end

end
