(* ===== verification/DRAM_Legal.thy ===== *)
theory DRAM_Legal
  imports DRAM_Timing
begin

text \<open>
  From one update to whole runs: \<open>DRAM<T>::update\<close> never fails on addresses inside the
  organisation, keeps the invariant of \<open>DRAM_Timing\<close>, and therefore \<open>DRAM<T>::check\<close> answers
  exactly the declarative question \<open>legal\<close> about the history of issued commands, and
  \<open>DRAM<T>::get_next\<close> is the first clock at which \<open>check\<close> says yes.  All lemmas are proved once for
  every standard that satisfies \<open>dram_spec\<close>.
\<close>

text \<open>The commands issued to a device, oldest first, and the device after them.\<close>

definition issue_all ::
  "('c, 's) spec \<Rightarrow> 'c history \<Rightarrow> ('c, 's) dram \<Rightarrow> ('c, 's) dram res" where
  "issue_all sp xs t = foldR (\<lambda>(cmd, ad, clk) t. update sp t cmd ad clk) xs t"

text \<open>The same with the controller's discipline: a command is issued only when \<open>check\<close> allows it.\<close>

definition issue_checked ::
  "('c, 's) spec \<Rightarrow> 'c history \<Rightarrow> ('c, 's) dram \<Rightarrow> ('c, 's) dram res" where
  "issue_checked sp xs t =
     foldR (\<lambda>(cmd, ad, clk) t. bindR (check sp t cmd ad clk) (\<lambda>ok. bindR (guardR ok) (\<lambda>_.
              update sp t cmd ad clk))) xs t"

text \<open>
  \<open>legal_from sp H cmd ad clk l\<close>: no timing entry of the standard forbids \<open>cmd\<close> at clock \<open>clk\<close>
  at any node on the path of \<open>ad\<close> from level \<open>l\<close> down to the scope of the command (or the last
  level that has nodes, or the level above a wildcard \<open>-1\<close>).
\<close>

definition legal_from ::
  "('c, 's) spec \<Rightarrow> 'c history \<Rightarrow> 'c \<Rightarrow> int list \<Rightarrow> int \<Rightarrow> nat \<Rightarrow> bool" where
  "legal_from sp H cmd ad clk l \<longleftrightarrow>
     (\<forall>lv f. l \<le> lv \<and> lv \<le> sp_scope sp cmd \<and> lv < sp_row_level sp
        \<and> (\<forall>k. l \<le> k \<and> k < lv \<longrightarrow> 0 \<le> ad ! Suc k)
        \<and> constraint sp H (take (Suc lv) ad) cmd f \<longrightarrow> f \<le> clk)"

abbreviation legal :: "('c, 's) spec \<Rightarrow> 'c history \<Rightarrow> 'c \<Rightarrow> int list \<Rightarrow> int \<Rightarrow> bool" where
  "legal sp H cmd ad clk \<equiv> legal_from sp H cmd ad clk 0"

lemma addr_ok_child:
  assumes "addr_ok sp cmd ad" and "lv < sp_scope sp cmd" and "Suc lv < sp_row_level sp"
  shows "0 \<le> ad ! Suc lv" and "nat (ad ! Suc lv) < nat (sp_count sp (Suc lv))"
proof -
  from assms have "0 \<le> ad ! Suc lv \<and> ad ! Suc lv < sp_count sp (Suc lv)" by (simp add: addr_ok_def)
  then show "0 \<le> ad ! Suc lv" and "nat (ad ! Suc lv) < nat (sp_count sp (Suc lv))" by auto
qed

lemma legal_from_step:
  assumes "l \<le> sp_scope sp cmd" and "l < sp_row_level sp"
  shows "legal_from sp H cmd ad clk l \<longleftrightarrow>
    (\<forall>f. constraint sp H (take (Suc l) ad) cmd f \<longrightarrow> f \<le> clk)
    \<and> (l = sp_scope sp cmd \<or> sp_row_level sp \<le> Suc l \<or> ad ! Suc l < 0
       \<or> legal_from sp H cmd ad clk (Suc l))"
    (is "?L \<longleftrightarrow> ?N \<and> ?R")
proof
  assume L: ?L
  note L = L [unfolded legal_from_def, rule_format]
  have ?N using L [of l] assms by auto
  moreover have ?R
  proof (rule ccontr)
    assume no: "\<not> ?R"
    then obtain lv f where lv: "Suc l \<le> lv" "lv \<le> sp_scope sp cmd" "lv < sp_row_level sp"
      "\<forall>k. Suc l \<le> k \<and> k < lv \<longrightarrow> 0 \<le> ad ! Suc k" "constraint sp H (take (Suc lv) ad) cmd f" "\<not> f \<le> clk"
      unfolding legal_from_def by auto
    have "0 \<le> ad ! Suc k" if "l \<le> k \<and> k < lv" for k
      using that lv(4) no by (cases "k = l") auto
    then show False using L [of lv f] lv by auto
  qed
  ultimately show "?N \<and> ?R" by blast
next
  assume R: "?N \<and> ?R"
  show ?L unfolding legal_from_def
  proof (intro allI impI)
    fix lv f
    assume a: "l \<le> lv \<and> lv \<le> sp_scope sp cmd \<and> lv < sp_row_level sp
      \<and> (\<forall>k. l \<le> k \<and> k < lv \<longrightarrow> 0 \<le> ad ! Suc k) \<and> constraint sp H (take (Suc lv) ad) cmd f"
    show "f \<le> clk"
    proof (cases "lv = l")
      case True
      with a R show ?thesis by blast
    next
      case False
      with a have lv: "Suc l \<le> lv" "0 \<le> ad ! Suc l" by auto
      with a R have "legal_from sp H cmd ad clk (Suc l)" by auto
      from this [unfolded legal_from_def, rule_format, of lv f] a lv show ?thesis by auto
    qed
  qed
qed

lemma node_inv_check:
  assumes "node_inv sp H pre n" and "0 \<le> clk"
  shows "(dn_next n cmd \<noteq> -1 \<and> clk < dn_next n cmd) \<longleftrightarrow> \<not> (\<forall>f. constraint sp H pre cmd f \<longrightarrow> f \<le> clk)"
proof -
  have le: "f \<le> dn_next n cmd" if "constraint sp H pre cmd f" for f
    using assms(1) that unfolding node_inv_def by blast
  have ex: "dn_next n cmd = -1 \<or> (\<exists>f. constraint sp H pre cmd f \<and> dn_next n cmd \<le> f)"
    using assms(1) unfolding node_inv_def by blast
  show ?thesis
  proof (cases "dn_next n cmd \<noteq> -1 \<and> clk < dn_next n cmd")
    case True
    with ex obtain f where "constraint sp H pre cmd f" "dn_next n cmd \<le> f" by blast
    with True show ?thesis by force
  next
    case False
    with assms(2) have "dn_next n cmd \<le> clk" by auto
    with False le show ?thesis by force
  qed
qed

context dram_spec
begin

lemma check_legal_from:
  assumes "tree_inv sp H pre t" and "take (length pre) ad = pre" and "0 \<le> clk"
    and "addr_ok sp cmd ad" and "dn_level (dinfo t) \<le> sp_scope sp cmd"
    and "dn_level (dinfo t) < sp_row_level sp"
  shows "check sp t cmd ad clk = Inr (legal_from sp H cmd ad clk (dn_level (dinfo t)))"
  using assms
proof (induction t arbitrary: pre)
  case (DRAM n cs)
  let ?l = "dn_level n"
  have l: "?l \<le> sp_scope sp cmd" "?l < sp_row_level sp" "Suc ?l < length ad"
    using DRAM.prems(4-6) by (auto simp: addr_ok_def)
  have n: "node_inv sp H pre n" and len: "length pre = Suc ?l" using DRAM.prems(1) by (auto simp: node_inv_def)
  have pre: "take (Suc ?l) ad = pre" using DRAM.prems(2) len by simp
  note here = node_inv_check [OF n DRAM.prems(3), of cmd]
  note step = legal_from_step [OF l(1,2), of H ad clk, unfolded pre]
  have cs: "cs = [] \<longleftrightarrow> sp_row_level sp \<le> Suc ?l"
    using DRAM.prems(1) count_pos [of "Suc ?l"] by (auto split: if_splits)
  show ?case
  proof (cases "(dn_next n cmd \<noteq> -1 \<and> clk < dn_next n cmd) \<or> ad ! Suc ?l < 0 \<or> ?l = sp_scope sp cmd \<or> cs = []")
    case True
    with here step cs l(3) show ?thesis by (auto simp: nthR_lt)
  next
    case False
    then have more: "?l < sp_scope sp cmd" "Suc ?l < sp_row_level sp" "0 \<le> ad ! Suc ?l" using l cs by auto
    let ?i = "nat (ad ! Suc ?l)"
    have i: "?i < length cs"
      using DRAM.prems(1,4) more by (auto simp: addr_ok_def)
    have path: "take (Suc (length pre)) ad = pre @ [int ?i]"
      using l(3) len pre more(3) by (simp add: take_Suc_conv_app_nth)
    have c: "tree_inv sp H (pre @ [int ?i]) (cs ! ?i)" using DRAM.prems(1) i by auto
    then have lc: "dn_level (dinfo (cs ! ?i)) = Suc ?l"
      using len by (cases "cs ! ?i") (simp add: node_inv_def)
    have "check sp (cs ! ?i) cmd ad clk = Inr (legal_from sp H cmd ad clk (Suc ?l))"
      using DRAM.IH [OF nth_mem [OF i] c] path DRAM.prems(3,4) lc more by simp
    with False here step cs l(3) i show ?thesis by (auto simp: nthR_lt)
  qed
qed

text \<open>A state transition of the standard keeps every view that ignores the state fields.\<close>

lemma lambda_view:
  assumes "\<And>n s r. g (n\<lparr>dn_state := s, dn_row_state := r\<rparr>) = g n"
  shows "view g (case sp_lambda sp lv cmd of None \<Rightarrow> t | Some f \<Rightarrow> f t i) = view g t"
  using view_core_eq [OF lambda_core assms] by (auto split: option.split)

lemma update_state_fuel_view:
  assumes g: "\<And>n s r. g (n\<lparr>dn_state := s, dn_row_state := r\<rparr>) = g n"
    and "update_state_fuel k sp t cmd ad = Inr t'"
  shows "view g t' = view g t"
  using assms(2)
proof (induction k arbitrary: t t')
  case (Suc k)
  from Suc.prems obtain i where i: "nthR ad (Suc (dn_level (dinfo t))) = Inr i" by auto
  define u where "u = (case sp_lambda sp (dn_level (dinfo t)) cmd of None \<Rightarrow> t | Some f \<Rightarrow> f t i)"
  have u: "view g u = view g t" unfolding u_def by (rule lambda_view [OF g])
  have "view g t' = view g u"
  proof (cases "dn_level (dinfo u) = sp_scope sp cmd \<or> dchildren u = []")
    case True
    with Suc.prems i show ?thesis by (auto simp: u_def [symmetric] Let_def)
  next
    case False
    with Suc.prems i obtain c' where c': "0 \<le> i" "nat i < length (dchildren u)"
      "update_state_fuel k sp (dchildren u ! nat i) cmd ad = Inr c'"
      "t' = DRAM (dinfo u) ((dchildren u)[nat i := c'])"
      by (auto simp: u_def [symmetric] Let_def)
    from Suc.IH [OF c'(3)] c'(2,4) show ?thesis
      by (cases u) (simp add: map_update list_update_same_conv)
  qed
  with u show ?case by simp
qed simp

lemma tree_inv_child:
  assumes "tree_inv sp H pre t" and "i < length (dchildren t)"
  shows "tree_inv sp H (pre @ [int i]) (dchildren t ! i)"
    and "dn_level (dinfo (dchildren t ! i)) = Suc (dn_level (dinfo t))"
    and "length (dchildren t) = nat (sp_count sp (Suc (dn_level (dinfo t))))"
    and "Suc (dn_level (dinfo t)) < sp_row_level sp"
proof -
  obtain n cs where t: "t = DRAM n cs" by (cases t)
  with assms show c: "tree_inv sp H (pre @ [int i]) (dchildren t ! i)"
    and "length (dchildren t) = nat (sp_count sp (Suc (dn_level (dinfo t))))"
    and "Suc (dn_level (dinfo t)) < sp_row_level sp"
    by (auto split: if_splits)
  have "length pre = Suc (dn_level n)" using assms(1) t by (simp add: node_inv_def)
  with c show "dn_level (dinfo (dchildren t ! i)) = Suc (dn_level (dinfo t))"
    by (cases "dchildren t ! i") (simp add: node_inv_def t)
qed

text \<open>The fuel of \<open>update_state\<close> is enough, and every index it uses is inside its array.\<close>

lemma update_state_fuel_total:
  assumes "tree_inv sp H pre t" and "addr_ok sp cmd ad" and "dheight t < k"
    and "dn_level (dinfo t) \<le> sp_scope sp cmd" and "dn_level (dinfo t) < sp_row_level sp"
  shows "\<exists>t'. update_state_fuel k sp t cmd ad = Inr t'"
  using assms
proof (induction k arbitrary: t pre)
  case (Suc k)
  let ?l = "dn_level (dinfo t)" and ?i = "ad ! Suc (dn_level (dinfo t))"
  have lt: "Suc ?l < length ad" using Suc.prems(2,5) by (simp add: addr_ok_def)
  define u where "u = (case sp_lambda sp ?l cmd of None \<Rightarrow> t | Some f \<Rightarrow> f t ?i)"
  have u: "tview u = tview t" unfolding u_def by (rule lambda_view) simp
  then have lu: "dn_level (dinfo u) = ?l" by (cases u; cases t) simp
  have invu: "tree_inv sp H pre u" using tree_inv_tview [OF u] Suc.prems(1) by blast
  show ?case
  proof (cases "?l = sp_scope sp cmd \<or> dchildren u = []")
    case True
    with lt lu show ?thesis by (auto simp: nthR_lt u_def [symmetric] Let_def)
  next
    case False
    then have "0 < length (dchildren u)" by simp
    note c0 = tree_inv_child [OF invu this, unfolded lu]
    have "?l < sp_scope sp cmd" using False Suc.prems(4) by simp
    with c0(3,4) have i: "0 \<le> ?i" "nat ?i < length (dchildren u)"
      using addr_ok_child [OF Suc.prems(2)] by auto
    note c = tree_inv_child [OF invu i(2), unfolded lu]
    have "dheight (dchildren u ! nat ?i) < k"
      using dheight_child [OF i(2), of "dinfo u"] dheight_tview [OF u] Suc.prems(3) by simp
    then obtain c' where "update_state_fuel k sp (dchildren u ! nat ?i) cmd ad = Inr c'"
      using Suc.IH [OF c(1) Suc.prems(2)] c(2,4) False Suc.prems(4) by fastforce
    with i lt lu False show ?thesis by (simp add: nthR_lt indexR_lt u_def [symmetric] Let_def)
  qed
qed simp

lemma update_inv:
  assumes "tree_inv sp H [i] t" and "hist_ok ((cmd, ad, clk) # H)" and "addr_ok sp cmd ad"
  shows "\<exists>t'. update sp t cmd ad clk = Inr t' \<and> tree_inv sp ((cmd, ad, clk) # H) [i] t'"
proof -
  let ?t = "DRAM ((dinfo t)\<lparr>dn_cur_clk := clk\<rparr>) (dchildren t)"
  have v: "tview ?t = tview t" by (cases t) simp
  have inv: "tree_inv sp H [i] ?t" using tree_inv_tview [OF v] assms(1) by blast
  have l0: "dn_level (dinfo t) = 0" using assms(1) by (cases t) (simp add: node_inv_def)
  have ln: "sp_row_level sp < length ad" using assms(3) by (simp add: addr_ok_def)
  obtain t1 where t1: "update_state sp ?t cmd ad = Inr t1"
    unfolding update_state_def
    using update_state_fuel_total [OF inv assms(3), of "Suc (dheight ?t)"] l0 row_pos by auto
  have v1: "tview t1 = tview ?t"
    using t1 unfolding update_state_def by (rule update_state_fuel_view [rotated]) simp
  have inv1: "tree_inv sp H [i] t1" using tree_inv_tview [OF v1] inv by blast
  have "dn_level (dinfo t1) = 0" using v1 l0 by (cases t1) simp
  then obtain t2 where t2: "update_timing sp t1 cmd ad clk = Inr t2"
    using update_timing_total [OF inv1, of ad] ln by force
  have "tree_inv sp ((cmd, ad, clk) # H) [i] t2"
    using update_timing_inv [OF inv1 assms(2) _ t2] by simp
  with t1 t2 show ?thesis by (simp add: update_def)
qed

lemma issue_all_inv:
  assumes "tree_inv sp H [i] t" and "hist_ok (rev xs @ H)"
    and "\<forall>(cmd, ad, clk)\<in>set xs. addr_ok sp cmd ad"
  shows "\<exists>t'. issue_all sp xs t = Inr t' \<and> tree_inv sp (rev xs @ H) [i] t'"
  using assms
proof (induction xs arbitrary: t H)
  case (Cons x xs)
  obtain cmd ad clk where x: "x = (cmd, ad, clk)" by (cases x)
  have ok: "hist_ok ((cmd, ad, clk) # H)"
    using Cons.prems(2) by (auto simp: x hist_ok_def sorted_wrt_append)
  then obtain u where u: "update sp t cmd ad clk = Inr u" "tree_inv sp ((cmd, ad, clk) # H) [i] u"
    using update_inv [OF Cons.prems(1) ok] Cons.prems(3) x by auto
  with Cons.IH [OF u(2)] Cons.prems(2,3) show ?case by (auto simp: x issue_all_def)
qed (simp add: issue_all_def)

lemma issue_all_new:
  assumes "hist_ok (rev xs)" and "\<forall>(cmd, ad, clk)\<in>set xs. addr_ok sp cmd ad"
  shows "\<exists>t. issue_all sp xs (new_dram sp 0 i) = Inr t \<and> tree_inv sp (rev xs) [i] t"
  using issue_all_inv [of "[]" i "new_dram sp 0 i" xs] tree_inv_new [of "[]" 0 i] assms by simp

lemma check_legal:
  assumes "tree_inv sp H [i] t" and "ad ! 0 = i" and "0 \<le> clk" and "addr_ok sp cmd ad"
  shows "check sp t cmd ad clk = Inr (legal sp H cmd ad clk)"
proof -
  have "dn_level (dinfo t) = 0" using assms(1) by (cases t) (simp add: node_inv_def)
  moreover have "take (length [i]) ad = [i]"
    using assms(2,4) by (cases ad) (auto simp: addr_ok_def)
  ultimately show ?thesis using check_legal_from [OF assms(1) _ assms(3,4)] row_pos by simp
qed

lemma get_next_loop_legal:
  assumes "tree_inv sp H pre t" and "take (length pre) ad = pre"
    and "addr_ok sp cmd ad" and "dn_level (dinfo t) = l" and "l \<le> sp_scope sp cmd"
    and "l < sp_row_level sp"
  shows "\<exists>k. get_next_loop sp l t cmd ad acc = Inr k
    \<and> (\<forall>clk\<ge>0. k \<le> clk \<longleftrightarrow> acc \<le> clk \<and>
         (l = sp_scope sp cmd \<or> sp_row_level sp \<le> Suc l \<or> ad ! Suc l < 0
          \<or> legal_from sp H cmd ad clk (Suc l)))"
  using assms
proof (induction t arbitrary: pre l acc)
  case (DRAM n cs)
  have lt: "Suc l < length ad" using DRAM.prems(3,6) by (simp add: addr_ok_def)
  have cs: "cs = [] \<longleftrightarrow> sp_row_level sp \<le> Suc l"
    using DRAM.prems(1,4) count_pos [of "Suc l"] by (auto split: if_splits)
  show ?case
  proof (cases "l = sp_scope sp cmd \<or> sp_row_level sp \<le> Suc l \<or> ad ! Suc l < 0")
    case True
    with DRAM.prems(5) cs lt show ?thesis by (auto simp: nthR_lt)
  next
    case False
    let ?i = "nat (ad ! Suc l)"
    have i: "?i < length (dchildren (DRAM n cs))"
      using DRAM.prems(1,4,5) False addr_ok_child(2) [OF DRAM.prems(3), of l] by auto
    note c = tree_inv_child [OF DRAM.prems(1) i, unfolded dram.sel]
    have len: "length pre = Suc l" using DRAM.prems(1,4) by (simp add: node_inv_def)
    have path: "take (Suc (length pre)) ad = pre @ [int ?i]"
      using lt len DRAM.prems(2) False by (simp add: take_Suc_conv_app_nth)
    obtain m ds where m: "cs ! ?i = DRAM m ds" by (cases "cs ! ?i")
    have nm: "node_inv sp H (take (Suc (Suc l)) ad) m" using c(1) path len m False by simp
    obtain k where k: "get_next_loop sp (Suc l) (cs ! ?i) cmd ad (max acc (dn_next m cmd)) = Inr k"
      "\<forall>clk\<ge>0. k \<le> clk \<longleftrightarrow> max acc (dn_next m cmd) \<le> clk \<and>
         (Suc l = sp_scope sp cmd \<or> sp_row_level sp \<le> Suc (Suc l) \<or> ad ! Suc (Suc l) < 0
          \<or> legal_from sp H cmd ad clk (Suc (Suc l)))"
    proof -
      have "cs ! ?i \<in> set cs" "take (length (pre @ [int ?i])) ad = pre @ [int ?i]"
        "dn_level (dinfo (cs ! ?i)) = Suc l" "Suc l \<le> sp_scope sp cmd" "Suc l < sp_row_level sp"
        using i path c(2) DRAM.prems(4,5) False by simp_all
      then show thesis
        using DRAM.IH [OF _ c(1) _ DRAM.prems(3), of "Suc l" "max acc (dn_next m cmd)"] that by blast
    qed
    have next_le: "dn_next m cmd \<le> clk \<longleftrightarrow> (\<forall>f. constraint sp H (take (Suc (Suc l)) ad) cmd f \<longrightarrow> f \<le> clk)"
      if "0 \<le> clk" for clk
      using node_inv_check [OF nm that, of cmd] that by auto
    have "get_next_loop sp l (DRAM n cs) cmd ad acc = Inr k"
      using k(1) False DRAM.prems(5) cs lt i m by (simp add: nthR_lt)
    moreover have "k \<le> clk \<longleftrightarrow> acc \<le> clk \<and> legal_from sp H cmd ad clk (Suc l)" if "0 \<le> clk" for clk
      using k(2) [rule_format, OF that] next_le [OF that] legal_from_step [of "Suc l" sp cmd H ad clk]
        False DRAM.prems(5) by auto
    ultimately show ?thesis using False by blast
  qed
qed

lemma get_next_legal:
  assumes "tree_inv sp H [i] t" and "ad ! 0 = i" and "addr_ok sp cmd ad"
  shows "\<exists>k. get_next sp t cmd ad = Inr k
    \<and> (\<forall>clk\<ge>0. k \<le> clk \<longleftrightarrow> dn_cur_clk (dinfo t) \<le> clk \<and> legal sp H cmd ad clk)"
proof -
  obtain n cs where t: "t = DRAM n cs" by (cases t)
  have l0: "dn_level n = 0" using assms(1) t by (simp add: node_inv_def)
  have pre: "take (length [i]) ad = [i]" using assms(2,3) by (cases ad) (auto simp: addr_ok_def)
  obtain k where k: "get_next sp t cmd ad = Inr k"
    "\<forall>clk\<ge>0. k \<le> clk \<longleftrightarrow> max (dn_cur_clk n) (dn_next n cmd) \<le> clk \<and>
       (0 = sp_scope sp cmd \<or> sp_row_level sp \<le> Suc 0 \<or> ad ! Suc 0 < 0 \<or> legal_from sp H cmd ad clk (Suc 0))"
    using get_next_loop_legal [OF assms(1) pre assms(3)] l0 row_pos t unfolding get_next_def by fastforce
  have n: "node_inv sp H (take (Suc 0) ad) n" using assms(1) t pre by simp
  have "k \<le> clk \<longleftrightarrow> dn_cur_clk n \<le> clk \<and> legal sp H cmd ad clk" if "0 \<le> clk" for clk
    using k(2) [rule_format, OF that] node_inv_check [OF n that, of cmd] that row_pos
      legal_from_step [of 0 sp cmd H ad clk] by auto
  with k(1) t show ?thesis by auto
qed

lemma issue_checked_legal:
  assumes "tree_inv sp H [i] t" and "hist_ok (rev xs @ H)"
    and "\<forall>(cmd, ad, clk)\<in>set xs. addr_ok sp cmd ad \<and> ad ! 0 = i"
    and "issue_checked sp xs t = Inr t'" and "xs = ys @ (cmd, ad, clk) # zs"
  shows "legal sp (rev ys @ H) cmd ad clk"
  using assms
proof (induction xs arbitrary: t H ys)
  case (Cons x xs)
  obtain c a k where x: "x = (c, a, k)" by (cases x)
  have ok: "hist_ok ((c, a, k) # H)" using Cons.prems(2) by (auto simp: x hist_ok_def sorted_wrt_append)
  have a: "addr_ok sp c a" "a ! 0 = i" using Cons.prems(3) x by auto
  have k: "0 \<le> k" using hist_okD(2) [OF ok] .
  from Cons.prems(4) x obtain u where u: "check sp t c a k = Inr True" "update sp t c a k = Inr u"
    "issue_checked sp xs u = Inr t'" by (auto simp: issue_checked_def)
  show ?case
  proof (cases ys)
    case Nil
    with Cons.prems(5) x u(1) check_legal [OF Cons.prems(1) a(2) k a(1)] show ?thesis by simp
  next
    case (Cons y ys')
    with Cons.prems(5) x have "y = (c, a, k)" "xs = ys' @ (cmd, ad, clk) # zs" by auto
    with Cons.IH [of "(c, a, k) # H" u ys'] update_inv [OF Cons.prems(1) ok a(1)] u Cons.prems(2,3) x Cons
    show ?thesis by auto
  qed
qed simp

text \<open>An entry with distance \<open>d\<close> keeps every \<open>(d+1)\<close>-th command of a legal history that far apart.\<close>

lemma legal_entry:
  assumes "legal sp H cmd ad clk" and "e \<in> set (sp_timing sp lv c0)" and "te_cmd e = cmd"
    and "\<not> te_sibling e" and "lv \<le> sp_scope sp cmd" "lv < sp_row_level sp" "lv < length ad"
    and "\<forall>k<lv. 0 \<le> ad ! Suc k"
    and "te_dist e \<le> length (hist H (take (Suc lv) ad) c0)"
  shows "hist H (take (Suc lv) ad) c0 ! (te_dist e - 1) + te_val e \<le> clk"
proof -
  let ?f = "hist H (take (Suc lv) ad) c0 ! (te_dist e - 1) + te_val e"
  have "length (take (Suc lv) ad) - 1 = lv" using assms(7) by simp
  then have "constraint sp H (take (Suc lv) ad) cmd ?f"
    unfolding constraint_def using assms(2-4,9) by (force simp: entry_deadline_def)
  with assms(1,5,6,8) show ?thesis unfolding legal_from_def by blast
qed

end

end
