(* ===== verification/DRAM_Standard.thy ===== *)
theory DRAM_Standard
  imports DRAM_Legal
begin

text \<open>
  What the DRAM standards of \<open>ramulator/src\<close> share: the command and state enumerations (HMC,
  DDR3, DDR4, GDDR5 and ALDRAM declare the same ones), the way their \<open>init_timing\<close> fills the
  timing table with \<open>push_back\<close>, and the node updates used in their \<open>lambda\<close> tables.
\<close>

datatype command = ACT | PRE | PREA | RD | WR | RDA | WRA | REF | PDE | PDX | SRE | SRX

datatype dstate = Opened | Closed | PowerUp | ActPowerDown | PrePowerDown | SelfRefresh | StMAX

fun is_opening :: "command \<Rightarrow> bool" where
  "is_opening ACT = True"
| "is_opening _ = False"

fun is_accessing :: "command \<Rightarrow> bool" where
  "is_accessing RD = True"
| "is_accessing WR = True"
| "is_accessing RDA = True"
| "is_accessing WRA = True"
| "is_accessing _ = False"

fun is_closing :: "command \<Rightarrow> bool" where
  "is_closing RDA = True"
| "is_closing WRA = True"
| "is_closing PRE = True"
| "is_closing PREA = True"
| "is_closing _ = False"

fun is_refreshing :: "command \<Rightarrow> bool" where
  "is_refreshing REF = True"
| "is_refreshing _ = False"

text \<open>
  The \<open>translate\<close> array has five initialisers for seven request types: the other two elements are
  value-initialised, that is command number 0, \<open>ACT\<close>.
\<close>

fun translate :: "req_type \<Rightarrow> command" where
  "translate READ = RD"
| "translate WRITE = WR"
| "translate REFRESH = REF"
| "translate POWERDOWN = PDE"
| "translate SELFREFRESH = SRE"
| "translate EXTENSION = ACT"
| "translate INSTRUCTION = ACT"

text \<open>An entry of the organisation table; \<open>org_count\<close> is indexed by level.\<close>

record org_entry =
  org_size :: int
  org_dq :: int
  org_count :: "int list"

text \<open>
  The calls \<open>t[int(c)].push_back({c', d, v})\<close> of one level, in program order; \<open>entries_for\<close> is
  the vector that results for one command.  An omitted \<open>sibling\<close> field is \<open>false\<close>.
\<close>

type_synonym 'c pushes = "('c \<times> 'c timing_entry) list"

definition push :: "'c \<Rightarrow> 'c \<Rightarrow> nat \<Rightarrow> int \<Rightarrow> 'c \<times> 'c timing_entry" where
  "push c c' d v = (c, \<lparr>te_cmd = c', te_dist = d, te_val = v, te_sibling = False\<rparr>)"

definition push_sib :: "'c \<Rightarrow> 'c \<Rightarrow> nat \<Rightarrow> int \<Rightarrow> 'c \<times> 'c timing_entry" where
  "push_sib c c' d v = (c, \<lparr>te_cmd = c', te_dist = d, te_val = v, te_sibling = True\<rparr>)"

definition entries_for :: "'c pushes \<Rightarrow> 'c \<Rightarrow> 'c timing_entry list" where
  "entries_for ps c = map snd (filter (\<lambda>p. fst p = c) ps)"

text \<open>Assignments to the fields of a node inside the \<open>lambda\<close> functions.\<close>

definition set_state :: "'s \<Rightarrow> ('c, 's) dram \<Rightarrow> ('c, 's) dram" where
  "set_state s t = DRAM ((dinfo t)\<lparr>dn_state := s\<rparr>) (dchildren t)"

definition open_row :: "int \<Rightarrow> ('c, dstate) dram \<Rightarrow> ('c, dstate) dram" where
  "open_row r t =
     DRAM ((dinfo t)\<lparr>dn_state := Opened, dn_row_state := (dn_row_state (dinfo t))(r \<mapsto> Opened)\<rparr>)
       (dchildren t)"

definition close_bank :: "('c, dstate) dram \<Rightarrow> ('c, dstate) dram" where
  "close_bank t =
     DRAM ((dinfo t)\<lparr>dn_state := Closed, dn_row_state := Map.empty\<rparr>) (dchildren t)"

definition map_children :: "(('c, 's) dram \<Rightarrow> ('c, 's) dram) \<Rightarrow> ('c, 's) dram \<Rightarrow> ('c, 's) dram" where
  "map_children f t = DRAM (dinfo t) (map f (dchildren t))"

definition all_closed :: "('c, dstate) dram list \<Rightarrow> bool" where
  "all_closed cs \<longleftrightarrow> (\<forall>b\<in>set cs. dn_state (dinfo b) = Closed)"

section \<open>The laws of \<open>dram_spec\<close> for tables built this way\<close>

lemma entries_for_set: "e \<in> set (entries_for ps c) \<longleftrightarrow> (c, e) \<in> set ps"
  by (auto simp: entries_for_def image_iff)

lemma push_sel [simp]:
  "fst (push c c' d v) = c" "te_cmd (snd (push c c' d v)) = c'"
  "te_dist (snd (push c c' d v)) = d" "te_val (snd (push c c' d v)) = v"
  "te_sibling (snd (push c c' d v)) = False"
  "fst (push_sib c c' d v) = c" "te_cmd (snd (push_sib c c' d v)) = c'"
  "te_dist (snd (push_sib c c' d v)) = d" "te_val (snd (push_sib c c' d v)) = v"
  "te_sibling (snd (push_sib c c' d v)) = True"
  by (simp_all add: push_def push_sib_def)

text \<open>A table is well formed when every pushed entry is; then so is every vector of it.\<close>

definition push_ok :: "('c \<Rightarrow> bool) \<Rightarrow> ('c \<Rightarrow> bool) \<Rightarrow> 'c \<times> 'c timing_entry \<Rightarrow> bool" where
  "push_ok refr opn p \<longleftrightarrow>
     0 < te_dist (snd p) \<and> (te_sibling (snd p) \<longrightarrow> te_dist (snd p) = 1)
     \<and> (\<not> te_sibling (snd p) \<and> refr (fst p) \<and> opn (te_cmd (snd p)) \<longrightarrow> te_dist (snd p) = 1)"

lemma push_ok_push [simp]:
  "push_ok refr opn (push c c' d v) \<longleftrightarrow> 0 < d \<and> (refr c \<and> opn c' \<longrightarrow> d = 1)"
  "push_ok refr opn (push_sib c c' d v) \<longleftrightarrow> d = 1"
  by (auto simp: push_ok_def)

lemma entries_for_ok:
  assumes "list_all (push_ok refr opn) ps" and "e \<in> set (entries_for ps c)"
  shows "0 < te_dist e" "te_sibling e \<Longrightarrow> te_dist e = 1"
    "\<not> te_sibling e \<Longrightarrow> refr c \<Longrightarrow> opn (te_cmd e) \<Longrightarrow> te_dist e = 1"
  using assms by (auto simp: entries_for_set list_all_iff push_ok_def)

lemma view_core_lambda [simp]:
  "view (node_core sp) (set_state s t) = view (node_core sp) t"
  "view (node_core sp') (open_row r u) = view (node_core sp') u"
  "view (node_core sp') (close_bank u) = view (node_core sp') u"
  by (cases t; cases u; simp add: set_state_def open_row_def close_bank_def node_core_def)+

lemma view_map_children [simp]: "(\<And>c. view g (f c) = view g c) \<Longrightarrow> view g (map_children f t) = view g t"
  by (cases t) (simp add: map_children_def)

section \<open>What the timing code leaves unchanged\<close>

text \<open>
  The timing bookkeeping of a node writes \<open>next\<close>, \<open>prev\<close> and the refresh statistics only, so that
  every view that ignores these fields survives \<open>update_timing\<close>.
\<close>

definition only_timing :: "('c, 's) dnode \<Rightarrow> ('c, 's) dnode \<Rightarrow> bool" where
  "only_timing n n' \<longleftrightarrow>
     n' = n\<lparr>dn_next := dn_next n', dn_prev := dn_prev n', dn_refresh_cycles := dn_refresh_cycles n',
            dn_begin_of_refreshing := dn_begin_of_refreshing n',
            dn_end_of_refreshing := dn_end_of_refreshing n',
            dn_refresh_intervals := dn_refresh_intervals n'\<rparr>"

lemma only_timing_refl [simp]: "only_timing n n"
  by (simp add: only_timing_def)

lemma only_timing_trans: "only_timing n m \<Longrightarrow> only_timing m k \<Longrightarrow> only_timing n k"
  unfolding only_timing_def by (cases n; cases m; cases k) simp

lemma only_timing_next [simp]:
  "only_timing n (n\<lparr>dn_next := x\<rparr>)" "only_timing n (n\<lparr>dn_prev := p\<rparr>)"
  by (simp_all add: only_timing_def)

lemma sibling_entries_only [ram_frame]: "sibling_entries ts clk n = Inr n' \<Longrightarrow> only_timing n n'"
  by (induction ts clk n rule: sibling_entries.induct)
    (auto split: if_splits intro: only_timing_trans [OF only_timing_next(1)])

lemma note_refresh_only [ram_frame]: "note_refresh sp cmd t past clk n = Inr n' \<Longrightarrow> only_timing n n'"
  by (auto simp: note_refresh_def Let_def only_timing_def split: if_splits)

lemma target_entries_only [ram_frame]: "target_entries sp cmd ts clk n = Inr n' \<Longrightarrow> only_timing n n'"
proof (induction ts arbitrary: n)
  case (Cons t ts)
  then obtain m where "target_entries sp cmd ts clk m = Inr n'" "only_timing n m"
    by (auto split: if_splits dest!: note_refresh_only intro: only_timing_trans [OF only_timing_next(1)])
  with Cons.IH [of m] show ?case by (blast intro: only_timing_trans)
qed simp

lemma push_prev_only [ram_frame]: "only_timing n (push_prev cmd clk n)"
  by (simp add: push_prev_def)

lemma update_timing_view [ram_frame]:
  assumes g: "\<And>n n'. only_timing n n' \<Longrightarrow> g n' = g n"
    and "update_timing sp t cmd ad clk = Inr t'"
  shows "view g t' = view g t"
  using assms(2)
proof (induction t arbitrary: t')
  case (DRAM n cs)
  show ?case
  proof (cases "dn_id n = ad ! dn_level n")
    case False
    with DRAM.prems show ?thesis by (auto dest!: sibling_entries_only g)
  next
    case True
    with DRAM.prems obtain n' cs' where t': "t' = DRAM n' cs'"
      and n': "target_entries sp cmd (sp_timing sp (dn_level n) cmd) clk (push_prev cmd clk n) = Inr n'"
      and cs': "mapR (\<lambda>c. update_timing sp c cmd ad clk) cs = Inr cs'"
      by auto
    have "map (view g) cs' = map (view g) cs"
      using mapR_length [OF cs'] mapR_nth [OF cs'] DRAM.IH by (auto simp: list_eq_iff_nth_eq)
    with g [OF target_entries_only [OF n']] g [OF push_prev_only [of n cmd clk]] show ?thesis
      by (simp add: t')
  qed
qed

text \<open>The dual of \<open>tview\<close>: what the state machine of a standard reads and writes.\<close>

abbreviation sview :: "('c, 's) dram \<Rightarrow> (nat \<times> int \<times> 's \<times> (int \<rightharpoonup> 's)) rose" where
  "sview \<equiv> view (\<lambda>n. (dn_level n, dn_id n, dn_state n, dn_row_state n))"

lemma only_timing_state:
  assumes "only_timing n n'"
  shows "(dn_level n', dn_id n', dn_state n', dn_row_state n') = (dn_level n, dn_id n, dn_state n, dn_row_state n)"
  using assms by (cases n; cases n') (simp add: only_timing_def)

lemma update_timing_sview [ram_frame]:
  "update_timing sp t cmd ad clk = Inr t' \<Longrightarrow> sview t' = sview t"
  by (rule update_timing_view) (rule only_timing_state, assumption)

end
