(* ===== verification/DRAM_Bus.thy ===== *)
theory DRAM_Bus
  imports DRAM_Standard
begin

text \<open>
  The data bus.  Every column access occupies the data bus of its channel for a burst that starts a
  fixed latency after the command; nothing in the simulator checks that two bursts do not collide,
  it is the timing tables that must keep them apart.  The interface \<open>data_bus\<close> states what a table
  has to contain for this, and the theorem that then no two bursts overlap is proved once.
\<close>

section \<open>Entries of distance one\<close>

text \<open>
  \<open>separated sp lv sib c0 c d\<close>: at level \<open>lv\<close> the table keeps \<open>c\<close> at least \<open>d\<close> cycles away from an
  earlier \<open>c0\<close> to the same node (or, with \<open>sib\<close>, to a sibling).
\<close>

definition separated :: "('c, 's) spec \<Rightarrow> nat \<Rightarrow> bool \<Rightarrow> 'c \<Rightarrow> 'c \<Rightarrow> int \<Rightarrow> bool" where
  "separated sp lv sib c0 c d \<longleftrightarrow>
     (\<exists>e\<in>set (sp_timing sp lv c0). te_cmd e = c \<and> te_dist e = 1 \<and> te_sibling e = sib \<and> d \<le> te_val e)"

lemma sorted_hd_max:
  fixes ks :: "int list"
  shows "sorted_wrt (\<ge>) ks \<Longrightarrow> k \<in> set ks \<Longrightarrow> k \<le> hd ks"
  by (cases ks) auto

lemma sib_hist_sorted: "hist_ok H \<Longrightarrow> sorted_wrt (\<ge>) (sib_hist H pre c)"
  by (auto simp: hist_ok_def sib_hist_def sorted_wrt_map split_def intro!: sorted_wrt_filter
      elim!: sorted_wrt_mono_rel [rotated])

lemma legal_constraint:
  assumes "legal sp H c ad clk" and "constraint sp H (take (Suc lv) ad) c f"
    and "lv \<le> sp_scope sp c" "lv < sp_row_level sp" and "\<forall>k<lv. 0 \<le> ad ! Suc k"
  shows "f \<le> clk"
  using assms unfolding legal_from_def by blast

lemma legal_gap:
  assumes leg: "legal sp H c ad clk" and ok: "hist_ok H" and mem: "(c0, a, k) \<in> set H"
    and sep: "separated sp lv False c0 c d" and same: "take (Suc lv) a = take (Suc lv) ad"
    and lv: "lv \<le> sp_scope sp c" "lv < sp_row_level sp" "lv < length ad" and pos: "\<forall>k<lv. 0 \<le> ad ! Suc k"
  shows "k + d \<le> clk"
proof -
  let ?h = "hist H (take (Suc lv) ad) c0"
  obtain e where e: "e \<in> set (sp_timing sp lv c0)" "te_cmd e = c" "te_dist e = 1" "\<not> te_sibling e" "d \<le> te_val e"
    using sep by (auto simp: separated_def)
  have len: "length (take (Suc lv) ad) = Suc lv" using lv(3) by simp
  have k: "k \<in> set ?h" using mem same len by (force simp: hist_def)
  then have ne: "?h \<noteq> []" by auto
  have "k \<le> hd ?h" by (rule sorted_hd_max [OF hist_sorted [OF ok] k])
  moreover have "constraint sp H (take (Suc lv) ad) c (hd ?h + te_val e)"
    unfolding constraint_def using e ne len
    by (intro exI [of _ c0] bexI [of _ e]) (auto simp: entry_deadline_def hd_conv_nth Suc_le_eq)
  then have "hd ?h + te_val e \<le> clk" by (rule legal_constraint [OF leg _ lv(1,2) pos])
  ultimately show ?thesis using e(5) by linarith
qed

lemma legal_sib_gap:
  assumes leg: "legal sp H c ad clk" and ok: "hist_ok H" and mem: "(c0, a, k) \<in> set H"
    and sep: "separated sp lv True c0 c d" and same: "take lv a = take lv ad" "a ! lv \<noteq> ad ! lv" "lv < length a"
    and lv: "lv \<le> sp_scope sp c" "lv < sp_row_level sp" "lv < length ad" and pos: "\<forall>k<lv. 0 \<le> ad ! Suc k"
  shows "k + d \<le> clk"
proof -
  let ?p = "take (Suc lv) ad"
  let ?h = "sib_hist H ?p c0"
  obtain e where e: "e \<in> set (sp_timing sp lv c0)" "te_cmd e = c" "te_sibling e" "d \<le> te_val e"
    using sep by (auto simp: separated_def)
  have p: "length ?p = Suc lv" "butlast ?p = take lv ad" "last ?p = ad ! lv"
    using lv(3) by (simp_all add: take_Suc_conv_app_nth)
  have k: "k \<in> set ?h" using mem same p by (force simp: sib_hist_def)
  then have ne: "?h \<noteq> []" by auto
  have "k \<le> hd ?h" by (rule sorted_hd_max [OF sib_hist_sorted [OF ok] k])
  moreover have "constraint sp H ?p c (hd ?h + te_val e)"
    unfolding constraint_def using e ne p(1)
    by (intro exI [of _ c0] bexI [of _ e]) (auto simp: entry_deadline_def split: list.splits)
  then have "hd ?h + te_val e \<le> clk" by (rule legal_constraint [OF leg _ lv(1,2) pos])
  ultimately show ?thesis using e(4) by linarith
qed

section \<open>Bursts\<close>

text \<open>
  \<open>lat c\<close> is the distance from a column access to its burst of \<open>bl\<close> cycles.  The table must separate
  any two accesses at the level of the channel, or at the next level (ranks) both within one node
  and between siblings, unless there is only one node.
\<close>

definition bus_ok :: "('c, 's) spec \<Rightarrow> 'c list \<Rightarrow> ('c \<Rightarrow> int) \<Rightarrow> int \<Rightarrow> bool" where
  "bus_ok sp cas lat bl \<longleftrightarrow>
     (\<forall>c0\<in>set cas. \<forall>c\<in>set cas.
        separated sp 0 False c0 c (lat c0 + bl - lat c)
        \<or> separated sp 1 False c0 c (lat c0 + bl - lat c)
          \<and> (separated sp 1 True c0 c (lat c0 + bl - lat c) \<or> sp_count sp 1 = 1))"

locale data_bus = dram_spec sp for sp :: "('c, 's) spec" +
  fixes cas :: "'c list" and lat :: "'c \<Rightarrow> int" and bl :: int
  assumes cas_scope: "c \<in> set cas \<Longrightarrow> 1 \<le> sp_scope sp c" and banked: "1 < sp_row_level sp"
    and bus_table: "bus_ok sp cas lat bl"
begin

lemma gap_on_bus:
  assumes leg: "legal sp H c ad clk" and ok: "hist_ok H" and mem: "(c0, a, k) \<in> set H"
    and cas: "c0 \<in> set cas" "c \<in> set cas" and ad: "addr_ok sp c ad" "addr_ok sp c0 a" "a ! 0 = ad ! 0"
  shows "k + lat c0 + bl \<le> clk + lat c"
proof -
  let ?d = "lat c0 + bl - lat c"
  have len: "1 < length ad" "1 < length a" using ad banked by (auto simp: addr_ok_def)
  have rng: "0 \<le> ad ! 1" "ad ! 1 < sp_count sp 1" "0 \<le> a ! 1" "a ! 1 < sp_count sp 1"
    using ad(1,2) banked cas_scope [OF cas(1)] cas_scope [OF cas(2)] by (auto simp: addr_ok_def Suc_le_eq)
  have hd: "take (Suc 0) a = take (Suc 0) ad" using ad(3) len by (cases a; cases ad) auto
  consider "separated sp 0 False c0 c ?d"
    | "separated sp 1 False c0 c ?d" "separated sp 1 True c0 c ?d \<or> sp_count sp 1 = 1"
    using bus_table cas by (auto simp: bus_ok_def)
  then have "k + ?d \<le> clk"
  proof cases
    case 1
    show ?thesis by (rule legal_gap [OF leg ok mem 1 hd]) (use banked len in auto)
  next
    case 2
    have pos: "\<forall>k<1. 0 \<le> ad ! Suc k" using rng by simp
    note lv = cas_scope [OF cas(2)] banked len(1) pos
    show ?thesis
    proof (cases "a ! 1 = ad ! 1")
      case True
      then have "take (Suc 1) a = take (Suc 1) ad" using hd len by (simp add: take_Suc_conv_app_nth)
      then show ?thesis by (rule legal_gap [OF leg ok mem 2(1) _ lv])
    next
      case False
      then have "separated sp 1 True c0 c ?d" using 2(2) rng by auto
      then show ?thesis by (rule legal_sib_gap [OF leg ok mem _ _ False len(2) lv]) (use hd in simp)
    qed
  qed
  then show ?thesis by linarith
qed

lemma bursts_apart:
  assumes "hist_ok (rev xs)" and "\<forall>(c, a, k)\<in>set xs. addr_ok sp c a \<and> a ! 0 = i"
    and "issue_checked sp xs (new_dram sp 0 i) = Inr t" and "xs = ys @ (c, ad, clk) # zs"
    and "(c0, a, k) \<in> set ys" and "c0 \<in> set cas" "c \<in> set cas"
  shows "k + lat c0 + bl \<le> clk + lat c"
proof -
  have "legal sp (rev ys) c ad clk"
    using issue_checked_legal [OF tree_inv_new [of "[]" 0 i, simplified] _ assms(2-4)] assms(1) by simp
  moreover have "hist_ok (rev ys)" using assms(1,4) by (auto simp: hist_ok_def sorted_wrt_append)
  moreover have "addr_ok sp c ad" "addr_ok sp c0 a" "a ! 0 = ad ! 0" using assms(2,4,5) by fastforce+
  ultimately show ?thesis using gap_on_bus [of "rev ys"] assms(5-7) by simp
qed

end

section \<open>Column accesses\<close>

text \<open>The latency of a burst: the read latency after a read, the write latency after a write.\<close>

definition cas_lat :: "int \<Rightarrow> int \<Rightarrow> command \<Rightarrow> int" where
  "cas_lat cl cwl c = (if c = RD \<or> c = RDA then cl else cwl)"

abbreviation cas_commands :: "command list" where
  "cas_commands \<equiv> [RD, RDA, WR, WRA]"

lemma separated_push:
  assumes "sp_timing sp lv = entries_for ps"
  shows "separated sp lv sib c0 c d \<longleftrightarrow>
    (\<exists>p\<in>set ps. fst p = c0 \<and> te_cmd (snd p) = c \<and> te_dist (snd p) = 1 \<and> te_sibling (snd p) = sib
        \<and> d \<le> te_val (snd p))"
  unfolding separated_def assms by (force simp: entries_for_set)

end
