(* ===== verification/HMC_Spec.thy ===== *)
theory HMC_Spec
  imports DRAM_Bus
begin

text \<open>
  The Hybrid Memory Cube standard: \<open>ramulator/src/HMC.h\<close> and \<open>HMC.cpp\<close>, as the value
  \<open>hmc_spec\<close> of the generic \<open>spec\<close> record.  The tree of a vault has the levels Vault (0),
  BankGroup (1) and Bank (2); rows and columns are not nodes.  The tables are those of the source,
  entry by entry; \<open>hmc_spec\<close> satisfies the interface \<open>dram_spec\<close>, so that every lemma of
  \<open>DRAM_Legal\<close> holds for it.
\<close>

section \<open>Organisation and speed\<close>

datatype hmc_org =
    HMC_4GB | HMC_8GB | HMC_4GB_bank16 | HMC_4GB_bank32 | HMC_4GB_bank64 | HMC_4GB_bank128
  | HMC_4GB_bank256 | HMC_4GB_va64 | HMC_4GB_va128 | HMC_4GB_va256 | HMC_4GB_va512
  | HMC_4GB_va1024

fun hmc_org_table :: "hmc_org \<Rightarrow> org_entry" where
  "hmc_org_table HMC_4GB = org_entry.make 32768 32 [32, 4, 2, 65536, 64]"
| "hmc_org_table HMC_8GB = org_entry.make 32768 32 [32, 8, 2, 65536, 64]"
| "hmc_org_table HMC_4GB_bank16 = org_entry.make 32768 32 [32, 4, 4, 32768, 64]"
| "hmc_org_table HMC_4GB_bank32 = org_entry.make 32768 32 [32, 4, 8, 16384, 64]"
| "hmc_org_table HMC_4GB_bank64 = org_entry.make 32768 32 [32, 4, 16, 8192, 64]"
| "hmc_org_table HMC_4GB_bank128 = org_entry.make 32768 32 [32, 4, 32, 4096, 64]"
| "hmc_org_table HMC_4GB_bank256 = org_entry.make 32768 32 [32, 4, 64, 2048, 64]"
| "hmc_org_table HMC_4GB_va64 = org_entry.make 32768 32 [64, 4, 2, 32768, 64]"
| "hmc_org_table HMC_4GB_va128 = org_entry.make 32768 32 [128, 4, 2, 16384, 64]"
| "hmc_org_table HMC_4GB_va256 = org_entry.make 32768 32 [256, 4, 2, 8192, 64]"
| "hmc_org_table HMC_4GB_va512 = org_entry.make 32768 32 [512, 4, 2, 4096, 64]"
| "hmc_org_table HMC_4GB_va1024 = org_entry.make 32768 32 [1024, 4, 2, 2048, 64]"

datatype hmc_speed_grade = HMC_2500 | HMC_2500_unlimit_bandwidth

record hmc_speed =
  h_rate :: int
  h_freq :: rat
  h_tCK :: rat
  h_nBL :: int
  h_nCCDS :: int
  h_nCCDL :: int
  h_nRTRS :: int
  h_nCL :: int
  h_nRCD :: int
  h_nRP :: int
  h_nCWL :: int
  h_nRAS :: int
  h_nRC :: int
  h_nRTP :: int
  h_nWTRS :: int
  h_nWTRL :: int
  h_nWR :: int
  h_nRRDS :: int
  h_nRRDL :: int
  h_nFAW :: int
  h_nRFC :: int
  h_nREFI :: int
  h_nPD :: int
  h_nXP :: int
  h_nXPDLL :: int
  h_nCKESR :: int
  h_nXS :: int
  h_nXSDLL :: int

fun hmc_speed_table :: "hmc_speed_grade \<Rightarrow> hmc_speed" where
  "hmc_speed_table HMC_2500 =
     hmc_speed.make 2500 1250 (4/5) 4 4 6 2 17 17 17 13 34 51 9 3 9 19 7 8 17 200 9750 6 8 0 7 0 0"
| "hmc_speed_table HMC_2500_unlimit_bandwidth =
     hmc_speed.make 2500 1250 (4/5) 0 1 1 2 17 17 17 13 34 51 9 3 9 19 7 8 17 200 9750 6 8 0 7 0 0"

text \<open>
  \<open>org_map[s]\<close> on a \<open>std::map\<close> inserts enumerator 0 for an unknown name: a misspelt organisation is
  \<open>HMC_4GB\<close>, and \<open>HMC_2500\<close>, which the speed map does not list, is found only that way.
\<close>

definition hmc_org_of :: "string \<Rightarrow> hmc_org" where
  "hmc_org_of s =
     (case map_of
        [(''HMC_4GB'', HMC_4GB), (''HMC_8GB'', HMC_8GB), (''HMC_4GB_bank16'', HMC_4GB_bank16),
         (''HMC_4GB_bank32'', HMC_4GB_bank32), (''HMC_4GB_bank64'', HMC_4GB_bank64),
         (''HMC_4GB_bank128'', HMC_4GB_bank128), (''HMC_4GB_bank256'', HMC_4GB_bank256),
         (''HMC_4GB_va64'', HMC_4GB_va64), (''HMC_4GB_va128'', HMC_4GB_va128),
         (''HMC_4GB_va256'', HMC_4GB_va256), (''HMC_4GB_va512'', HMC_4GB_va512),
         (''HMC_4GB_va1024'', HMC_4GB_va1024)] s of
        Some x \<Rightarrow> x | None \<Rightarrow> HMC_4GB)"

definition hmc_speed_of :: "string \<Rightarrow> hmc_speed_grade" where
  "hmc_speed_of s =
     (case map_of [(''HMC_2500_unlimit_bandwidth'', HMC_2500_unlimit_bandwidth)] s of
        Some x \<Rightarrow> x | None \<Rightarrow> HMC_2500)"

section \<open>Levels and states\<close>

abbreviation (input) Vault :: nat where "Vault \<equiv> 0"
abbreviation (input) BankGroup :: nat where "BankGroup \<equiv> 1"
abbreviation (input) Bank :: nat where "Bank \<equiv> 2"
abbreviation (input) Row :: nat where "Row \<equiv> 3"
abbreviation (input) Column :: nat where "Column \<equiv> 4"

fun hmc_scope :: "command \<Rightarrow> nat" where
  "hmc_scope ACT = Row"
| "hmc_scope PRE = Bank"
| "hmc_scope PREA = Vault"
| "hmc_scope RD = Column"
| "hmc_scope WR = Column"
| "hmc_scope RDA = Column"
| "hmc_scope WRA = Column"
| "hmc_scope REF = Vault"
| "hmc_scope PDE = Vault"
| "hmc_scope PDX = Vault"
| "hmc_scope SRE = Vault"
| "hmc_scope SRX = Vault"

definition hmc_start :: "nat \<Rightarrow> dstate" where
  "hmc_start lv = [PowerUp, StMAX, Closed, Closed, StMAX] ! lv"

section \<open>Prerequisites and row queries\<close>

fun hmc_prereq_RD_Vault :: "(command, dstate) dram \<Rightarrow> command \<Rightarrow> int \<Rightarrow> command option res" where
  "hmc_prereq_RD_Vault node cmd i =
     (case dn_state (dinfo node) of
        PowerUp \<Rightarrow> Inr None
      | ActPowerDown \<Rightarrow> Inr (Some PDX)
      | PrePowerDown \<Rightarrow> Inr (Some PDX)
      | SelfRefresh \<Rightarrow> Inr (Some SRX)
      | _ \<Rightarrow> Inl AssertFailed)"

fun hmc_prereq_RD_Bank :: "(command, dstate) dram \<Rightarrow> command \<Rightarrow> int \<Rightarrow> command option res" where
  "hmc_prereq_RD_Bank node cmd i =
     (case dn_state (dinfo node) of
        Closed \<Rightarrow> Inr (Some ACT)
      | Opened \<Rightarrow> (if dn_row_state (dinfo node) i \<noteq> None then Inr (Some cmd) else Inr (Some PRE))
      | _ \<Rightarrow> Inl AssertFailed)"

definition banks_of :: "(command, dstate) dram \<Rightarrow> (command, dstate) dram list" where
  "banks_of node = concat (map dchildren (dchildren node))"

fun hmc_prereq_REF_Vault :: "(command, dstate) dram \<Rightarrow> command \<Rightarrow> int \<Rightarrow> command option res" where
  "hmc_prereq_REF_Vault node cmd i =
     (if all_closed (banks_of node) then Inr (Some REF) else Inr (Some PREA))"

fun hmc_prereq_PDE_Vault :: "(command, dstate) dram \<Rightarrow> command \<Rightarrow> int \<Rightarrow> command option res" where
  "hmc_prereq_PDE_Vault node cmd i =
     (case dn_state (dinfo node) of
        PowerUp \<Rightarrow> Inr (Some PDE)
      | ActPowerDown \<Rightarrow> Inr (Some PDE)
      | PrePowerDown \<Rightarrow> Inr (Some PDE)
      | SelfRefresh \<Rightarrow> Inr (Some SRX)
      | _ \<Rightarrow> Inl AssertFailed)"

fun hmc_prereq_SRE_Vault :: "(command, dstate) dram \<Rightarrow> command \<Rightarrow> int \<Rightarrow> command option res" where
  "hmc_prereq_SRE_Vault node cmd i =
     (case dn_state (dinfo node) of
        PowerUp \<Rightarrow> Inr (Some SRE)
      | ActPowerDown \<Rightarrow> Inr (Some PDX)
      | PrePowerDown \<Rightarrow> Inr (Some PDX)
      | SelfRefresh \<Rightarrow> Inr (Some SRE)
      | _ \<Rightarrow> Inl AssertFailed)"

definition hmc_prereq ::
  "nat \<Rightarrow> command \<Rightarrow> ((command, dstate) dram \<Rightarrow> command \<Rightarrow> int \<Rightarrow> command option res) option" where
  "hmc_prereq lv cmd =
     (if lv = Vault \<and> (cmd = RD \<or> cmd = WR) then Some hmc_prereq_RD_Vault
      else if lv = Bank \<and> (cmd = RD \<or> cmd = WR) then Some hmc_prereq_RD_Bank
      else if lv = Vault \<and> cmd = REF then Some hmc_prereq_REF_Vault
      else if lv = Vault \<and> cmd = PDE then Some hmc_prereq_PDE_Vault
      else if lv = Vault \<and> cmd = SRE then Some hmc_prereq_SRE_Vault
      else None)"

fun hmc_rowhit_Bank :: "(command, dstate) dram \<Rightarrow> command \<Rightarrow> int \<Rightarrow> bool res" where
  "hmc_rowhit_Bank node cmd i =
     (case dn_state (dinfo node) of
        Closed \<Rightarrow> Inr False
      | Opened \<Rightarrow> Inr (dn_row_state (dinfo node) i \<noteq> None)
      | _ \<Rightarrow> Inl AssertFailed)"

fun hmc_rowopen_Bank :: "(command, dstate) dram \<Rightarrow> command \<Rightarrow> int \<Rightarrow> bool res" where
  "hmc_rowopen_Bank node cmd i =
     (case dn_state (dinfo node) of
        Closed \<Rightarrow> Inr False
      | Opened \<Rightarrow> Inr True
      | _ \<Rightarrow> Inl AssertFailed)"

definition hmc_rowhit ::
  "nat \<Rightarrow> command \<Rightarrow> ((command, dstate) dram \<Rightarrow> command \<Rightarrow> int \<Rightarrow> bool res) option" where
  "hmc_rowhit lv cmd = (if lv = Bank \<and> (cmd = RD \<or> cmd = WR) then Some hmc_rowhit_Bank else None)"

definition hmc_rowopen ::
  "nat \<Rightarrow> command \<Rightarrow> ((command, dstate) dram \<Rightarrow> command \<Rightarrow> int \<Rightarrow> bool res) option" where
  "hmc_rowopen lv cmd = (if lv = Bank \<and> (cmd = RD \<or> cmd = WR) then Some hmc_rowopen_Bank else None)"

section \<open>State transitions\<close>

definition hmc_lambda ::
  "nat \<Rightarrow> command \<Rightarrow> ((command, dstate) dram \<Rightarrow> int \<Rightarrow> (command, dstate) dram) option" where
  "hmc_lambda lv cmd =
     (if lv = Bank then
        (case cmd of
           ACT \<Rightarrow> Some (\<lambda>node i. open_row i node)
         | PRE \<Rightarrow> Some (\<lambda>node i. close_bank node)
         | RD \<Rightarrow> Some (\<lambda>node i. node)
         | WR \<Rightarrow> Some (\<lambda>node i. node)
         | RDA \<Rightarrow> Some (\<lambda>node i. close_bank node)
         | WRA \<Rightarrow> Some (\<lambda>node i. close_bank node)
         | _ \<Rightarrow> None)
      else if lv = Vault then
        (case cmd of
           PREA \<Rightarrow> Some (\<lambda>node i. map_children (map_children close_bank) node)
         | REF \<Rightarrow> Some (\<lambda>node i. node)
         | PDE \<Rightarrow> Some (\<lambda>node i. set_state
                     (if all_closed (banks_of node) then PrePowerDown else ActPowerDown) node)
         | PDX \<Rightarrow> Some (\<lambda>node i. set_state PowerUp node)
         | SRE \<Rightarrow> Some (\<lambda>node i. set_state SelfRefresh node)
         | SRX \<Rightarrow> Some (\<lambda>node i. set_state PowerUp node)
         | _ \<Rightarrow> None)
      else None)"

section \<open>Timing\<close>

definition hmc_timing_Vault :: "hmc_speed \<Rightarrow> command pushes" where
  "hmc_timing_Vault s =
     [push RD RD 1 (h_nBL s), push RD RDA 1 (h_nBL s), push RDA RD 1 (h_nBL s),
      push RDA RDA 1 (h_nBL s), push WR WR 1 (h_nBL s), push WR WRA 1 (h_nBL s),
      push WRA WR 1 (h_nBL s), push WRA WRA 1 (h_nBL s), push RD RD 1 (h_nCCDS s),
      push RD RDA 1 (h_nCCDS s), push RDA RD 1 (h_nCCDS s), push RDA RDA 1 (h_nCCDS s),
      push WR WR 1 (h_nCCDS s), push WR WRA 1 (h_nCCDS s), push WRA WR 1 (h_nCCDS s),
      push WRA WRA 1 (h_nCCDS s), push RD WR 1 (h_nCL s + h_nCCDS s + 2 - h_nCWL s),
      push RD WRA 1 (h_nCL s + h_nCCDS s + 2 - h_nCWL s),
      push RDA WR 1 (h_nCL s + h_nCCDS s + 2 - h_nCWL s),
      push RDA WRA 1 (h_nCL s + h_nCCDS s + 2 - h_nCWL s),
      push WR RD 1 (h_nCWL s + h_nBL s + h_nWTRS s),
      push WR RDA 1 (h_nCWL s + h_nBL s + h_nWTRS s),
      push WRA RD 1 (h_nCWL s + h_nBL s + h_nWTRS s),
      push WRA RDA 1 (h_nCWL s + h_nBL s + h_nWTRS s), push RD PREA 1 (h_nRTP s),
      push WR PREA 1 (h_nCWL s + h_nBL s + h_nWR s), push RD PDE 1 (h_nCL s + h_nBL s + 1),
      push RDA PDE 1 (h_nCL s + h_nBL s + 1), push WR PDE 1 (h_nCWL s + h_nBL s + h_nWR s),
      push WRA PDE 1 (h_nCWL s + h_nBL s + h_nWR s + 1), push PDX RD 1 (h_nXP s),
      push PDX RDA 1 (h_nXP s), push PDX WR 1 (h_nXP s), push PDX WRA 1 (h_nXP s),
      push ACT ACT 1 (h_nRRDS s), push ACT ACT 4 (h_nFAW s), push ACT PREA 1 (h_nRAS s),
      push PREA ACT 1 (h_nRP s), push PRE REF 1 (h_nRP s), push PREA REF 1 (h_nRP s),
      push REF ACT 1 (h_nRFC s), push ACT PDE 1 1, push PDX ACT 1 (h_nXP s),
      push PDX PRE 1 (h_nXP s), push PDX PREA 1 (h_nXP s), push PRE SRE 1 (h_nRP s),
      push PREA SRE 1 (h_nRP s), push SRX ACT 1 (h_nXS s), push REF REF 1 (h_nRFC s),
      push REF PDE 1 1, push PDX REF 1 (h_nXP s), push SRX REF 1 (h_nXS s),
      push PDE PDX 1 (h_nPD s), push PDX PDE 1 (h_nXP s), push PDX SRE 1 (h_nXP s),
      push SRX PDE 1 (h_nXS s), push SRE SRX 1 (h_nCKESR s), push SRX SRE 1 (h_nXS s)]"

definition hmc_timing_BankGroup :: "hmc_speed \<Rightarrow> command pushes" where
  "hmc_timing_BankGroup s =
     [push RD RD 1 (h_nCCDL s), push RD RDA 1 (h_nCCDL s), push RDA RD 1 (h_nCCDL s),
      push RDA RDA 1 (h_nCCDL s), push WR WR 1 (h_nCCDL s), push WR WRA 1 (h_nCCDL s),
      push WRA WR 1 (h_nCCDL s), push WRA WRA 1 (h_nCCDL s),
      push WR RD 1 (h_nCWL s + h_nBL s + h_nWTRL s),
      push WR RDA 1 (h_nCWL s + h_nBL s + h_nWTRL s),
      push WRA RD 1 (h_nCWL s + h_nBL s + h_nWTRL s),
      push WRA RDA 1 (h_nCWL s + h_nBL s + h_nWTRL s), push ACT ACT 1 (h_nRRDL s)]"

definition hmc_timing_Bank :: "hmc_speed \<Rightarrow> command pushes" where
  "hmc_timing_Bank s =
     [push ACT RD 1 (h_nRCD s), push ACT RDA 1 (h_nRCD s), push ACT WR 1 (h_nRCD s),
      push ACT WRA 1 (h_nRCD s), push RD PRE 1 (h_nRTP s),
      push WR PRE 1 (h_nCWL s + h_nBL s + h_nWR s), push RDA ACT 1 (h_nRTP s + h_nRP s),
      push WRA ACT 1 (h_nCWL s + h_nBL s + h_nWR s + h_nRP s), push ACT ACT 1 (h_nRC s),
      push ACT PRE 1 (h_nRAS s), push PRE ACT 1 (h_nRP s)]"

definition hmc_timing :: "hmc_speed \<Rightarrow> nat \<Rightarrow> command \<Rightarrow> command timing_entry list" where
  "hmc_timing s lv =
     entries_for
       (if lv = Vault then hmc_timing_Vault s
        else if lv = BankGroup then hmc_timing_BankGroup s
        else if lv = Bank then hmc_timing_Bank s
        else [])"

section \<open>The standard\<close>

definition hmc_spec :: "hmc_org \<Rightarrow> hmc_speed_grade \<Rightarrow> (command, dstate) spec" where
  "hmc_spec org speed =
     \<lparr>sp_scope = hmc_scope, sp_start = hmc_start, sp_row_level = Row, sp_bank_level = Bank,
      sp_level_max = 5,
      sp_count = (\<lambda>lv. org_count (hmc_org_table org) ! lv),
      sp_prereq = hmc_prereq, sp_rowhit = hmc_rowhit, sp_rowopen = hmc_rowopen,
      sp_lambda = hmc_lambda, sp_timing = hmc_timing (hmc_speed_table speed),
      sp_is_opening = is_opening, sp_is_accessing = is_accessing, sp_is_closing = is_closing,
      sp_is_refreshing = is_refreshing, sp_translate = translate, sp_PRE = PRE,
      sp_read_latency = h_nCL (hmc_speed_table speed) + h_nBL (hmc_speed_table speed),
      sp_nREFI = h_nREFI (hmc_speed_table speed),
      sp_prefetch_size = 8, sp_channel_width = 32\<rparr>"

lemma hmc_spec_sel [simp]:
  "sp_scope (hmc_spec org speed) = hmc_scope" "sp_row_level (hmc_spec org speed) = 3"
  "sp_bank_level (hmc_spec org speed) = 2" "sp_prereq (hmc_spec org speed) = hmc_prereq"
  "sp_rowhit (hmc_spec org speed) = hmc_rowhit" "sp_rowopen (hmc_spec org speed) = hmc_rowopen"
  "sp_lambda (hmc_spec org speed) = hmc_lambda"
  "sp_timing (hmc_spec org speed) = hmc_timing (hmc_speed_table speed)"
  "sp_start (hmc_spec org speed) = hmc_start" "sp_translate (hmc_spec org speed) = translate"
  "sp_count (hmc_spec org speed) lv = org_count (hmc_org_table org) ! lv"
  "sp_is_opening (hmc_spec org speed) = is_opening"
  "sp_is_refreshing (hmc_spec org speed) = is_refreshing"
  by (simp_all add: hmc_spec_def)

lemma hmc_timing_push_ok:
  "list_all (push_ok is_refreshing is_opening) (hmc_timing_Vault s)"
  "list_all (push_ok is_refreshing is_opening) (hmc_timing_BankGroup s)"
  "list_all (push_ok is_refreshing is_opening) (hmc_timing_Bank s)"
  by (simp_all add: hmc_timing_Vault_def hmc_timing_BankGroup_def hmc_timing_Bank_def)

lemma hmc_timing_ok:
  assumes "e \<in> set (hmc_timing s lv c)"
  shows "0 < te_dist e" "te_sibling e \<Longrightarrow> te_dist e = 1"
    "\<not> te_sibling e \<Longrightarrow> is_refreshing c \<Longrightarrow> is_opening (te_cmd e) \<Longrightarrow> te_dist e = 1"
proof -
  obtain ps where "list_all (push_ok is_refreshing is_opening) ps" "e \<in> set (entries_for ps c)"
    using assms hmc_timing_push_ok [of s]
    by (auto simp: hmc_timing_def entries_for_def split: if_splits)
  from entries_for_ok [OF this] show "0 < te_dist e" "te_sibling e \<Longrightarrow> te_dist e = 1"
    "\<not> te_sibling e \<Longrightarrow> is_refreshing c \<Longrightarrow> is_opening (te_cmd e) \<Longrightarrow> te_dist e = 1"
    by auto
qed

interpretation hmc: dram_spec "hmc_spec org speed" for org speed
proof unfold_locales
  show "view (node_core (hmc_spec org speed)) (f t i) = view (node_core (hmc_spec org speed)) t"
    if "sp_lambda (hmc_spec org speed) lv c = Some f" for lv c f t i
    using that by (auto simp: hmc_lambda_def split: if_splits command.splits)
  show "0 < sp_count (hmc_spec org speed) lv" if "0 < lv" "lv < sp_row_level (hmc_spec org speed)" for lv
    using that by (cases org) (auto simp: org_entry.defs less_Suc_eq numeral_3_eq_3)
qed (use hmc_timing_ok in auto)

lemma hmc_bus_table:
  "bus_ok (hmc_spec org speed) cas_commands
     (cas_lat (h_nCL (hmc_speed_table speed)) (h_nCWL (hmc_speed_table speed))) (h_nBL (hmc_speed_table speed))"
proof -
  let ?s = "hmc_speed_table speed"
  have t: "sp_timing (hmc_spec org speed) 0 = entries_for (hmc_timing_Vault ?s)"
    "sp_timing (hmc_spec org speed) 1 = entries_for (hmc_timing_BankGroup ?s)"
    by (simp_all add: hmc_timing_def fun_eq_iff)
  have "h_nBL ?s \<le> h_nCCDS ?s + 2" "0 \<le> h_nCL ?s" "0 \<le> h_nWTRS ?s"
    by (cases speed; simp add: hmc_speed.defs)+
  then show ?thesis
    unfolding bus_ok_def separated_push [OF t(1)] separated_push [OF t(2)]
    by (simp add: hmc_timing_Vault_def cas_lat_def)
qed

interpretation hmc_bus: data_bus "hmc_spec org speed" cas_commands
  "cas_lat (h_nCL (hmc_speed_table speed)) (h_nCWL (hmc_speed_table speed))" "h_nBL (hmc_speed_table speed)"
  for org speed
  by unfold_locales (auto simp: hmc_bus_table)

end
