(* ===== verification/HMC_Vault.thy ===== *)
theory HMC_Vault
  imports HMC_Spec
begin

text \<open>
  What a vault promises to its controller: an abstract vault is a power state and, for every bank,
  the open row (if any).  The relation \<open>vault_rel\<close> ties a device tree to it: a bank is \<open>Opened\<close> with
  exactly one entry in \<open>row_state\<close>, or \<open>Closed\<close> with none.  \<open>decode\<close> and \<open>update\<close> of the tree
  simulate \<open>abs_decode\<close> and \<open>abs_step\<close>, and following \<open>decode\<close> leads to the requested command
  after at most three preparatory ones.
\<close>

section \<open>The abstract vault\<close>

record vault_abs =
  va_power :: dstate
  va_rows :: "nat \<Rightarrow> nat \<Rightarrow> int option"

definition nbg :: "hmc_org \<Rightarrow> nat" where
  "nbg org = nat (org_count (hmc_org_table org) ! 1)"

definition nbank :: "hmc_org \<Rightarrow> nat" where
  "nbank org = nat (org_count (hmc_org_table org) ! 2)"

definition any_open :: "hmc_org \<Rightarrow> vault_abs \<Rightarrow> bool" where
  "any_open org A \<longleftrightarrow> (\<exists>g<nbg org. \<exists>b<nbank org. va_rows A g b \<noteq> None)"

definition set_row :: "nat \<Rightarrow> nat \<Rightarrow> int option \<Rightarrow> vault_abs \<Rightarrow> vault_abs" where
  "set_row g b r A = A\<lparr>va_rows := (va_rows A)(g := (va_rows A g)(b := r))\<rparr>"

definition abs_decode :: "hmc_org \<Rightarrow> command \<Rightarrow> int list \<Rightarrow> vault_abs \<Rightarrow> command" where
  "abs_decode org cmd ad A =
     (if cmd = RD \<or> cmd = WR then
        (if va_power A = PowerUp then
           (case va_rows A (nat (ad ! 1)) (nat (ad ! 2)) of
              None \<Rightarrow> ACT
            | Some r \<Rightarrow> if r = ad ! 3 then cmd else PRE)
         else if va_power A = SelfRefresh then SRX else PDX)
      else if cmd = REF then (if any_open org A then PREA else REF)
      else if cmd = PDE then (if va_power A = SelfRefresh then SRX else PDE)
      else if cmd = SRE then
        (if va_power A = PowerUp \<or> va_power A = SelfRefresh then SRE else PDX)
      else cmd)"

definition abs_step :: "hmc_org \<Rightarrow> command \<Rightarrow> int list \<Rightarrow> vault_abs \<Rightarrow> vault_abs" where
  "abs_step org cmd ad A =
     (case cmd of
        ACT \<Rightarrow> set_row (nat (ad ! 1)) (nat (ad ! 2)) (Some (ad ! 3)) A
      | PRE \<Rightarrow> set_row (nat (ad ! 1)) (nat (ad ! 2)) None A
      | RDA \<Rightarrow> set_row (nat (ad ! 1)) (nat (ad ! 2)) None A
      | WRA \<Rightarrow> set_row (nat (ad ! 1)) (nat (ad ! 2)) None A
      | PREA \<Rightarrow> A\<lparr>va_rows := (\<lambda>_ _. None)\<rparr>
      | PDE \<Rightarrow> A\<lparr>va_power := (if any_open org A then ActPowerDown else PrePowerDown)\<rparr>
      | PDX \<Rightarrow> A\<lparr>va_power := PowerUp\<rparr>
      | SRE \<Rightarrow> A\<lparr>va_power := SelfRefresh\<rparr>
      | SRX \<Rightarrow> A\<lparr>va_power := PowerUp\<rparr>
      | _ \<Rightarrow> A)"

section \<open>Device trees and abstract vaults\<close>

fun bank_rel :: "(command, dstate) dnode \<Rightarrow> int option \<Rightarrow> bool" where
  "bank_rel n None \<longleftrightarrow> dn_state n = Closed \<and> dn_row_state n = Map.empty"
| "bank_rel n (Some r) \<longleftrightarrow> dn_state n = Opened \<and> dn_row_state n = [r \<mapsto> Opened]"

definition group_rel :: "nat \<Rightarrow> (nat \<Rightarrow> int option) \<Rightarrow> (command, dstate) dram \<Rightarrow> bool" where
  "group_rel nb rows g \<longleftrightarrow>
     dn_level (dinfo g) = 1 \<and> length (dchildren g) = nb
     \<and> (\<forall>b<nb. dn_level (dinfo (dchildren g ! b)) = 2 \<and> dchildren (dchildren g ! b) = []
                \<and> bank_rel (dinfo (dchildren g ! b)) (rows b))"

definition vault_rel :: "hmc_org \<Rightarrow> (command, dstate) dram \<Rightarrow> vault_abs \<Rightarrow> bool" where
  "vault_rel org t A \<longleftrightarrow>
     dn_level (dinfo t) = 0 \<and> dn_state (dinfo t) = va_power A
     \<and> va_power A \<in> {PowerUp, ActPowerDown, PrePowerDown, SelfRefresh}
     \<and> length (dchildren t) = nbg org
     \<and> (\<forall>g<nbg org. group_rel (nbank org) (va_rows A g) (dchildren t ! g))"

text \<open>The addresses of a bank: five components, inside the vault.\<close>

definition bank_addr :: "hmc_org \<Rightarrow> int list \<Rightarrow> bool" where
  "bank_addr org ad \<longleftrightarrow>
     length ad = 5 \<and> 0 \<le> ad ! 1 \<and> nat (ad ! 1) < nbg org \<and> 0 \<le> ad ! 2 \<and> nat (ad ! 2) < nbank org"

lemma nbg_pos: "0 < nbg org" and nbank_pos: "0 < nbank org"
  by (cases org; simp add: nbg_def nbank_def org_entry.defs)+

lemma bank_addr_ok: "bank_addr org ad \<Longrightarrow> addr_ok (hmc_spec org speed) cmd ad"
  using nbg_pos [of org] nbank_pos [of org]
  by (auto simp: bank_addr_def addr_ok_def nbg_def nbank_def less_Suc_eq numeral_3_eq_3 numeral_2_eq_2)

lemma group_rel_sview:
  assumes "sview t = sview t'" "group_rel nb rows t"
  shows "group_rel nb rows t'"
proof -
  have bank: "dn_level (dinfo b) = dn_level (dinfo b') \<and> dchildren b' = [] \<and> bank_rel (dinfo b') r"
    if "sview b = sview b'" "dchildren b = []" "bank_rel (dinfo b) r" for b b' r
    using that by (cases b; cases b'; cases r) auto
  have l: "length (dchildren t) = length (dchildren t')" "dn_level (dinfo t') = dn_level (dinfo t)"
    using assms(1) by (cases t; cases t'; auto dest: map_eq_imp_length_eq)+
  have "sview (dchildren t ! b) = sview (dchildren t' ! b)" if "b < length (dchildren t)" for b
    using assms(1) that by (cases t; cases t'; auto simp: list_eq_iff_nth_eq)
  with assms(2) l have "dn_level (dinfo (dchildren t' ! b)) = 2 \<and> dchildren (dchildren t' ! b) = []
      \<and> bank_rel (dinfo (dchildren t' ! b)) (rows b)" if "b < nb" for b
    using bank [of "dchildren t ! b" "dchildren t' ! b" "rows b"] that by (simp add: group_rel_def)
  with assms(2) l show ?thesis by (simp add: group_rel_def)
qed

lemma vault_rel_sview:
  assumes "sview t = sview t'" "vault_rel org t A"
  shows "vault_rel org t' A"
proof -
  have l: "length (dchildren t') = length (dchildren t)" "dn_level (dinfo t') = dn_level (dinfo t)"
    "dn_state (dinfo t') = dn_state (dinfo t)"
    using assms(1) by (cases t; cases t'; auto dest: map_eq_imp_length_eq)+
  have "sview (dchildren t ! b) = sview (dchildren t' ! b)" if "b < length (dchildren t)" for b
    using assms(1) that by (cases t; cases t'; auto simp: list_eq_iff_nth_eq)
  with assms(2) have "group_rel (nbank org) (va_rows A g) (dchildren t' ! g)" if "g < nbg org" for g
    using group_rel_sview [of "dchildren t ! g" "dchildren t' ! g"] that by (simp add: vault_rel_def)
  with assms(2) l show ?thesis by (simp add: vault_rel_def)
qed

lemma vault_rel_new:
  "vault_rel org (new_dram (hmc_spec org speed) 0 i) \<lparr>va_power = PowerUp, va_rows = (\<lambda>_ _. None)\<rparr>"
proof -
  have bank: "new_dram (hmc_spec org speed) 2 j = DRAM (init_dnode (hmc_spec org speed) 2 j) []" for j
    by (simp add: new_dram.simps)
  have "group_rel (nbank org) (\<lambda>_. None) (new_dram (hmc_spec org speed) 1 j)" for j
    by (simp add: new_dram.simps [of _ "Suc 0"] group_rel_def bank init_dnode_def hmc_start_def nbank_def
        flip: numeral_2_eq_2)
  then show ?thesis
    by (simp add: new_dram.simps [of _ 0] vault_rel_def init_dnode_def hmc_start_def nbg_def)
qed

lemma all_closed_banks:
  assumes "vault_rel org t A"
  shows "all_closed (banks_of t) \<longleftrightarrow> \<not> any_open org A"
proof -
  have "bank_rel n r \<Longrightarrow> dn_state n = Closed \<longleftrightarrow> r = None" for n r by (cases r) auto
  then have st: "dn_state (dinfo (dchildren (dchildren t ! g) ! b)) = Closed \<longleftrightarrow> va_rows A g b = None"
    if "g < nbg org" "b < nbank org" for g b
    using that assms by (simp add: vault_rel_def group_rel_def)
  have len: "length (dchildren t) = nbg org" "g < nbg org \<Longrightarrow> length (dchildren (dchildren t ! g)) = nbank org" for g
    using assms by (auto simp: vault_rel_def group_rel_def)
  have "all_closed (banks_of t) \<longleftrightarrow>
      (\<forall>g<nbg org. \<forall>b<nbank org. dn_state (dinfo (dchildren (dchildren t ! g) ! b)) = Closed)"
    unfolding all_closed_def banks_of_def
    by (simp add: all_set_conv_all_nth len cong: conj_cong imp_cong)
  then show ?thesis using st by (auto simp: any_open_def)
qed

section \<open>Updates simulate \<open>abs_step\<close>\<close>

text \<open>The commands whose transition happens at the addressed bank.\<close>

definition bank_cmd :: "command \<Rightarrow> bool" where
  "bank_cmd cmd \<longleftrightarrow> cmd \<in> {ACT, PRE, RD, WR, RDA, WRA}"

definition bank_effect :: "command \<Rightarrow> int \<Rightarrow> (command, dstate) dram \<Rightarrow> (command, dstate) dram" where
  "bank_effect cmd r node =
     (case hmc_lambda Bank cmd of None \<Rightarrow> node | Some f \<Rightarrow> f node r)"

definition on_bank ::
  "nat \<Rightarrow> nat \<Rightarrow> ((command, dstate) dram \<Rightarrow> (command, dstate) dram) \<Rightarrow> (command, dstate) dram
   \<Rightarrow> (command, dstate) dram" where
  "on_bank g b f t =
     (let gr = dchildren t ! g in
      DRAM (dinfo t)
        ((dchildren t)[g := DRAM (dinfo gr) ((dchildren gr)[b := f (dchildren gr ! b)])]))"

lemma hmc_lambda_None:
  "bank_cmd cmd \<Longrightarrow> lv < 2 \<Longrightarrow> hmc_lambda lv cmd = None"
  by (auto simp: bank_cmd_def hmc_lambda_def less_2_cases_iff)

lemma hmc_scope_bank_cmd: "bank_cmd cmd \<Longrightarrow> 2 \<le> hmc_scope cmd"
  by (auto simp: bank_cmd_def)

lemma bank_effect_level:
  "dn_level (dinfo (bank_effect cmd r node)) = dn_level (dinfo node)"
  "dchildren (bank_effect cmd r node) = dchildren node"
  by (cases cmd; simp add: bank_effect_def hmc_lambda_def open_row_def close_bank_def)+

lemma update_state_bank:
  assumes rel: "vault_rel org t A" and ad: "bank_addr org ad" and cmd: "bank_cmd cmd"
    and run: "update_state_fuel k (hmc_spec org speed) t cmd ad = Inr t'"
  shows "t' = on_bank (nat (ad ! 1)) (nat (ad ! 2)) (bank_effect cmd (ad ! 3)) t"
proof -
  let ?sp = "hmc_spec org speed"
  define gr where "gr = dchildren t ! nat (ad ! 1)"
  define bk where "bk = dchildren gr ! nat (ad ! 2)"
  have ad': "nthR ad 1 = Inr (ad ! 1)" "nthR ad 2 = Inr (ad ! 2)" "nthR ad 3 = Inr (ad ! 3)"
    "indexR (dchildren t) (ad ! 1) = Inr gr" "indexR (dchildren gr) (ad ! 2) = Inr bk"
    using ad rel by (auto simp: bank_addr_def gr_def bk_def vault_rel_def group_rel_def)
  have lv: "dn_level (dinfo t) = 0" "dn_level (dinfo gr) = 1" "dn_level (dinfo bk) = 2"
    "dchildren t \<noteq> []" "dchildren gr \<noteq> []" "dchildren bk = []"
    using ad rel nbg_pos [of org] nbank_pos [of org]
    by (auto simp: bank_addr_def gr_def bk_def vault_rel_def group_rel_def)
  note none = hmc_lambda_None [OF cmd] and sc = hmc_scope_bank_cmd [OF cmd]
  obtain k1 where k1: "k = Suc k1" using run by (cases k) auto
  with run ad' lv none sc obtain gr' where g: "update_state_fuel k1 ?sp gr cmd ad = Inr gr'"
    "t' = DRAM (dinfo t) ((dchildren t)[nat (ad ! 1) := gr'])"
    by auto
  obtain k2 where k2: "k1 = Suc k2" using g by (cases k1) auto
  with g ad' lv none sc obtain bk' where b: "update_state_fuel k2 ?sp bk cmd ad = Inr bk'"
    "gr' = DRAM (dinfo gr) ((dchildren gr)[nat (ad ! 2) := bk'])"
    by (auto simp: numeral_2_eq_2)
  obtain k3 where k3: "k2 = Suc k3" using b by (cases k2) auto
  with b ad' lv have "bk' = bank_effect cmd (ad ! 3) bk"
    using bank_effect_level [of cmd "ad ! 3" bk]
    by (auto simp: bank_effect_def Let_def eval_nat_numeral split: if_splits)
  with g b show ?thesis by (simp add: on_bank_def Let_def gr_def bk_def)
qed

lemma on_bank_rel:
  assumes rel: "vault_rel org t A" and gb: "g < nbg org" "b < nbank org"
    and f: "dn_level (dinfo (f bk)) = dn_level (dinfo bk)" "dchildren (f bk) = dchildren bk"
      "bank_rel (dinfo (f bk)) r" "bk = dchildren (dchildren t ! g) ! b"
  shows "vault_rel org (on_bank g b f t) (set_row g b r A)"
proof -
  let ?gr = "dchildren t ! g"
  have gr: "group_rel (nbank org) (va_rows A g) ?gr" using rel gb by (simp add: vault_rel_def)
  have "group_rel (nbank org) ((va_rows A g)(b := r))
      (DRAM (dinfo ?gr) ((dchildren ?gr)[b := f (dchildren ?gr ! b)]))"
    using gr gb f by (auto simp: group_rel_def nth_list_update)
  with rel gb show ?thesis
    by (auto simp: vault_rel_def on_bank_def Let_def set_row_def nth_list_update)
qed

lemma update_state_bank_rel:
  assumes rel: "vault_rel org t A" and ad: "bank_addr org ad" and cmd: "bank_cmd cmd"
    and act: "cmd = ACT \<longrightarrow> va_rows A (nat (ad ! 1)) (nat (ad ! 2)) = None"
    and run: "update_state_fuel k (hmc_spec org speed) t cmd ad = Inr t'"
  shows "vault_rel org t' (abs_step org cmd ad A)"
proof -
  let ?g = "nat (ad ! 1)" and ?b = "nat (ad ! 2)"
  let ?bk = "dchildren (dchildren t ! ?g) ! ?b"
  have gb: "?g < nbg org" "?b < nbank org" using ad by (auto simp: bank_addr_def)
  then have old: "bank_rel (dinfo ?bk) (va_rows A ?g ?b)" using rel by (simp add: vault_rel_def group_rel_def)
  define r where "r = va_rows (abs_step org cmd ad A) ?g ?b"
  have step: "abs_step org cmd ad A = set_row ?g ?b r A"
    using cmd by (auto simp: r_def bank_cmd_def abs_step_def set_row_def)
  have "bank_rel (dinfo (bank_effect cmd (ad ! 3) ?bk)) r"
    using old act cmd
    by (auto simp: r_def bank_cmd_def bank_effect_def hmc_lambda_def open_row_def close_bank_def
        abs_step_def set_row_def)
  then show ?thesis
    unfolding update_state_bank [OF rel ad cmd run] step
    by (intro on_bank_rel [OF rel gb]) (simp_all add: bank_effect_level)
qed

lemma close_all_rel:
  assumes "vault_rel org t A"
  shows "vault_rel org (map_children (map_children close_bank) t) (A\<lparr>va_rows := (\<lambda>_ _. None)\<rparr>)"
  using assms by (simp add: vault_rel_def group_rel_def map_children_def close_bank_def)

lemma set_power_rel:
  "vault_rel org t A \<Longrightarrow> s \<in> {PowerUp, ActPowerDown, PrePowerDown, SelfRefresh} \<Longrightarrow>
   vault_rel org (set_state s t) (A\<lparr>va_power := s\<rparr>)"
  by (simp add: vault_rel_def set_state_def)

lemma update_state_vault_rel:
  assumes rel: "vault_rel org t A" and ad: "length ad = 5" and cmd: "\<not> bank_cmd cmd"
    and run: "update_state_fuel k (hmc_spec org speed) t cmd ad = Inr t'"
  shows "vault_rel org t' (abs_step org cmd ad A)"
proof -
  obtain f where f: "hmc_lambda Vault cmd = Some f" and sc: "hmc_scope cmd = 0"
    using cmd by (cases cmd) (auto simp: bank_cmd_def hmc_lambda_def)
  have lv: "dn_level (dinfo t) = 0" using rel by (simp add: vault_rel_def)
  have lvf: "dn_level (dinfo (f t (ad ! 1))) = 0"
    using f lv cmd by (cases cmd) (auto simp: hmc_lambda_def set_state_def map_children_def)
  have "t' = f t (ad ! 1)" using run f sc lv lvf ad by (cases k) (auto simp: Let_def)
  moreover have "vault_rel org (f t (ad ! 1)) (abs_step org cmd ad A)"
    using f cmd rel close_all_rel [OF rel]
    by (cases cmd) (auto simp: hmc_lambda_def abs_step_def bank_cmd_def all_closed_banks [OF rel]
        intro: set_power_rel [OF rel])
  ultimately show ?thesis by simp
qed

lemma update_vault_rel:
  assumes rel: "vault_rel org t A"
    and ad: "length ad = 5" "bank_cmd cmd \<Longrightarrow> bank_addr org ad"
    and act: "cmd = ACT \<longrightarrow> va_rows A (nat (ad ! 1)) (nat (ad ! 2)) = None"
    and run: "update (hmc_spec org speed) t cmd ad clk = Inr t'"
  shows "vault_rel org t' (abs_step org cmd ad A)"
proof -
  let ?t = "DRAM ((dinfo t)\<lparr>dn_cur_clk := clk\<rparr>) (dchildren t)"
  have rel': "vault_rel org ?t A" using rel by (intro vault_rel_sview [OF _ rel]) (cases t, simp)
  obtain u where u: "update_state (hmc_spec org speed) ?t cmd ad = Inr u"
    "update_timing (hmc_spec org speed) u cmd ad clk = Inr t'"
    using run by (auto simp: update_def)
  have "vault_rel org u (abs_step org cmd ad A)"
  proof (cases "bank_cmd cmd")
    case True
    show ?thesis by (rule update_state_bank_rel [OF rel' ad(2) [OF True] True act u(1) [unfolded update_state_def]])
  next
    case False
    show ?thesis by (rule update_state_vault_rel [OF rel' ad(1) False u(1) [unfolded update_state_def]])
  qed
  then show ?thesis using update_timing_sview [OF u(2)] vault_rel_sview [of u t'] by simp
qed

section \<open>Decoding simulates \<open>abs_decode\<close>\<close>

lemma decode_bank:
  assumes "vault_rel org t A" "g < nbg org" "b < nbank org" and r: "cmd = RD \<or> cmd = WR"
    and "length ad = 5" "bk = dchildren (dchildren t ! g) ! b"
  shows "decode (hmc_spec org speed) bk cmd ad =
    Inr (case va_rows A g b of None \<Rightarrow> ACT | Some r \<Rightarrow> if r = ad ! 3 then cmd else PRE)"
proof -
  have bk: "dn_level (dinfo bk) = 2" "bank_rel (dinfo bk) (va_rows A g b)"
    using assms by (auto simp: vault_rel_def group_rel_def)
  obtain n cs where t: "bk = DRAM n cs" by (cases bk)
  show ?thesis
    using bk r assms(5) by (cases "va_rows A g b") (auto simp: t hmc_prereq_def nthR_lt)
qed

lemma decode_access:
  assumes rel: "vault_rel org t A" and ad: "bank_addr org ad" and r: "cmd = RD \<or> cmd = WR"
  shows "decode (hmc_spec org speed) t cmd ad = Inr (abs_decode org cmd ad A)"
proof -
  let ?g = "nat (ad ! 1)" and ?b = "nat (ad ! 2)"
  have ad': "length ad = 5" "0 \<le> ad ! 1" "?g < nbg org" "0 \<le> ad ! 2" "?b < nbank org"
    using ad by (auto simp: bank_addr_def)
  obtain n cs where t: "t = DRAM n cs" by (cases t)
  obtain m ds where gr: "cs ! ?g = DRAM m ds" by (cases "cs ! ?g")
  have lv: "dn_level n = 0" "dn_state n = va_power A" "length cs = nbg org"
    "va_power A \<in> {PowerUp, ActPowerDown, PrePowerDown, SelfRefresh}"
    "dn_level m = 1" "length ds = nbank org"
    using rel ad' gr by (auto simp: vault_rel_def group_rel_def t)
  have bank: "decode (hmc_spec org speed) (ds ! ?b) cmd ad =
      Inr (case va_rows A ?g ?b of None \<Rightarrow> ACT | Some r \<Rightarrow> if r = ad ! 3 then cmd else PRE)"
    using decode_bank [OF rel ad'(3,5) r ad'(1)] t gr by simp
  have "decode (hmc_spec org speed) (cs ! ?g) cmd ad = decode (hmc_spec org speed) (ds ! ?b) cmd ad"
    unfolding gr using lv ad' by (auto simp: hmc_prereq_def nthR_lt simp flip: numeral_2_eq_2)
  with bank lv ad' r show ?thesis
    by (auto simp: t hmc_prereq_def nthR_lt abs_decode_def)
qed

lemma decode_vault:
  assumes rel: "vault_rel org t A" and ad: "length ad = 5" and cmd: "cmd \<in> {REF, PDE, SRE}"
  shows "decode (hmc_spec org speed) t cmd ad = Inr (abs_decode org cmd ad A)"
proof -
  obtain n cs where t: "t = DRAM n cs" by (cases t)
  have lv: "dn_level n = 0" "dn_state n = va_power A"
    "va_power A \<in> {PowerUp, ActPowerDown, PrePowerDown, SelfRefresh}"
    using rel by (auto simp: vault_rel_def t)
  show ?thesis
    using cmd lv ad all_closed_banks [OF rel]
    by (auto simp: t hmc_prereq_def nthR_lt abs_decode_def)
qed

section \<open>Following \<open>decode\<close>\<close>

text \<open>
  What a controller does for one request: at each of the given clocks it issues the command that
  \<open>decode\<close> names, until this is the requested command itself.
\<close>

fun drive ::
  "(command, dstate) spec \<Rightarrow> command \<Rightarrow> int list \<Rightarrow> int list \<Rightarrow> (command, dstate) dram
   \<Rightarrow> (command list \<times> (command, dstate) dram) res" where
  "drive sp cmd ad [] t = Inr ([], t)"
| "drive sp cmd ad (clk # clks) t =
     bindR (decode sp t cmd ad) (\<lambda>c.
     bindR (update sp t c ad clk) (\<lambda>t'.
       if c = cmd then Inr ([c], t')
       else bindR (drive sp cmd ad clks t') (\<lambda>(cs, u). Inr (c # cs, u))))"

fun abs_drive ::
  "nat \<Rightarrow> hmc_org \<Rightarrow> command \<Rightarrow> int list \<Rightarrow> vault_abs \<Rightarrow> command list \<times> vault_abs" where
  "abs_drive 0 org cmd ad A = ([], A)"
| "abs_drive (Suc k) org cmd ad A =
     (let c = abs_decode org cmd ad A; A' = abs_step org c ad A in
      if c = cmd then ([c], A')
      else let (cs, B) = abs_drive k org cmd ad A' in (c # cs, B))"

lemma drive_abs:
  assumes "tree_inv (hmc_spec org speed) H [i] t" and "hist_ok H" and "vault_rel org t A"
    and "bank_addr org ad" and "cmd = RD \<or> cmd = WR"
    and "sorted clks" and "\<forall>k\<in>set clks. 0 \<le> k \<and> (\<forall>x\<in>set H. snd (snd x) \<le> k)"
  shows "\<exists>t'. drive (hmc_spec org speed) cmd ad clks t
      = Inr (fst (abs_drive (length clks) org cmd ad A), t')
    \<and> vault_rel org t' (snd (abs_drive (length clks) org cmd ad A))"
  using assms
proof (induction clks arbitrary: t A H)
  case (Cons k ks)
  let ?sp = "hmc_spec org speed" and ?c = "abs_decode org cmd ad A"
  let ?A = "abs_step org ?c ad A"
  have dec: "decode ?sp t cmd ad = Inr ?c" using decode_access [OF Cons.prems(3-5)] .
  have ok: "hist_ok ((?c, ad, k) # H)"
    using Cons.prems(2,7) by (auto simp: hist_ok_def)
  from hmc.update_inv [OF Cons.prems(1) ok bank_addr_ok [OF Cons.prems(4)]]
  obtain u where u: "update ?sp t ?c ad k = Inr u" "tree_inv ?sp ((?c, ad, k) # H) [i] u" by blast
  have act: "?c = ACT \<longrightarrow> va_rows A (nat (ad ! 1)) (nat (ad ! 2)) = None"
    using Cons.prems(5) by (auto simp: abs_decode_def split: option.splits if_splits)
  have ur: "vault_rel org u ?A"
    using update_vault_rel [OF Cons.prems(3) _ _ act u(1)] Cons.prems(4) by (simp add: bank_addr_def)
  have "\<forall>j\<in>set ks. 0 \<le> j \<and> (\<forall>x\<in>set ((?c, ad, k) # H). snd (snd x) \<le> j)"
    using Cons.prems(6,7) by auto
  from Cons.IH [OF u(2) ok ur Cons.prems(4,5) _ this] Cons.prems(6)
  obtain t' where "drive ?sp cmd ad ks u = Inr (fst (abs_drive (length ks) org cmd ad ?A), t')"
    "vault_rel org t' (snd (abs_drive (length ks) org cmd ad ?A))" by auto
  with dec u(1) ur show ?case by (auto simp: Let_def case_prod_beta)
qed simp

lemma abs_drive_hit:
  assumes "cmd = RD \<or> cmd = WR" "va_power A = PowerUp"
    and "va_rows A (nat (ad ! 1)) (nat (ad ! 2)) = Some (ad ! 3)"
  shows "abs_drive (Suc k) org cmd ad A = ([cmd], A)"
  using assms by (auto simp: abs_decode_def abs_step_def)

lemma abs_drive_closed:
  assumes "cmd = RD \<or> cmd = WR" "va_power A = PowerUp"
    and "va_rows A (nat (ad ! 1)) (nat (ad ! 2)) = None"
  shows "abs_drive (Suc (Suc k)) org cmd ad A
    = ([ACT, cmd], set_row (nat (ad ! 1)) (nat (ad ! 2)) (Some (ad ! 3)) A)"
proof -
  have "abs_decode org cmd ad A = ACT" "ACT \<noteq> cmd" using assms by (auto simp: abs_decode_def)
  then show ?thesis
    using abs_drive_hit [OF assms(1), of "set_row (nat (ad ! 1)) (nat (ad ! 2)) (Some (ad ! 3)) A"]
      assms(2) by (subst abs_drive.simps) (simp add: abs_step_def set_row_def)
qed

lemma abs_drive_conflict:
  assumes "cmd = RD \<or> cmd = WR" "va_power A = PowerUp"
    and "va_rows A (nat (ad ! 1)) (nat (ad ! 2)) = Some r" "r \<noteq> ad ! 3"
  shows "abs_drive (Suc (Suc (Suc k))) org cmd ad A
    = ([PRE, ACT, cmd], set_row (nat (ad ! 1)) (nat (ad ! 2)) (Some (ad ! 3)) A)"
proof -
  let ?A = "set_row (nat (ad ! 1)) (nat (ad ! 2)) None A"
  have "abs_decode org cmd ad A = PRE" "PRE \<noteq> cmd" using assms by (auto simp: abs_decode_def)
  moreover have "abs_step org PRE ad A = ?A" by (simp add: abs_step_def)
  moreover have "va_power ?A = PowerUp" "va_rows ?A (nat (ad ! 1)) (nat (ad ! 2)) = None"
    "set_row (nat (ad ! 1)) (nat (ad ! 2)) (Some (ad ! 3)) ?A
     = set_row (nat (ad ! 1)) (nat (ad ! 2)) (Some (ad ! 3)) A"
    using assms(2) by (simp_all add: set_row_def)
  ultimately show ?thesis
    using abs_drive_closed [OF assms(1), of ?A ad k org] by (subst abs_drive.simps) simp
qed

text \<open>The commands a powered-up vault needs, and the open row they leave.\<close>

definition row_cmds :: "command \<Rightarrow> int list \<Rightarrow> vault_abs \<Rightarrow> command list" where
  "row_cmds cmd ad A =
     (case va_rows A (nat (ad ! 1)) (nat (ad ! 2)) of
        None \<Rightarrow> [ACT, cmd]
      | Some r \<Rightarrow> if r = ad ! 3 then [cmd] else [PRE, ACT, cmd])"

definition power_cmds :: "vault_abs \<Rightarrow> command list" where
  "power_cmds A =
     (if va_power A = PowerUp then [] else if va_power A = SelfRefresh then [SRX] else [PDX])"

lemma abs_drive_powered:
  assumes "cmd = RD \<or> cmd = WR" "va_power A = PowerUp"
  shows "\<exists>B. abs_drive (Suc (Suc (Suc k))) org cmd ad A = (row_cmds cmd ad A, B)
    \<and> va_rows B (nat (ad ! 1)) (nat (ad ! 2)) = Some (ad ! 3) \<and> va_power B = PowerUp"
proof (cases "va_rows A (nat (ad ! 1)) (nat (ad ! 2))")
  case None
  with abs_drive_closed [OF assms None] assms(2) show ?thesis
    by (simp add: row_cmds_def set_row_def del: abs_drive.simps)
next
  case (Some r)
  show ?thesis
  proof (cases "r = ad ! 3")
    case True
    with abs_drive_hit [OF assms] Some assms(2) show ?thesis
      by (simp add: row_cmds_def del: abs_drive.simps)
  next
    case False
    with abs_drive_conflict [OF assms Some] Some assms(2) show ?thesis
      by (simp add: row_cmds_def set_row_def del: abs_drive.simps)
  qed
qed

lemma abs_drive_access:
  assumes "cmd = RD \<or> cmd = WR"
  shows "\<exists>B. abs_drive (Suc (Suc (Suc (Suc k)))) org cmd ad A = (power_cmds A @ row_cmds cmd ad A, B)
    \<and> va_rows B (nat (ad ! 1)) (nat (ad ! 2)) = Some (ad ! 3) \<and> va_power B = PowerUp"
proof (cases "va_power A = PowerUp")
  case True
  with abs_drive_powered [OF assms True, of "Suc k"] show ?thesis
    by (simp add: power_cmds_def del: abs_drive.simps)
next
  case False
  define c where "c = (if va_power A = SelfRefresh then SRX else PDX)"
  let ?A = "A\<lparr>va_power := PowerUp\<rparr>"
  have "abs_decode org cmd ad A = c" "c \<noteq> cmd" "abs_step org c ad A = ?A"
    using assms False by (auto simp: abs_decode_def abs_step_def c_def)
  moreover from abs_drive_powered [OF assms, of ?A k org ad] obtain B where
    "abs_drive (Suc (Suc (Suc k))) org cmd ad ?A = (row_cmds cmd ad ?A, B)"
    "va_rows B (nat (ad ! 1)) (nat (ad ! 2)) = Some (ad ! 3)" "va_power B = PowerUp" by auto
  moreover have "power_cmds A = [c]" "row_cmds cmd ad ?A = row_cmds cmd ad A"
    using False by (simp_all add: power_cmds_def row_cmds_def c_def)
  ultimately show ?thesis by (subst abs_drive.simps) simp
qed

section \<open>Properties\<close>

text \<open>
  C8.  After any sequence of commands issued to a fresh vault (with clocks that never go back
  and addresses inside the vault), no update fails, and \<open>check\<close> allows a command at a clock exactly
  when no timing entry of the HMC tables, read against the whole history of issued commands,
  forbids it at a node on the command's path.
\<close>

theorem hmc_check_legal:
  assumes "hist_ok (rev xs)" and "\<forall>(c, a, k)\<in>set xs. addr_ok (hmc_spec org speed) c a"
    and "addr_ok (hmc_spec org speed) cmd ad" and "ad ! 0 = i" and "0 \<le> clk"
  shows "\<exists>t. issue_all (hmc_spec org speed) xs (new_dram (hmc_spec org speed) 0 i) = Inr t
    \<and> check (hmc_spec org speed) t cmd ad clk = Inr (legal (hmc_spec org speed) (rev xs) cmd ad clk)"
  using hmc.issue_all_new [OF assms(1,2)] hmc.check_legal [OF _ assms(4,5,3)] by blast

theorem hmc_check_legal_witness:
  "\<exists>t. issue_all (hmc_spec HMC_4GB HMC_2500) [(ACT, [0, 1, 1, 5, 0], 10)]
         (new_dram (hmc_spec HMC_4GB HMC_2500) 0 0) = Inr t
    \<and> check (hmc_spec HMC_4GB HMC_2500) t RD [0, 1, 1, 5, 0] 30
      = Inr (legal (hmc_spec HMC_4GB HMC_2500) (rev [(ACT, [0, 1, 1, 5, 0], 10)]) RD [0, 1, 1, 5, 0] 30)"
  by (rule hmc_check_legal)
    (auto simp: hist_ok_def intro!: bank_addr_ok
      simp: bank_addr_def nbg_def nbank_def org_entry.defs)

text \<open>
  C9.  On the same vaults \<open>get_next\<close> returns the first clock, not before the current one, at
  which \<open>check\<close> allows the command.
\<close>

theorem hmc_get_next_first:
  assumes "hist_ok (rev xs)" and "\<forall>(c, a, k)\<in>set xs. addr_ok (hmc_spec org speed) c a"
    and "addr_ok (hmc_spec org speed) cmd ad" and "ad ! 0 = i"
    and "issue_all (hmc_spec org speed) xs (new_dram (hmc_spec org speed) 0 i) = Inr t"
  shows "\<exists>k. get_next (hmc_spec org speed) t cmd ad = Inr k
    \<and> (\<forall>clk\<ge>0. k \<le> clk \<longleftrightarrow>
         dn_cur_clk (dinfo t) \<le> clk \<and> check (hmc_spec org speed) t cmd ad clk = Inr True)"
proof -
  have inv: "tree_inv (hmc_spec org speed) (rev xs) [i] t"
    using hmc.issue_all_new [OF assms(1,2), of i] assms(5) by force
  have "check (hmc_spec org speed) t cmd ad clk = Inr True \<longleftrightarrow> legal (hmc_spec org speed) (rev xs) cmd ad clk"
    if "0 \<le> clk" for clk
    using hmc.check_legal [OF inv assms(4) that assms(3)] by simp
  with hmc.get_next_legal [OF inv assms(4,3)] show ?thesis by auto
qed

theorem hmc_get_next_first_witness:
  "\<exists>t k. issue_all (hmc_spec HMC_4GB HMC_2500) [(ACT, [0, 1, 1, 5, 0], 10)] (new_dram (hmc_spec HMC_4GB HMC_2500) 0 0) = Inr t
    \<and> get_next (hmc_spec HMC_4GB HMC_2500) t RD [0, 1, 1, 5, 0] = Inr k
    \<and> (\<forall>clk\<ge>0. k \<le> clk \<longleftrightarrow>
         dn_cur_clk (dinfo t) \<le> clk \<and> check (hmc_spec HMC_4GB HMC_2500) t RD [0, 1, 1, 5, 0] clk = Inr True)"
proof -
  let ?xs = "[(ACT, [0, 1, 1, 5, 0], 10)]"
  have h: "hist_ok (rev ?xs)" by (simp add: hist_ok_def)
  have a: "addr_ok (hmc_spec HMC_4GB HMC_2500) c [0, 1, 1, 5, 0]" for c
    by (rule bank_addr_ok) (simp add: bank_addr_def nbg_def nbank_def org_entry.defs)
  then have xs: "\<forall>(c, a, k)\<in>set ?xs. addr_ok (hmc_spec HMC_4GB HMC_2500) c a" by simp
  obtain t where t: "issue_all (hmc_spec HMC_4GB HMC_2500) ?xs (new_dram (hmc_spec HMC_4GB HMC_2500) 0 0) = Inr t"
    using hmc.issue_all_new [OF h xs, of 0] by blast
  from hmc_get_next_first [OF h xs a _ t] t show ?thesis by auto
qed

text \<open>
  C10.  The four-activate window: in every run in which each command was issued only after
  \<open>check\<close> allowed it, an activation comes at least \<open>nFAW\<close> cycles after the fourth activation
  before it in the same vault.
\<close>

theorem hmc_four_activate_window:
  assumes "hist_ok (rev xs)"
    and "\<forall>(c, a, k)\<in>set xs. addr_ok (hmc_spec org speed) c a \<and> a ! 0 = i"
    and "issue_checked (hmc_spec org speed) xs (new_dram (hmc_spec org speed) 0 i) = Inr t"
    and "xs = ys @ (ACT, ad, clk) # zs" and "4 \<le> length (hist (rev ys) [i] ACT)"
  shows "hist (rev ys) [i] ACT ! 3 + h_nFAW (hmc_speed_table speed) \<le> clk"
proof -
  let ?sp = "hmc_spec org speed"
  have inv: "tree_inv ?sp [] [i] (new_dram ?sp 0 i)" using hmc.tree_inv_new [of "[]"] by simp
  have leg: "legal ?sp (rev ys) ACT ad clk"
    using hmc.issue_checked_legal [OF inv _ assms(2,3,4)] assms(1) by simp
  have ad: "addr_ok ?sp ACT ad" "ad ! 0 = i" using assms(2,4) by auto
  then have path: "take (Suc 0) ad = [i]" "0 < length ad" by (cases ad; auto simp: addr_ok_def)+
  let ?e = "\<lparr>te_cmd = ACT, te_dist = 4, te_val = h_nFAW (hmc_speed_table speed), te_sibling = False\<rparr>"
  have "?e \<in> set (sp_timing ?sp 0 ACT)"
    by (simp add: hmc_timing_def entries_for_set hmc_timing_Vault_def push_def)
  from hmc.legal_entry [OF leg this] path assms(5) show ?thesis by simp
qed

theorem hmc_four_activate_window_witness:
  "hist (rev [(ACT, [0, 0, 0, 1, 0], 0), (ACT, [0, 1, 0, 1, 0], 10),
              (ACT, [0, 2, 0, 1, 0], 20), (ACT, [0, 3, 0, 1, 0], 30)]) [0] ACT ! 3
   + h_nFAW (hmc_speed_table HMC_2500) \<le> (40::int)"
proof -
  let ?ys = "[(ACT, [0, 0, 0, 1, 0], 0), (ACT, [0, 1, 0, 1, 0], 10),
              (ACT, [0, 2, 0, 1, 0], 20), (ACT, [0, 3, 0, 1, 0], 30)]"
  let ?xs = "?ys @ [(ACT, [0, 0, 1, 1, 0], 40)]"
  have "\<not> isl (issue_checked (hmc_spec HMC_4GB HMC_2500) ?xs (new_dram (hmc_spec HMC_4GB HMC_2500) 0 0))"
    by code_simp
  then obtain t where "issue_checked (hmc_spec HMC_4GB HMC_2500) ?xs
      (new_dram (hmc_spec HMC_4GB HMC_2500) 0 0) = Inr t" using not_isl_Inr by blast
  then show ?thesis
    by (intro hmc_four_activate_window [where zs = "[]"])
      (auto simp: hist_ok_def hist_def bank_addr_def nbg_def nbank_def org_entry.defs intro!: bank_addr_ok)
qed

text \<open>
  C15.  The data bus of a vault: in every run in which each command was issued only after \<open>check\<close>
  allowed it, the bursts of two column accesses do not overlap; the burst of the later access
  starts no earlier than the burst of the earlier one ends.
\<close>

theorem hmc_bursts_apart:
  assumes "hist_ok (rev xs)"
    and "\<forall>(c, a, k)\<in>set xs. addr_ok (hmc_spec org speed) c a \<and> a ! 0 = i"
    and "issue_checked (hmc_spec org speed) xs (new_dram (hmc_spec org speed) 0 i) = Inr t"
    and "xs = ys @ (c, ad, clk) # zs" and "(c0, a, k) \<in> set ys"
    and "c0 \<in> set cas_commands" "c \<in> set cas_commands"
  shows "k + cas_lat (h_nCL (hmc_speed_table speed)) (h_nCWL (hmc_speed_table speed)) c0 + h_nBL (hmc_speed_table speed)
    \<le> clk + cas_lat (h_nCL (hmc_speed_table speed)) (h_nCWL (hmc_speed_table speed)) c"
  using hmc_bus.bursts_apart [OF assms] .

theorem hmc_bursts_apart_witness:
  "17 + cas_lat (h_nCL (hmc_speed_table HMC_2500)) (h_nCWL (hmc_speed_table HMC_2500)) RD + h_nBL (hmc_speed_table HMC_2500)
   \<le> 27 + cas_lat (h_nCL (hmc_speed_table HMC_2500)) (h_nCWL (hmc_speed_table HMC_2500)) WR"
proof -
  let ?ys = "[(ACT, [0, 0, 0, 1, 0], 0), (RD, [0, 0, 0, 1, 0], 17)]"
  let ?xs = "?ys @ [(WR, [0, 0, 0, 1, 0], 27)]"
  have "\<not> isl (issue_checked (hmc_spec HMC_4GB HMC_2500) ?xs (new_dram (hmc_spec HMC_4GB HMC_2500) 0 0))"
    by code_simp
  then obtain t where "issue_checked (hmc_spec HMC_4GB HMC_2500) ?xs
      (new_dram (hmc_spec HMC_4GB HMC_2500) 0 0) = Inr t" using not_isl_Inr by blast
  then show ?thesis
    by (intro hmc_bursts_apart [where xs = ?xs and ys = ?ys and zs = "[]" and i = 0 and ad = "[0, 0, 0, 1, 0]"
          and a = "[0, 0, 0, 1, 0]" and t = t and org = HMC_4GB])
      (auto simp: hist_ok_def bank_addr_def nbg_def nbank_def org_entry.defs intro!: bank_addr_ok)
qed

text \<open>
  C11.  The vault refines its abstract specification: for every kind of request, the command that
  \<open>decode\<close> chooses is the one the specification chooses from the power state and the open rows, and
  after \<open>update\<close> with it the vault represents the specified next state.  In particular a bank
  is always closed with no row, or open with exactly one row.
\<close>

theorem hmc_vault_refines:
  assumes "vault_rel org t A" and "cmd \<in> {RD, WR, REF, PDE, SRE}" and "length ad = 5"
    and "cmd \<in> {RD, WR} \<longrightarrow> bank_addr org ad"
    and "decode (hmc_spec org speed) t cmd ad = Inr c"
    and "update (hmc_spec org speed) t c ad clk = Inr t'"
  shows "c = abs_decode org cmd ad A \<and> vault_rel org t' (abs_step org c ad A)"
proof -
  have c: "c = abs_decode org cmd ad A"
    using assms(2,4,5) decode_access [OF assms(1)] decode_vault [OF assms(1,3)] by auto
  have "bank_cmd c \<longrightarrow> cmd \<in> {RD, WR}"
    using assms(2) by (auto simp: c abs_decode_def bank_cmd_def split: if_splits)
  moreover have "c = ACT \<longrightarrow> va_rows A (nat (ad ! 1)) (nat (ad ! 2)) = None"
    using assms(2) by (auto simp: c abs_decode_def split: option.splits if_splits)
  ultimately show ?thesis
    using update_vault_rel [OF assms(1,3) _ _ assms(6)] assms(4) c by blast
qed

theorem hmc_vault_refines_witness:
  "\<exists>c t'. decode (hmc_spec HMC_4GB HMC_2500) (new_dram (hmc_spec HMC_4GB HMC_2500) 0 0) RD [0, 1, 1, 5, 0] = Inr c
     \<and> update (hmc_spec HMC_4GB HMC_2500) (new_dram (hmc_spec HMC_4GB HMC_2500) 0 0) c [0, 1, 1, 5, 0] 7 = Inr t'
     \<and> c = ACT
     \<and> vault_rel HMC_4GB t'
         (abs_step HMC_4GB c [0, 1, 1, 5, 0] \<lparr>va_power = PowerUp, va_rows = (\<lambda>_ _. None)\<rparr>)"
proof -
  let ?sp = "hmc_spec HMC_4GB HMC_2500" and ?ad = "[0, 1, 1, 5, 0 :: int]"
  let ?t = "new_dram ?sp 0 0" and ?A = "\<lparr>va_power = PowerUp, va_rows = (\<lambda>_ _. None :: int option)\<rparr>"
  have dec: "decode ?sp ?t RD ?ad = Inr ACT" by code_simp
  have "\<not> isl (update ?sp ?t ACT ?ad 7)" by code_simp
  then obtain t' where t': "update ?sp ?t ACT ?ad 7 = Inr t'" using not_isl_Inr by blast
  have "ACT = abs_decode HMC_4GB RD ?ad ?A \<and> vault_rel HMC_4GB t' (abs_step HMC_4GB ACT ?ad ?A)"
    by (rule hmc_vault_refines [OF vault_rel_new _ _ _ dec t'])
      (simp_all add: bank_addr_def nbg_def nbank_def org_entry.defs)
  with dec t' show ?thesis by blast
qed

text \<open>
  C12.  Every read or write is reached: issuing whatever \<open>decode\<close> names, at any four clocks that
  never go back, ends with the requested command itself, with the addressed row open and the
  vault powered up.  The commands on the way are exactly: one exit from power-down or self-refresh
  if needed, then nothing on a row hit, \<open>ACT\<close> on a closed bank, \<open>PRE\<close> and \<open>ACT\<close> on a conflict.
\<close>

theorem hmc_access_reached:
  assumes "tree_inv (hmc_spec org speed) H [i] t" and "hist_ok H" and "vault_rel org t A"
    and "bank_addr org ad" and "cmd = RD \<or> cmd = WR"
    and "sorted clks" and "\<forall>k\<in>set clks. 0 \<le> k \<and> (\<forall>x\<in>set H. snd (snd x) \<le> k)"
    and "4 \<le> length clks"
  shows "\<exists>t' B. drive (hmc_spec org speed) cmd ad clks t = Inr (power_cmds A @ row_cmds cmd ad A, t')
    \<and> vault_rel org t' B \<and> va_power B = PowerUp
    \<and> va_rows B (nat (ad ! 1)) (nat (ad ! 2)) = Some (ad ! 3)"
proof -
  obtain k where "length clks = Suc (Suc (Suc (Suc k)))"
    using le_Suc_ex [OF assms(8)] by (auto simp: eval_nat_numeral)
  with abs_drive_access [OF assms(5), of k org ad A] drive_abs [OF assms(1-7)]
  show ?thesis by (auto simp del: abs_drive.simps)
qed

theorem hmc_access_reached_witness:
  "\<exists>t' B. drive (hmc_spec HMC_4GB HMC_2500) WR [0, 1, 1, 5, 0] [0, 100, 200, 300]
            (new_dram (hmc_spec HMC_4GB HMC_2500) 0 0) = Inr ([ACT, WR], t')
    \<and> vault_rel HMC_4GB t' B \<and> va_power B = PowerUp \<and> va_rows B 1 1 = Some 5"
  using hmc_access_reached [of HMC_4GB HMC_2500 "[]" 0 "new_dram (hmc_spec HMC_4GB HMC_2500) 0 0"
      "\<lparr>va_power = PowerUp, va_rows = (\<lambda>_ _. None)\<rparr>" "[0, 1, 1, 5, 0]" WR "[0, 100, 200, 300]"]
    hmc.tree_inv_new [of "[]" 0 HMC_4GB HMC_2500 0] vault_rel_new [of HMC_4GB HMC_2500 0]
  by (simp add: hist_ok_def bank_addr_def nbg_def nbank_def org_entry.defs power_cmds_def row_cmds_def)

end
