(* ===== verification/Ram_Map.thy ===== *)
theory Ram_Map
  imports Ram_Prelude "HOL-Library.List_Lexorder" "HOL-Library.Product_Lexorder"
begin

text \<open>
  \<open>std::map\<close> as the program uses it: an association list with strictly increasing keys, because the
  row policies and the row table iterate over it in key order.  The locale \<open>std_map\<close> states what
  clients rely on; the list representation is an interpretation of it.
\<close>

type_synonym ('k, 'v) omap = "('k \<times> 'v) list"

text \<open>\<open>m[k] = v\<close>\<close>

fun om_put :: "'k::linorder \<Rightarrow> 'v \<Rightarrow> ('k, 'v) omap \<Rightarrow> ('k, 'v) omap" where
  "om_put k v [] = [(k, v)]"
| "om_put k v ((a, b) # m) =
     (if k < a then (k, v) # (a, b) # m
      else if k = a then (k, v) # m
      else (a, b) # om_put k v m)"

text \<open>\<open>m.insert({k, v})\<close>: an existing entry stays.\<close>

definition om_insert :: "'k::linorder \<Rightarrow> 'v \<Rightarrow> ('k, 'v) omap \<Rightarrow> ('k, 'v) omap" where
  "om_insert k v m = (case map_of m k of None \<Rightarrow> om_put k v m | Some _ \<Rightarrow> m)"

definition om_erase :: "'k::linorder \<Rightarrow> ('k, 'v) omap \<Rightarrow> ('k, 'v) omap" where
  "om_erase k m = filter (\<lambda>p. fst p \<noteq> k) m"

text \<open>\<open>m[k]\<close> as a value: a missing entry is created with the default value.\<close>

definition om_at :: "'v \<Rightarrow> 'k::linorder \<Rightarrow> ('k, 'v) omap \<Rightarrow> 'v \<times> ('k, 'v) omap" where
  "om_at d k m = (case map_of m k of Some v \<Rightarrow> (v, m) | None \<Rightarrow> (d, om_put k d m))"

definition om_ok :: "('k::linorder, 'v) omap \<Rightarrow> bool" where
  "om_ok m \<longleftrightarrow> sorted_wrt (<) (map fst m)"

locale std_map =
  fixes find :: "'m \<Rightarrow> 'k \<Rightarrow> 'v option" and put :: "'k \<Rightarrow> 'v \<Rightarrow> 'm \<Rightarrow> 'm"
    and ins :: "'k \<Rightarrow> 'v \<Rightarrow> 'm \<Rightarrow> 'm" and erase :: "'k \<Rightarrow> 'm \<Rightarrow> 'm" and ok :: "'m \<Rightarrow> bool"
  assumes find_put: "find (put k v m) k' = (if k' = k then Some v else find m k')"
    and find_ins: "find (ins k v m) k' = (if k' = k \<and> find m k = None then Some v else find m k')"
    and find_erase: "find (erase k m) k' = (if k' = k then None else find m k')"
    and ok_put: "ok m \<Longrightarrow> ok (put k v m)" and ok_ins: "ok m \<Longrightarrow> ok (ins k v m)"
    and ok_erase: "ok m \<Longrightarrow> ok (erase k m)"
begin

lemma dom_put: "dom (find (put k v m)) = insert k (dom (find m))"
  by (auto simp: dom_def find_put)

lemma dom_ins: "dom (find (ins k v m)) = insert k (dom (find m))"
  by (auto simp: dom_def find_ins)

lemma dom_erase: "dom (find (erase k m)) = dom (find m) - {k}"
  by (auto simp: dom_def find_erase)

lemma find_put_erase: "find m k = None \<Longrightarrow> find (erase k (put k v m)) = find m"
  by (auto simp: fun_eq_iff find_erase find_put)

end

lemma map_of_om_put: "map_of (om_put k v m) k' = (if k' = k then Some v else map_of m k')"
  by (induction k v m rule: om_put.induct) auto

lemma fst_om_put: "set (map fst (om_put k v m)) = insert k (set (map fst m))"
  by (induction k v m rule: om_put.induct) auto

lemma om_ok_put: "om_ok m \<Longrightarrow> om_ok (om_put k v m)"
proof (induction k v m rule: om_put.induct)
  case (2 k v a b m)
  then show ?case using fst_om_put [of k v m] by (auto simp: om_ok_def)
qed (simp add: om_ok_def)

interpretation om: std_map map_of om_put om_insert om_erase om_ok
proof
  show "map_of (om_erase k m) k' = (if k' = k then None else map_of m k')"
    for k k' :: 'a and m :: "('a, 'b) omap"
    by (induction m) (auto simp: om_erase_def)
  show "om_ok (om_erase k m)" if "om_ok m" for k :: 'a and m :: "('a, 'b) omap"
    using that by (induction m) (auto simp: om_ok_def om_erase_def)
qed (auto simp: map_of_om_put om_insert_def om_ok_put split: option.split)

end
