(* ===== verification/Scheduler.thy ===== *)
theory Scheduler
  imports HMC_Spec Ram_Map
begin

text \<open>
  \<open>ramulator/src/Scheduler.h\<close>: the request scheduler, the row policies and the row table, generic
  in the standard, with the controller queries they call (\<open>get_first_cmd\<close>, \<open>is_ready\<close>,
  \<open>is_row_hit\<close>, \<open>is_row_open\<close> of \<open>HMC_Controller.h\<close> and \<open>Controller.h\<close>).  A list iterator is an
  index into the queue, \<open>q.end()\<close> is \<open>None\<close>.  \<open>get_hits\<close> writes to the row table (it reads through
  \<open>table[rowgroup]\<close>), so the comparisons return the table as well.
\<close>

section \<open>Queries of the controller\<close>

record ('c, 's) env =
  ev_spec :: "('c, 's) spec"
  ev_channel :: "('c, 's) dram"
  ev_clk :: int
  ev_no_DRAM_latency :: bool

definition get_first_cmd :: "('c, 's) env \<Rightarrow> request \<Rightarrow> 'c res" where
  "get_first_cmd ev req =
     (let cmd = sp_translate (ev_spec ev) (rq_type req) in
      if \<not> ev_no_DRAM_latency ev then decode (ev_spec ev) (ev_channel ev) cmd (rq_addr_vec req)
      else Inr cmd)"

definition is_ready_cmd :: "('c, 's) env \<Rightarrow> 'c \<Rightarrow> int list \<Rightarrow> bool res" where
  "is_ready_cmd ev cmd ad = check (ev_spec ev) (ev_channel ev) cmd ad (ev_clk ev)"

definition is_ready :: "('c, 's) env \<Rightarrow> request \<Rightarrow> bool res" where
  "is_ready ev req =
     bindR (get_first_cmd ev req) (\<lambda>cmd. is_ready_cmd ev cmd (rq_addr_vec req))"

definition is_row_hit :: "('c, 's) env \<Rightarrow> request \<Rightarrow> bool res" where
  "is_row_hit ev req =
     check_row_hit (ev_spec ev) (ev_channel ev) (sp_translate (ev_spec ev) (rq_type req)) (rq_addr_vec req)"

definition is_row_open :: "('c, 's) env \<Rightarrow> request \<Rightarrow> bool res" where
  "is_row_open ev req =
     check_row_open (ev_spec ev) (ev_channel ev) (sp_translate (ev_spec ev) (rq_type req)) (rq_addr_vec req)"

section \<open>The row table\<close>

record row_entry =
  re_row :: int
  re_hits :: int
  re_timestamp :: int

type_synonym row_table = "(int list, row_entry) omap"

text \<open>
  \<open>std::equal\<close> on the first \<open>n\<close> components: it stops at the first difference and has undefined
  behaviour when it runs past the end of one of the vectors.
\<close>

fun equalR :: "nat \<Rightarrow> int list \<Rightarrow> int list \<Rightarrow> bool res" where
  "equalR 0 as ks = Inr True"
| "equalR (Suc n) (a # as) (k # ks) = (if a = k then equalR n as ks else Inr False)"
| "equalR (Suc n) _ _ = Inl OutOfRange"

fun rt_close :: "nat \<Rightarrow> int list \<Rightarrow> row_table \<Rightarrow> row_table res" where
  "rt_close n ad [] = Inr []"
| "rt_close n ad (p # ps) =
     bindR (equalR n ad (fst p)) (\<lambda>m.
     bindR (rt_close n ad ps) (\<lambda>ps'. Inr (if m then ps' else p # ps')))"

definition rt_access :: "int list \<Rightarrow> int \<Rightarrow> int \<Rightarrow> row_table \<Rightarrow> row_table res" where
  "rt_access rowgroup row clk table =
     (case map_of table rowgroup of
        None \<Rightarrow> Inl AssertFailed
      | Some e \<Rightarrow>
          bindR (guardR (re_row e = row)) (\<lambda>_.
            Inr (om_put rowgroup (e\<lparr>re_hits := re_hits e + 1, re_timestamp := clk\<rparr>) table)))"

definition rt_update ::
  "('c, 's) spec \<Rightarrow> 'c \<Rightarrow> int list \<Rightarrow> int \<Rightarrow> row_table \<Rightarrow> row_table res" where
  "rt_update sp cmd ad clk table =
     bindR (nthR ad (sp_row_level sp)) (\<lambda>row.
       let rowgroup = take (sp_row_level sp) ad;
           t1 = (if sp_is_opening sp cmd
                 then om_insert rowgroup \<lparr>re_row = row, re_hits = 0, re_timestamp = clk\<rparr> table
                 else table)
       in bindR (if sp_is_accessing sp cmd then rt_access rowgroup row clk t1 else Inr t1) (\<lambda>t2.
          if sp_is_closing sp cmd then
            bindR (rt_close (Suc (sp_scope sp cmd)) ad t2) (\<lambda>t3.
            bindR (guardR (length t3 < length t2)) (\<lambda>_. Inr t3))
          else Inr t2))"

definition get_hits :: "('c, 's) spec \<Rightarrow> int list \<Rightarrow> row_table \<Rightarrow> (int \<times> row_table) res" where
  "get_hits sp ad table =
     bindR (nthR ad (sp_row_level sp)) (\<lambda>row.
       let rowgroup = take (sp_row_level sp) ad;
           found = map_of table rowgroup;
           (entry, table') = om_at \<lparr>re_row = 0, re_hits = 0, re_timestamp = 0\<rparr> rowgroup table
       in Inr (if found = None \<or> re_row entry \<noteq> row then 0 else re_hits entry, table'))"

section \<open>The scheduler\<close>

datatype sched_type = FCFS | FRFCFS | FRFCFS_Cap | FRFCFS_PriorHit

text \<open>\<open>a && b\<close>\<close>

definition andR :: "bool res \<Rightarrow> bool res \<Rightarrow> bool res" where
  "andR a b = bindR a (\<lambda>x. if x then b else Inr False)"

definition pick_first :: "bool \<Rightarrow> bool \<Rightarrow> request \<Rightarrow> request \<Rightarrow> bool" where
  "pick_first ready1 ready2 req1 req2 =
     (if ready1 \<noteq> ready2 then ready1 else rq_arrive req1 \<le> rq_arrive req2)"

definition ready_capped ::
  "('c, 's) env \<Rightarrow> int \<Rightarrow> request \<Rightarrow> bool \<Rightarrow> row_table \<Rightarrow> (bool \<times> row_table) res" where
  "ready_capped ev cap req ready table =
     (if ready then
        bindR (get_hits (ev_spec ev) (rq_addr_vec req) table) (\<lambda>(h, table'). Inr (h \<le> cap, table'))
      else Inr (False, table))"

text \<open>The result tells whether the first of the two requests wins.\<close>

fun compare ::
  "('c, 's) env \<Rightarrow> sched_type \<Rightarrow> int \<Rightarrow> request \<Rightarrow> request \<Rightarrow> row_table \<Rightarrow> (bool \<times> row_table) res" where
  "compare ev FCFS cap req1 req2 table = Inr (rq_arrive req1 \<le> rq_arrive req2, table)"
| "compare ev FRFCFS cap req1 req2 table =
     bindR (is_ready ev req1) (\<lambda>ready1. bindR (is_ready ev req2) (\<lambda>ready2.
       Inr (pick_first ready1 ready2 req1 req2, table)))"
| "compare ev FRFCFS_Cap cap req1 req2 table =
     bindR (is_ready ev req1) (\<lambda>ready1. bindR (is_ready ev req2) (\<lambda>ready2.
     bindR (ready_capped ev cap req1 ready1 table) (\<lambda>(r1, table1).
     bindR (ready_capped ev cap req2 ready2 table1) (\<lambda>(r2, table2).
       Inr (pick_first r1 r2 req1 req2, table2)))))"
| "compare ev FRFCFS_PriorHit cap req1 req2 table =
     bindR (andR (is_ready ev req1) (is_row_hit ev req1)) (\<lambda>ready1.
     bindR (andR (is_ready ev req2) (is_row_hit ev req2)) (\<lambda>ready2.
       Inr (pick_first ready1 ready2 req1 req2, table)))"

fun best_from ::
  "(request \<Rightarrow> request \<Rightarrow> row_table \<Rightarrow> (bool \<times> row_table) res) \<Rightarrow> request list \<Rightarrow> nat list \<Rightarrow> nat
   \<Rightarrow> row_table \<Rightarrow> (nat \<times> row_table) res" where
  "best_from cmp q [] head table = Inr (head, table)"
| "best_from cmp q (itr # itrs) head table =
     bindR (cmp (q ! head) (q ! itr) table) (\<lambda>(first, table').
       best_from cmp q itrs (if first then head else itr) table')"

text \<open>The bank (or subarray) of a request: the components down to the scope of \<open>PRE\<close>.\<close>

definition pre_group :: "('c, 's) env \<Rightarrow> request \<Rightarrow> int list" where
  "pre_group ev req = take (Suc (sp_scope (ev_spec ev) (sp_PRE (ev_spec ev)))) (rq_addr_vec req)"

fun hit_groups :: "('c, 's) env \<Rightarrow> request list \<Rightarrow> int list list res" where
  "hit_groups ev [] = Inr []"
| "hit_groups ev (req # q) =
     bindR (is_row_hit ev req) (\<lambda>hit.
     bindR (hit_groups ev q) (\<lambda>gs. Inr (if hit then pre_group ev req # gs else gs)))"

definition violates_hit :: "('c, 's) env \<Rightarrow> int list list \<Rightarrow> request \<Rightarrow> bool res" where
  "violates_hit ev hits req =
     bindR (is_row_hit ev req) (\<lambda>hit.
       if \<not> hit then bindR (is_row_open ev req) (\<lambda>opened. Inr (opened \<and> pre_group ev req \<in> set hits))
       else Inr False)"

fun nonviolating ::
  "('c, 's) env \<Rightarrow> int \<Rightarrow> request list \<Rightarrow> int list list \<Rightarrow> nat list \<Rightarrow> nat option \<Rightarrow> row_table
   \<Rightarrow> (nat option \<times> row_table) res" where
  "nonviolating ev cap q hits [] head table = Inr (head, table)"
| "nonviolating ev cap q hits (itr # itrs) head table =
     bindR (violates_hit ev hits (q ! itr)) (\<lambda>violate_hit.
       if violate_hit then nonviolating ev cap q hits itrs head table
       else (case head of
               None \<Rightarrow> nonviolating ev cap q hits itrs (Some itr) table
             | Some h \<Rightarrow>
                 bindR (compare ev FRFCFS cap (q ! h) (q ! itr) table) (\<lambda>(first, table').
                   nonviolating ev cap q hits itrs (Some (if first then h else itr)) table')))"

definition get_head ::
  "('c, 's) env \<Rightarrow> sched_type \<Rightarrow> int \<Rightarrow> request list \<Rightarrow> row_table \<Rightarrow> (nat option \<times> row_table) res" where
  "get_head ev ty cap q table =
     (if q = [] then Inr (None, table)
      else if ty \<noteq> FRFCFS_PriorHit then
        bindR (best_from (compare ev ty cap) q [1..<length q] 0 table) (\<lambda>(head, table').
          Inr (Some head, table'))
      else
        bindR (best_from (compare ev FRFCFS_PriorHit cap) q [1..<length q] 0 table) (\<lambda>(head, table').
        bindR (andR (is_ready ev (q ! head)) (is_row_hit ev (q ! head))) (\<lambda>best.
          if best then Inr (Some head, table')
          else bindR (hit_groups ev q) (\<lambda>hits.
                 nonviolating ev cap q hits [0..<length q] None table'))))"

section \<open>Row policies\<close>

datatype policy_type = ClosedRow | OpenedRow | TimeoutRow

fun first_ready :: "('c, 's) env \<Rightarrow> 'c \<Rightarrow> row_table \<Rightarrow> int list res" where
  "first_ready ev cmd [] = Inr []"
| "first_ready ev cmd (kv # kvs) =
     bindR (is_ready_cmd ev cmd (fst kv)) (\<lambda>ready.
       if \<not> ready then first_ready ev cmd kvs else Inr (fst kv))"

fun first_expired :: "('c, 's) env \<Rightarrow> int \<Rightarrow> 'c \<Rightarrow> row_table \<Rightarrow> int list res" where
  "first_expired ev tmo cmd [] = Inr []"
| "first_expired ev tmo cmd (kv # kvs) =
     (if ev_clk ev - re_timestamp (snd kv) < tmo then first_expired ev tmo cmd kvs
      else bindR (is_ready_cmd ev cmd (fst kv)) (\<lambda>ready.
             if \<not> ready then first_expired ev tmo cmd kvs else Inr (fst kv)))"

fun get_victim :: "('c, 's) env \<Rightarrow> policy_type \<Rightarrow> int \<Rightarrow> 'c \<Rightarrow> row_table \<Rightarrow> int list res" where
  "get_victim ev ClosedRow tmo cmd table = first_ready ev cmd table"
| "get_victim ev OpenedRow tmo cmd table = Inr []"
| "get_victim ev TimeoutRow tmo cmd table = first_expired ev tmo cmd table"

section \<open>What the scheduler chooses\<close>

text \<open>
  Every comparison prefers the smaller of two keys, readiness first and then age; a scan with such
  a comparison returns the first index with the least key.
\<close>

definition sched_key :: "(request \<Rightarrow> bool) \<Rightarrow> request \<Rightarrow> bool \<times> int" where
  "sched_key pri req = (\<not> pri req, rq_arrive req)"

lemma pick_first_key:
  "pick_first (pri req1) (pri req2) req1 req2 \<longleftrightarrow> sched_key pri req1 \<le> sched_key pri req2"
  by (auto simp: pick_first_def sched_key_def)

definition least_index :: "('a \<Rightarrow> 'k::linorder) \<Rightarrow> 'a list \<Rightarrow> nat set \<Rightarrow> nat \<Rightarrow> bool" where
  "least_index key q I h \<longleftrightarrow>
     h \<in> I \<and> (\<forall>i\<in>I. key (q ! h) \<le> key (q ! i) \<and> (i < h \<longrightarrow> key (q ! h) < key (q ! i)))"

lemma best_from_least:
  fixes key :: "request \<Rightarrow> 'k::linorder"
  assumes "\<And>i j tb. i \<in> insert h (set is) \<Longrightarrow> j \<in> set is \<Longrightarrow>
      cmp (q ! i) (q ! j) tb = Inr (key (q ! i) \<le> key (q ! j), tb)"
    and "sorted_wrt (<) (h # is)"
  shows "\<exists>h'. best_from cmp q is h tb = Inr (h', tb) \<and> least_index key q (insert h (set is)) h'"
  using assms
proof (induction "is" arbitrary: h)
  case Nil
  then show ?case by (simp add: least_index_def)
next
  case (Cons i "is")
  let ?m = "if key (q ! h) \<le> key (q ! i) then h else i"
  have "\<exists>h'. best_from cmp q is ?m tb = Inr (h', tb) \<and> least_index key q (insert ?m (set is)) h'"
    using Cons.prems by (intro Cons.IH) auto
  then obtain h' where h': "best_from cmp q is ?m tb = Inr (h', tb)"
    "least_index key q (insert ?m (set is)) h'" by blast
  have run: "best_from cmp q (i # is) h tb = best_from cmp q is ?m tb"
    using Cons.prems(1) [of h i tb] by simp
  have lt: "h < i" "\<And>j. j \<in> set is \<Longrightarrow> h < j" using Cons.prems(2) by auto
  have "least_index key q (insert h (set (i # is))) h'"
  proof (cases "key (q ! h) \<le> key (q ! i)")
    case True
    with h'(2) have l: "least_index key q (insert h (set is)) h'" by simp
    have "key (q ! h') \<le> key (q ! i)" using l True by (auto simp: least_index_def)
    moreover have "key (q ! h') < key (q ! i)" if "i < h'"
      using l True lt(1) that less_le_trans by (auto simp: least_index_def)
    ultimately show ?thesis using l by (auto simp: least_index_def)
  next
    case False
    with h'(2) have l: "least_index key q (insert i (set is)) h'" by simp
    then have "key (q ! h') < key (q ! h)" using False by (auto simp: least_index_def)
    then show ?thesis using l by (auto simp: least_index_def)
  qed
  moreover have "best_from cmp q (i # is) h tb = Inr (h', tb)" unfolding run by (rule h'(1))
  ultimately show ?case by blast
qed

lemma best_from_head:
  assumes "\<And>r1 r2 tb. r1 \<in> set q \<Longrightarrow> r2 \<in> set q \<Longrightarrow> cmp r1 r2 tb = Inr (key r1 \<le> (key r2 :: 'k::linorder), tb)"
    and "q \<noteq> []"
  shows "\<exists>h. best_from cmp q [1..<length q] 0 tb = Inr (h, tb) \<and> least_index key q {0..<length q} h"
proof -
  have "insert 0 (set [1..<length q]) = {0..<length q}" using assms(2) by (cases q) auto
  moreover have "sorted_wrt (<) (0 # [1..<length q])" by simp
  ultimately show ?thesis
    using best_from_least [of 0 "[1..<length q]" cmp q key tb] assms by (auto simp: Suc_le_eq)
qed

lemma compare_FRFCFS_key:
  assumes "is_ready ev r1 = Inr (rdy r1)" "is_ready ev r2 = Inr (rdy r2)"
  shows "compare ev FRFCFS cap r1 r2 tb = Inr (sched_key rdy r1 \<le> sched_key rdy r2, tb)"
  using assms by (simp add: pick_first_key)

lemma andR_simps [simp]:
  "andR (Inr a) (Inr b) = Inr (a \<and> b)" "andR (Inr False) c = Inr False"
  by (simp_all add: andR_def)

lemma compare_PriorHit_key:
  assumes "is_ready ev r1 = Inr (rdy r1)" "is_ready ev r2 = Inr (rdy r2)"
    and "is_row_hit ev r1 = Inr (hit r1)" "is_row_hit ev r2 = Inr (hit r2)"
  shows "compare ev FRFCFS_PriorHit cap r1 r2 tb =
    Inr (sched_key (\<lambda>r. rdy r \<and> hit r) r1 \<le> sched_key (\<lambda>r. rdy r \<and> hit r) r2, tb)"
  using assms pick_first_key [of "\<lambda>r. rdy r \<and> hit r"] by simp

lemma hit_groups_eq:
  "(\<And>r. r \<in> set q \<Longrightarrow> is_row_hit ev r = Inr (hit r)) \<Longrightarrow>
   hit_groups ev q = Inr (map (pre_group ev) (filter hit q))"
  by (induction q) simp_all

text \<open>The second pass scans the requests that do not close a row somebody still wants.\<close>

lemma nonviolating_Some:
  assumes "\<And>i. i \<in> set is \<Longrightarrow> violates_hit ev hits (q ! i) = Inr (v i)"
  shows "nonviolating ev cap q hits is (Some h) tb =
    bindR (best_from (compare ev FRFCFS cap) q (filter (\<lambda>i. \<not> v i) is) h tb) (\<lambda>(h, tb). Inr (Some h, tb))"
  using assms
proof (induction "is" arbitrary: h tb)
  case (Cons i "is")
  then show ?case by (auto simp: bindR_def split: sum.splits)
qed simp

lemma nonviolating_None:
  assumes "\<And>i. i \<in> set is \<Longrightarrow> violates_hit ev hits (q ! i) = Inr (v i)"
  shows "nonviolating ev cap q hits is None tb =
    (case filter (\<lambda>i. \<not> v i) is of
       [] \<Rightarrow> Inr (None, tb)
     | i # is' \<Rightarrow> bindR (best_from (compare ev FRFCFS cap) q is' i tb) (\<lambda>(h, tb). Inr (Some h, tb)))"
  using assms
proof (induction "is")
  case (Cons i "is")
  then show ?case by (auto simp: nonviolating_Some)
qed simp

lemma nonviolating_least:
  assumes v: "\<And>i. i < length q \<Longrightarrow> violates_hit ev hits (q ! i) = Inr (v i)"
    and rdy: "\<And>r. r \<in> set q \<Longrightarrow> is_ready ev r = Inr (rdy r)"
  shows "\<exists>h. nonviolating ev cap q hits [0..<length q] None tb = Inr (h, tb)
    \<and> (case h of None \<Rightarrow> \<forall>i<length q. v i
        | Some j \<Rightarrow> least_index (sched_key rdy) q {i. i < length q \<and> \<not> v i} j)"
proof (cases "filter (\<lambda>i. \<not> v i) [0..<length q]")
  case Nil
  then have "\<forall>i<length q. v i" by (simp add: filter_empty_conv)
  with Nil v show ?thesis by (subst nonviolating_None [where v = v]) simp_all
next
  case (Cons i "is")
  have srt: "sorted_wrt (<) (i # is)" unfolding Cons [symmetric] by (intro sorted_wrt_filter) simp
  have st: "insert i (set is) = {i. i < length q \<and> \<not> v i}"
    using arg_cong [OF Cons, of set] by auto
  have mem: "q ! a \<in> set q" if "a \<in> insert i (set is)" for a using that unfolding st by simp
  have "\<exists>h. best_from (compare ev FRFCFS cap) q is i tb = Inr (h, tb)
      \<and> least_index (sched_key rdy) q (insert i (set is)) h"
  proof (rule best_from_least [OF _ srt])
    show "compare ev FRFCFS cap (q ! a) (q ! b) tb =
        Inr (sched_key rdy (q ! a) \<le> sched_key rdy (q ! b), tb)"
      if "a \<in> insert i (set is)" "b \<in> set is" for a b tb
      using mem [of a] mem [of b] that by (simp only: compare_FRFCFS_key rdy insert_iff simp_thms)
  qed
  then obtain h where h: "best_from (compare ev FRFCFS cap) q is i tb = Inr (h, tb)"
    "least_index (sched_key rdy) q {i. i < length q \<and> \<not> v i} h" unfolding st by blast
  have "nonviolating ev cap q hits [0..<length q] None tb = Inr (Some h, tb)"
    using v h(1) Cons by (subst nonviolating_None [where v = v]) simp_all
  with h(2) show ?thesis by auto
qed

text \<open>With total queries the scheduler is total, stays inside the queue and keeps the row table.\<close>

lemma compare_key:
  assumes "\<forall>r\<in>set q. is_ready ev r = Inr (rdy r) \<and> is_row_hit ev r = Inr (hit r)"
    and "ty \<noteq> FRFCFS_Cap"
  obtains pri where "\<And>r1 r2 tb. r1 \<in> set q \<Longrightarrow> r2 \<in> set q \<Longrightarrow>
    compare ev ty cap r1 r2 tb = Inr (sched_key pri r1 \<le> sched_key pri r2, tb)"
proof (cases ty)
  case FCFS
  then show ?thesis by (intro that [of "\<lambda>_. True"]) (simp add: sched_key_def)
next
  case FRFCFS
  with assms(1) show ?thesis by (intro that [of rdy]) (simp only: compare_FRFCFS_key)
next
  case FRFCFS_PriorHit
  with assms(1) show ?thesis
    by (intro that [of "\<lambda>r. rdy r \<and> hit r"]) (simp only: compare_PriorHit_key)
qed (use assms(2) in simp)

lemma violates_hit_eq:
  assumes "\<forall>r\<in>set q. is_row_hit ev r = Inr (hit r) \<and> is_row_open ev r = Inr (opn r)" and "i < length q"
  shows "violates_hit ev hits (q ! i) = Inr (\<not> hit (q ! i) \<and> opn (q ! i) \<and> pre_group ev (q ! i) \<in> set hits)"
  using assms by (simp add: violates_hit_def)

lemma get_head_total:
  assumes qs: "\<forall>r\<in>set q. is_ready ev r = Inr (rdy r) \<and> is_row_hit ev r = Inr (hit r)"
    and op: "\<forall>r\<in>set q. is_row_open ev r = Inr (opn r)" and ty: "ty \<noteq> FRFCFS_Cap"
  shows "\<exists>h. get_head ev ty cap q tb = Inr (h, tb) \<and> (\<forall>j. h = Some j \<longrightarrow> j < length q)"
proof (cases "q = []")
  case False
  obtain pri where "\<And>r1 r2 tb. r1 \<in> set q \<Longrightarrow> r2 \<in> set q \<Longrightarrow>
    compare ev ty cap r1 r2 tb = Inr (sched_key pri r1 \<le> sched_key pri r2, tb)"
    using compare_key [OF qs ty] by blast
  from best_from_head [of q "compare ev ty cap" "sched_key pri", OF this False] obtain h where
    h: "best_from (compare ev ty cap) q [1..<length q] 0 tb = Inr (h, tb)" "h < length q"
    by (auto simp: least_index_def)
  then have best: "andR (is_ready ev (q ! h)) (is_row_hit ev (q ! h)) = Inr (rdy (q ! h) \<and> hit (q ! h))"
    using qs by simp
  have hits: "hit_groups ev q = Inr (map (pre_group ev) (filter hit q))"
    using qs by (intro hit_groups_eq) simp
  have vs: "\<forall>r\<in>set q. is_row_hit ev r = Inr (hit r) \<and> is_row_open ev r = Inr (opn r)"
    using qs op by blast
  obtain j where j: "nonviolating ev cap q (map (pre_group ev) (filter hit q)) [0..<length q] None tb = Inr (j, tb)"
    "\<forall>i. j = Some i \<longrightarrow> i < length q"
    using nonviolating_least [of q ev "map (pre_group ev) (filter hit q)" _ rdy cap tb,
        OF violates_hit_eq [OF vs]] qs
    by (auto simp: least_index_def split: option.splits)
  show ?thesis
  proof (cases "ty = FRFCFS_PriorHit \<and> \<not> (rdy (q ! h) \<and> hit (q ! h))")
    case True
    with False h best hits j show ?thesis by (auto simp: get_head_def)
  next
    case not: False
    then have "get_head ev ty cap q tb = Inr (Some h, tb)"
      using False h(1) best by (auto simp: get_head_def)
    with h(2) show ?thesis by blast
  qed
qed (simp add: get_head_def)

section \<open>Properties\<close>

text \<open>
  C13.  First-ready first-come-first-served: the scheduler returns a ready request if there is
  one, and the oldest of the requests that are ready (or not ready) like it; it leaves the row
  table alone.
\<close>

theorem frfcfs_oldest_ready:
  assumes "q \<noteq> []" and "\<forall>r\<in>set q. is_ready ev r = Inr (rdy r)"
  shows "\<exists>h. get_head ev FRFCFS cap q table = Inr (Some h, table) \<and> h < length q
    \<and> ((\<exists>r\<in>set q. rdy r) \<longrightarrow> rdy (q ! h))
    \<and> (\<forall>i<length q. rdy (q ! i) = rdy (q ! h) \<longrightarrow> rq_arrive (q ! h) \<le> rq_arrive (q ! i))"
proof -
  have "compare ev FRFCFS cap r1 r2 tb = Inr (sched_key rdy r1 \<le> sched_key rdy r2, tb)"
    if "r1 \<in> set q" "r2 \<in> set q" for r1 r2 tb
    using that assms(2) by (simp only: compare_FRFCFS_key)
  then obtain h where
    h: "best_from (compare ev FRFCFS cap) q [1..<length q] 0 table = Inr (h, table)"
    "least_index (sched_key rdy) q {0..<length q} h"
    using best_from_head [of q "compare ev FRFCFS cap" "sched_key rdy" table] assms(1) by blast
  then have hq: "h < length q" and le: "\<And>i. i < length q \<Longrightarrow> sched_key rdy (q ! h) \<le> sched_key rdy (q ! i)"
    by (auto simp: least_index_def)
  have run: "get_head ev FRFCFS cap q table = Inr (Some h, table)"
    using h(1) assms(1) by (simp add: get_head_def)
  have ready: "rdy (q ! h)" if "r \<in> set q" "rdy r" for r
  proof -
    from that(1) obtain i where "i < length q" "r = q ! i" by (auto simp: in_set_conv_nth)
    with le [of i] that(2) show ?thesis by (simp add: sched_key_def)
  qed
  have "rq_arrive (q ! h) \<le> rq_arrive (q ! i)" if "i < length q" "rdy (q ! i) = rdy (q ! h)" for i
    using le [OF that(1)] that(2) by (auto simp: sched_key_def)
  with run hq ready show ?thesis by blast
qed

definition sample_env :: "(command, dstate) env" where
  "sample_env =
     \<lparr>ev_spec = hmc_spec HMC_4GB HMC_2500, ev_channel = new_dram (hmc_spec HMC_4GB HMC_2500) 0 0,
      ev_clk = 100, ev_no_DRAM_latency = False\<rparr>"

definition sample_read :: "int \<Rightarrow> int \<Rightarrow> request" where
  "sample_read row arrived =
     (mk_request_vec [0, 1, 1, row, 0] READ 0)\<lparr>rq_arrive := arrived\<rparr>"

lemma sample_queries:
  "is_ready sample_env (sample_read 5 9) = Inr True" "is_ready sample_env (sample_read 6 4) = Inr True"
  "is_row_hit sample_env (sample_read 5 9) = Inr False" "is_row_hit sample_env (sample_read 6 4) = Inr False"
  "is_row_open sample_env (sample_read 5 9) = Inr False" "is_row_open sample_env (sample_read 6 4) = Inr False"
  by code_simp+

theorem frfcfs_oldest_ready_witness:
  "\<exists>h. get_head sample_env FRFCFS 16 [sample_read 5 9, sample_read 6 4] [] = Inr (Some h, [])
    \<and> h < 2 \<and> (\<forall>i<2. rq_arrive ([sample_read 5 9, sample_read 6 4] ! h)
                        \<le> rq_arrive ([sample_read 5 9, sample_read 6 4] ! i))"
  using frfcfs_oldest_ready [of "[sample_read 5 9, sample_read 6 4]" sample_env "\<lambda>_. True" 16 "[]"]
  by (simp add: sample_queries numeral_2_eq_2)

text \<open>
  C14.  The default scheduler: if a ready row hit is waiting, the oldest ready row hit is
  returned.  Otherwise no request is returned whose next command would close a row that another
  waiting request hits; among the others a ready one is preferred, then the oldest; nothing is
  returned only if every request would close such a row.
\<close>

theorem priorhit_protects_hits:
  assumes "q \<noteq> []" and "\<forall>r\<in>set q. is_ready ev r = Inr (rdy r)"
    and "\<forall>r\<in>set q. is_row_hit ev r = Inr (hit r)" and "\<forall>r\<in>set q. is_row_open ev r = Inr (opn r)"
    and "closes = (\<lambda>r. \<not> hit r \<and> opn r \<and> (\<exists>r'\<in>set q. hit r' \<and> pre_group ev r' = pre_group ev r))"
  shows "\<exists>h. get_head ev FRFCFS_PriorHit cap q table = Inr (h, table)
    \<and> (if \<exists>r\<in>set q. rdy r \<and> hit r
        then \<exists>j<length q. h = Some j \<and> rdy (q ! j) \<and> hit (q ! j)
               \<and> (\<forall>i<length q. rdy (q ! i) \<and> hit (q ! i) \<longrightarrow> rq_arrive (q ! j) \<le> rq_arrive (q ! i))
        else case h of
               None \<Rightarrow> \<forall>r\<in>set q. closes r
             | Some j \<Rightarrow> j < length q \<and> \<not> closes (q ! j)
                 \<and> (\<forall>i<length q. \<not> closes (q ! i) \<longrightarrow> sched_key rdy (q ! j) \<le> sched_key rdy (q ! i)))"
proof -
  let ?k = "sched_key (\<lambda>r. rdy r \<and> hit r)"
  have "compare ev FRFCFS_PriorHit cap r1 r2 tb = Inr (?k r1 \<le> ?k r2, tb)"
    if "r1 \<in> set q" "r2 \<in> set q" for r1 r2 tb
    using that assms(2,3) by (simp only: compare_PriorHit_key)
  then obtain h where
    h: "best_from (compare ev FRFCFS_PriorHit cap) q [1..<length q] 0 table = Inr (h, table)"
    "least_index ?k q {0..<length q} h"
    using best_from_head [of q "compare ev FRFCFS_PriorHit cap" ?k table] assms(1) by blast
  then have hq: "h < length q" and le: "\<And>i. i < length q \<Longrightarrow> ?k (q ! h) \<le> ?k (q ! i)"
    by (auto simp: least_index_def)
  have best: "andR (is_ready ev (q ! h)) (is_row_hit ev (q ! h)) = Inr (rdy (q ! h) \<and> hit (q ! h))"
    using assms(2,3) hq by simp
  show ?thesis
  proof (cases "\<exists>r\<in>set q. rdy r \<and> hit r")
    case True
    then have "rdy (q ! h) \<and> hit (q ! h)" using le by (fastforce simp: sched_key_def in_set_conv_nth)
    moreover have "rq_arrive (q ! h) \<le> rq_arrive (q ! i)" if "i < length q" "rdy (q ! i) \<and> hit (q ! i)" for i
      using le [OF that(1)] that(2) calculation by (auto simp: sched_key_def)
    moreover have "get_head ev FRFCFS_PriorHit cap q table = Inr (Some h, table)"
      using assms(1) h(1) best calculation(1) by (simp add: get_head_def)
    ultimately show ?thesis using True hq by auto
  next
    case False
    have hits: "hit_groups ev q = Inr (map (pre_group ev) (filter hit q))"
      using assms(3) by (intro hit_groups_eq) simp
    have v: "violates_hit ev (map (pre_group ev) (filter hit q)) (q ! i) = Inr (closes (q ! i))"
      if "i < length q" for i
    proof -
      have "pre_group ev (q ! i) \<in> set (map (pre_group ev) (filter hit q)) \<longleftrightarrow>
          (\<exists>r'\<in>set q. hit r' \<and> pre_group ev r' = pre_group ev (q ! i))"
        unfolding set_map set_filter image_iff by (simp add: eq_commute) blast
      moreover have "q ! i \<in> set q" using that by simp
      ultimately show ?thesis using assms(3,4) by (simp add: violates_hit_def assms(5) del: set_map)
    qed
    obtain j where j: "nonviolating ev cap q (map (pre_group ev) (filter hit q)) [0..<length q] None table = Inr (j, table)"
      "case j of None \<Rightarrow> \<forall>i<length q. closes (q ! i)
       | Some j \<Rightarrow> least_index (sched_key rdy) q {i. i < length q \<and> \<not> closes (q ! i)} j"
      using nonviolating_least [OF v, where rdy = rdy] assms(2) by blast
    have "\<not> (rdy (q ! h) \<and> hit (q ! h))" using False hq nth_mem by blast
    then have "get_head ev FRFCFS_PriorHit cap q table = Inr (j, table)"
      using assms(1) h(1) best j(1) hits by (auto simp: get_head_def)
    moreover have "\<forall>r\<in>set q. closes r" if "j = None" using that j(2) by (auto simp: in_set_conv_nth)
    ultimately show ?thesis
      using False j(2) by (cases j) (auto simp: least_index_def)
  qed
qed

text \<open>A younger request that hits the open row comes before an older one that would close it.\<close>

definition sample_open :: "(command, dstate) env" where
  "sample_open =
     (case update (hmc_spec HMC_4GB HMC_2500) (ev_channel sample_env) ACT [0, 1, 1, 5, 0] 60 of
        Inl _ \<Rightarrow> sample_env | Inr ch \<Rightarrow> sample_env\<lparr>ev_channel := ch\<rparr>)"

lemma sample_open_queries:
  "is_ready sample_open (sample_read 5 9) = Inr True" "is_ready sample_open (sample_read 6 4) = Inr True"
  "is_row_hit sample_open (sample_read 5 9) = Inr True" "is_row_hit sample_open (sample_read 6 4) = Inr False"
  "is_row_open sample_open (sample_read 5 9) = Inr True" "is_row_open sample_open (sample_read 6 4) = Inr True"
  by code_simp+

theorem priorhit_protects_hits_witness:
  "get_head sample_open FRFCFS_PriorHit 16 [sample_read 6 4, sample_read 5 9] [] = Inr (Some 1, [])"
proof -
  have ne: "sample_read 6 4 \<noteq> sample_read 5 9" by (simp add: sample_read_def mk_request_vec_def mk_request_def)
  then show ?thesis
    using priorhit_protects_hits [of "[sample_read 6 4, sample_read 5 9]" sample_open "\<lambda>_. True"
        "\<lambda>r. r = sample_read 5 9" "\<lambda>_. True" _ 16 "[]", OF _ _ _ _ refl]
    by (auto simp: sample_open_queries less_Suc_eq)
qed

end
