(* ===== verification/HMC_Packet.thy ===== *)
theory HMC_Packet
  imports HMC_Spec Ram_Map
begin

text \<open>
  The packets of the HMC links (\<open>ramulator/src/Packet.h\<close>, \<open>Packet.cpp\<close>) and the parameters of an
  HMC device that are not DRAM timing (\<open>HMC.h\<close>: block size, link width, lane speed, links, payload,
  burst count, tags).  The fields that a packet constructor leaves uninitialised are 0 here; no
  operation reads them.
\<close>

section \<open>Device parameters\<close>

datatype hmc_maxblock = HMC_32B | HMC_64B | HMC_128B | HMC_256B

record maxblock_entry =
  mb_max_block_size :: int
  mb_flit_num_bits :: nat

fun maxblock_table :: "hmc_maxblock \<Rightarrow> maxblock_entry" where
  "maxblock_table HMC_32B = maxblock_entry.make 32 5"
| "maxblock_table HMC_64B = maxblock_entry.make 64 6"
| "maxblock_table HMC_128B = maxblock_entry.make 128 7"
| "maxblock_table HMC_256B = maxblock_entry.make 256 8"

datatype hmc_linkwidth = HMC_Full_Width | HMC_Half_Width | HMC_Quarter_Width

fun link_width_table :: "hmc_linkwidth \<Rightarrow> int" where
  "link_width_table HMC_Full_Width = 16"
| "link_width_table HMC_Half_Width = 8"
| "link_width_table HMC_Quarter_Width = 4"

datatype hmc_lanespeed = HMC_12_5_Gbps | HMC_15_Gbps | HMC_25_Gbps | HMC_28_Gbps | HMC_30_Gbps

fun lane_speed_table :: "hmc_lanespeed \<Rightarrow> rat" where
  "lane_speed_table HMC_12_5_Gbps = 25 / 2"
| "lane_speed_table HMC_15_Gbps = 15"
| "lane_speed_table HMC_25_Gbps = 25"
| "lane_speed_table HMC_28_Gbps = 28"
| "lane_speed_table HMC_30_Gbps = 30"

definition hmc_maxblock_of :: "string \<Rightarrow> hmc_maxblock" where
  "hmc_maxblock_of s =
     (case map_of [(''HMC_32B'', HMC_32B), (''HMC_64B'', HMC_64B), (''HMC_128B'', HMC_128B),
                   (''HMC_256B'', HMC_256B)] s of
        Some x \<Rightarrow> x | None \<Rightarrow> HMC_32B)"

definition hmc_linkwidth_of :: "string \<Rightarrow> hmc_linkwidth" where
  "hmc_linkwidth_of s =
     (case map_of [(''HMC_Full_Width'', HMC_Full_Width), (''HMC_Half_Width'', HMC_Half_Width),
                   (''HMC_Quarter_Width'', HMC_Quarter_Width)] s of
        Some x \<Rightarrow> x | None \<Rightarrow> HMC_Full_Width)"

definition hmc_lanespeed_of :: "string \<Rightarrow> hmc_lanespeed" where
  "hmc_lanespeed_of s =
     (case map_of [(''HMC_12.5_Gbps'', HMC_12_5_Gbps), (''HMC_15_Gbps'', HMC_15_Gbps),
                   (''HMC_25_Gbps'', HMC_25_Gbps), (''HMC_28_Gbps'', HMC_28_Gbps),
                   (''HMC_30_Gbps'', HMC_30_Gbps)] s of
        Some x \<Rightarrow> x | None \<Rightarrow> HMC_12_5_Gbps)"

record hmc =
  hm_org :: hmc_org
  hm_speed :: hmc_speed_grade
  hm_maxblock :: hmc_maxblock
  hm_linkwidth :: hmc_linkwidth
  hm_lanespeed :: hmc_lanespeed
  hm_source_links :: int
  hm_payload_flits :: int

abbreviation hm_spec :: "hmc \<Rightarrow> (command, dstate) spec" where
  "hm_spec h \<equiv> hmc_spec (hm_org h) (hm_speed h)"

definition mk_hmc :: "string \<Rightarrow> string \<Rightarrow> string \<Rightarrow> string \<Rightarrow> string \<Rightarrow> int \<Rightarrow> int \<Rightarrow> hmc" where
  "mk_hmc org_str speed_str maxblock_str linkwidth_str lanespeed_str source_links payload_flits =
     \<lparr>hm_org = hmc_org_of org_str, hm_speed = hmc_speed_of speed_str,
      hm_maxblock = hmc_maxblock_of maxblock_str, hm_linkwidth = hmc_linkwidth_of linkwidth_str,
      hm_lanespeed = hmc_lanespeed_of lanespeed_str, hm_source_links = source_links,
      hm_payload_flits = payload_flits\<rparr>"

text \<open>
  \<open>ceil(payload_flits / ((prefetch_size * channel_width / 8) / bytes_per_flit))\<close>: both divisions are
  integer divisions, so the \<open>ceil\<close> never rounds; a negative number of flits is rounded towards zero.
\<close>

definition burst_count :: "hmc \<Rightarrow> int" where
  "burst_count h =
     sgn (hm_payload_flits h) * (\<bar>hm_payload_flits h\<bar> div
       ((sp_prefetch_size (hm_spec h) * sp_channel_width (hm_spec h) div 8) div 16))"

definition max_tags :: nat where
  "max_tags = 2 ^ 11"

section \<open>Packets\<close>

datatype packet_type = REQUEST | RESPONSE | NULLPACKET | TRET | RETRY

datatype packet_cmd =
    WR16 | WR32 | WR48 | WR64 | WR80 | WR96 | WR112 | WR128 | WR256
  | RD16 | RD32 | RD48 | RD64 | RD80 | RD96 | RD112 | RD128 | RD256

fun packet_cmd_num :: "packet_cmd \<Rightarrow> int" where
  "packet_cmd_num WR16 = 0" | "packet_cmd_num WR32 = 1" | "packet_cmd_num WR48 = 2"
| "packet_cmd_num WR64 = 3" | "packet_cmd_num WR80 = 4" | "packet_cmd_num WR96 = 5"
| "packet_cmd_num WR112 = 6" | "packet_cmd_num WR128 = 7" | "packet_cmd_num WR256 = 8"
| "packet_cmd_num RD16 = 9" | "packet_cmd_num RD32 = 10" | "packet_cmd_num RD48 = 11"
| "packet_cmd_num RD64 = 12" | "packet_cmd_num RD80 = 13" | "packet_cmd_num RD96 = 14"
| "packet_cmd_num RD112 = 15" | "packet_cmd_num RD128 = 16" | "packet_cmd_num RD256 = 17"

definition cub_bits :: nat where "cub_bits = 3"
definition slid_bits :: nat where "slid_bits = 3"
definition adrs_bits :: nat where "adrs_bits = 34"
definition tag_bits :: nat where "tag_bits = 11"
definition cmd_bits :: nat where "cmd_bits = 7"

text \<open>\<open>Datafield::valid\<close>: there is no lower bound, a tag of \<open>-1\<close> is valid.\<close>

definition field_valid :: "int \<Rightarrow> nat \<Rightarrow> bool" where
  "field_valid v bits = (v < 2 ^ bits)"

record packet =
  pk_type :: packet_type
  pk_CUB :: int
  pk_ADRS :: int
  pk_SLID :: int
  pk_TAG :: int
  pk_LNG :: int
  pk_CMD :: packet_cmd
  pk_RTC :: int
  pk_tail_SLID :: int
  pk_payload_flits :: int
  pk_total_flits :: int
  pk_flow_control :: bool
  pk_req :: request

definition mk_request_packet ::
  "int \<Rightarrow> int \<Rightarrow> int \<Rightarrow> int \<Rightarrow> int \<Rightarrow> packet_cmd \<Rightarrow> request \<Rightarrow> packet" where
  "mk_request_packet cub adrs tag lng slid cmd req =
     \<lparr>pk_type = REQUEST, pk_CUB = cub, pk_ADRS = adrs, pk_SLID = 0, pk_TAG = tag, pk_LNG = lng,
      pk_CMD = cmd, pk_RTC = 0, pk_tail_SLID = slid, pk_payload_flits = lng - 1,
      pk_total_flits = lng, pk_flow_control = False, pk_req = req\<rparr>"

definition mk_response_packet ::
  "int \<Rightarrow> int \<Rightarrow> int \<Rightarrow> int \<Rightarrow> packet_cmd \<Rightarrow> request \<Rightarrow> packet" where
  "mk_response_packet cub tag lng slid cmd req =
     \<lparr>pk_type = RESPONSE, pk_CUB = cub, pk_ADRS = 0, pk_SLID = slid, pk_TAG = tag, pk_LNG = lng,
      pk_CMD = cmd, pk_RTC = 0, pk_tail_SLID = 0, pk_payload_flits = lng - 1,
      pk_total_flits = lng, pk_flow_control = False, pk_req = req\<rparr>"

definition mk_tret_packet :: "int \<Rightarrow> packet" where
  "mk_tret_packet rtc =
     \<lparr>pk_type = TRET, pk_CUB = 0, pk_ADRS = 0, pk_SLID = 0, pk_TAG = 0, pk_LNG = 0, pk_CMD = WR16,
      pk_RTC = rtc, pk_tail_SLID = 0, pk_payload_flits = 0, pk_total_flits = 1,
      pk_flow_control = True, pk_req = mk_request 0 READ (-1)\<rparr>"

text \<open>\<open>write_cmd_map[lng]\<close>, \<open>read_cmd_map[lng]\<close>: an unknown length gives enumerator 0.\<close>

definition write_cmd_map :: "int \<Rightarrow> packet_cmd" where
  "write_cmd_map lng =
     (case map_of [(1, WR16), (2, WR32), (3, WR48), (4, WR64), (5, WR80), (6, WR96), (7, WR112),
                   (8, WR128), (16, WR256)] lng of
        Some c \<Rightarrow> c | None \<Rightarrow> WR16)"

definition read_cmd_map :: "int \<Rightarrow> packet_cmd" where
  "read_cmd_map lng =
     (case map_of [(1, RD16), (2, RD32), (3, RD48), (4, RD64), (5, RD80), (6, RD96), (7, RD112),
                   (8, RD128), (16, RD256)] lng of
        Some c \<Rightarrow> c | None \<Rightarrow> WR16)"

lemma packet_cmd_valid [simp]: "field_valid (packet_cmd_num c) cmd_bits"
  by (cases c) (simp_all add: field_valid_def cmd_bits_def)

end
