(* ===== verification/HMC_Controller.thy ===== *)
theory HMC_Controller
  imports HMC_Vault Scheduler HMC_Packet
begin

text \<open>
  The vault controller \<open>Controller<HMC>\<close> (\<open>ramulator/src/HMC_Controller.h\<close>) with its refresh
  scheduler \<open>Refresh<HMC>\<close> (\<open>Refresh.h\<close>, \<open>Refresh.cpp\<close>): queues, read forwarding, refresh, the
  choice of a command, its issue, completion and response packets.  \<open>vc_done\<close> collects the
  requests whose callback is called, \<open>vc_trace\<close> the lines of the command trace.  \<open>vc_issued\<close> is a history
  variable: \<open>issue_cmd\<close> records in it every command that it gives to the device, with its address and
  clock, and nothing reads it.  DRAMPower is not part of the model: the statement that would switch
  it on is commented out in the constructor.
\<close>

section \<open>State\<close>

record refresh_state =
  rf_clk :: int
  rf_refreshed :: int
  rf_bank_ref_counters :: "int list"
  rf_bank_refresh_backlog :: "int list list"

record rqueue =
  qu_q :: "request list"
  qu_max :: nat

record ctrl_stats =
  st_read_transaction_bytes :: int
  st_write_transaction_bytes :: int
  st_row_hits :: int
  st_row_misses :: int
  st_row_conflicts :: int
  st_read_row_hits :: "int \<Rightarrow> int"
  st_read_row_misses :: "int \<Rightarrow> int"
  st_read_row_conflicts :: "int \<Rightarrow> int"
  st_write_row_hits :: "int \<Rightarrow> int"
  st_write_row_misses :: "int \<Rightarrow> int"
  st_write_row_conflicts :: "int \<Rightarrow> int"
  st_queueing_latency_sum :: int
  st_req_queue_length_sum :: int
  st_read_req_queue_length_sum :: int
  st_write_req_queue_length_sum :: int

record vault_ctrl =
  vc_hmc :: hmc
  vc_clk :: int
  vc_channel :: "(command, dstate) dram"
  vc_sched_type :: sched_type
  vc_cap :: int
  vc_policy_type :: policy_type
  vc_timeout :: int
  vc_rowtable :: row_table
  vc_refresh :: refresh_state
  vc_readq :: rqueue
  vc_writeq :: rqueue
  vc_otherq :: rqueue
  vc_pending :: "request list"
  vc_write_mode :: bool
  vc_record_cmd_trace :: bool
  vc_trace :: "(int \<times> command \<times> int option) list"
  vc_issued :: "(command \<times> int list \<times> int) list"
  vc_no_DRAM_latency :: bool
  vc_pim_mode_enabled :: bool
  vc_response_packets :: "packet list"
  vc_incoming_packets :: "(int, packet) omap"
  vc_done :: "request list"
  vc_core_num :: int
  vc_stats :: ctrl_stats

abbreviation vc_spec :: "vault_ctrl \<Rightarrow> (command, dstate) spec" where
  "vc_spec c \<equiv> hm_spec (vc_hmc c)"

definition vc_env :: "vault_ctrl \<Rightarrow> (command, dstate) env" where
  "vc_env c = \<lparr>ev_spec = vc_spec c, ev_channel = vc_channel c, ev_clk = vc_clk c,
               ev_no_DRAM_latency = vc_no_DRAM_latency c\<rparr>"

definition new_refresh :: "hmc \<Rightarrow> refresh_state" where
  "new_refresh h =
     \<lparr>rf_clk = 0, rf_refreshed = 0, rf_bank_ref_counters = [0],
      rf_bank_refresh_backlog =
        [replicate (nat (sp_count (hm_spec h) BankGroup * sp_count (hm_spec h) Bank)) 0]\<rparr>"

definition zero_stats :: ctrl_stats where
  "zero_stats =
     ctrl_stats.make 0 0 0 0 0 (\<lambda>_. 0) (\<lambda>_. 0) (\<lambda>_. 0) (\<lambda>_. 0) (\<lambda>_. 0) (\<lambda>_. 0) 0 0 0 0"

text \<open>
  The constructor.  \<open>record\<close>, \<open>nolat\<close>, \<open>unlimited\<close> and \<open>pim\<close> are what it reads from the configuration;
  the assertions are those of the unlimited-bandwidth mode.  \<open>core_num\<close> is the number of cores, the
  size of the counters per core that the memory allocates and hands to the controller.
\<close>

definition new_vault_ctrl ::
  "hmc \<Rightarrow> (command, dstate) dram \<Rightarrow> bool \<Rightarrow> bool \<Rightarrow> bool \<Rightarrow> bool \<Rightarrow> int \<Rightarrow> vault_ctrl res" where
  "new_vault_ctrl h ch record nolat unlimited pim core_num =
     (let s = hmc_speed_table (hm_speed h) in
      bindR (if unlimited then
               guardR (h_nBL s = 0 \<and> sp_read_latency (hm_spec h) = h_nCL s \<and> h_nCCDS s = 1 \<and> h_nCCDL s = 1)
             else Inr ()) (\<lambda>_.
      Inr \<lparr>vc_hmc = h, vc_clk = 0, vc_channel = ch,
           vc_sched_type = (if nolat then FRFCFS else FRFCFS_PriorHit), vc_cap = 16,
           vc_policy_type = OpenedRow, vc_timeout = 50, vc_rowtable = [], vc_refresh = new_refresh h,
           vc_readq = \<lparr>qu_q = [], qu_max = 32\<rparr>, vc_writeq = \<lparr>qu_q = [], qu_max = 32\<rparr>,
           vc_otherq = \<lparr>qu_q = [], qu_max = 32\<rparr>, vc_pending = [], vc_write_mode = False,
           vc_record_cmd_trace = record, vc_trace = [], vc_issued = [], vc_no_DRAM_latency = nolat,
           vc_pim_mode_enabled = pim, vc_response_packets = [], vc_incoming_packets = [],
           vc_done = [], vc_core_num = core_num, vc_stats = zero_stats\<rparr>))"

section \<open>Queues\<close>

datatype qsel = ReadQ | WriteQ | OtherQ

fun sel_queue :: "qsel \<Rightarrow> vault_ctrl \<Rightarrow> rqueue" where
  "sel_queue ReadQ c = vc_readq c"
| "sel_queue WriteQ c = vc_writeq c"
| "sel_queue OtherQ c = vc_otherq c"

fun set_queue :: "qsel \<Rightarrow> request list \<Rightarrow> vault_ctrl \<Rightarrow> vault_ctrl" where
  "set_queue ReadQ q c = c\<lparr>vc_readq := (vc_readq c)\<lparr>qu_q := q\<rparr>\<rparr>"
| "set_queue WriteQ q c = c\<lparr>vc_writeq := (vc_writeq c)\<lparr>qu_q := q\<rparr>\<rparr>"
| "set_queue OtherQ q c = c\<lparr>vc_otherq := (vc_otherq c)\<lparr>qu_q := q\<rparr>\<rparr>"

fun get_queue :: "req_type \<Rightarrow> qsel" where
  "get_queue READ = ReadQ"
| "get_queue WRITE = WriteQ"
| "get_queue _ = OtherQ"

text \<open>The request is passed by reference: \<open>enqueue\<close> returns it with \<open>arrive\<close> and \<open>depart\<close> set.\<close>

definition enqueue :: "vault_ctrl \<Rightarrow> request \<Rightarrow> bool \<times> request \<times> vault_ctrl" where
  "enqueue c req =
     (let qs = get_queue (rq_type req); queue = sel_queue qs c in
      if \<not> vc_pim_mode_enabled c \<and> qu_max queue = length (qu_q queue) then (False, req, c)
      else
        let req1 = req\<lparr>rq_arrive := vc_clk c\<rparr>;
            c1 = set_queue qs (qu_q queue @ [req1]) c
        in if rq_type req1 = READ \<and> (\<exists>w\<in>set (qu_q (vc_writeq c1)). rq_addr req1 = rq_addr w) then
             let req2 = req1\<lparr>rq_depart := vc_clk c + 1\<rparr>
             in (True, req2,
                 set_queue ReadQ (butlast (qu_q (vc_readq c1))) (c1\<lparr>vc_pending := vc_pending c1 @ [req2]\<rparr>))
           else (True, req1, c1))"

definition receive :: "vault_ctrl \<Rightarrow> packet \<Rightarrow> (bool \<times> packet \<times> vault_ctrl) res" where
  "receive c pkt =
     bindR (guardR (pk_type pkt = REQUEST)) (\<lambda>_.
       let req = (pk_req pkt)\<lparr>rq_burst_count := burst_count (vc_hmc c),
                              rq_transaction_bytes := hm_payload_flits (vc_hmc c) * 16\<rparr>;
           pkt1 = pkt\<lparr>pk_req := req\<rparr>;
           c1 = c\<lparr>vc_incoming_packets := om_put (rq_reqid req) pkt1 (vc_incoming_packets c)\<rparr>;
           (ok, req', c2) = enqueue c1 req
       in Inr (ok, pkt1\<lparr>pk_req := req'\<rparr>, c2))"

definition form_response_packet :: "vault_ctrl \<Rightarrow> request \<Rightarrow> (packet \<times> vault_ctrl) res" where
  "form_response_packet c req =
     (case map_of (vc_incoming_packets c) (rq_reqid req) of
        None \<Rightarrow> Inl AssertFailed
      | Some rp \<Rightarrow>
          let lng = (if rq_type req = WRITE then 1 else 1 + hm_payload_flits (vc_hmc c));
              p = mk_response_packet (pk_CUB rp) (pk_TAG rp) lng (pk_tail_SLID rp) (pk_CMD rp) req
          in bindR (guardR (field_valid (pk_CUB p) cub_bits \<and> field_valid (pk_TAG p) tag_bits
                      \<and> field_valid (pk_SLID p) slid_bits
                      \<and> field_valid (packet_cmd_num (pk_CMD p)) cmd_bits)) (\<lambda>_.
             Inr (p, c\<lparr>vc_incoming_packets := om_erase (rq_reqid req) (vc_incoming_packets c)\<rparr>)))"

section \<open>Refresh\<close>

definition refresh_target :: "vault_ctrl \<Rightarrow> int \<Rightarrow> vault_ctrl res" where
  "refresh_target c vault =
     (let ad = [vault, -1, -1, -1, -1];
          (res, _, c1) = enqueue c (mk_request_vec ad REFRESH 0)
      in bindR (guardR res) (\<lambda>_. Inr c1))"

definition inject_refresh :: "vault_ctrl \<Rightarrow> bool \<Rightarrow> vault_ctrl res" where
  "inject_refresh c b_ref_rank =
     bindR (guardR b_ref_rank) (\<lambda>_.
     bindR (if b_ref_rank then refresh_target c (dn_id (dinfo (vc_channel c))) else Inr c) (\<lambda>c1.
       Inr (c1\<lparr>vc_refresh := (vc_refresh c1)\<lparr>rf_refreshed := rf_clk (vc_refresh c1)\<rparr>\<rparr>)))"

text \<open>\<open>update_temp\<close> does nothing for HMC.\<close>

definition tick_ref :: "vault_ctrl \<Rightarrow> vault_ctrl res" where
  "tick_ref c =
     (let c1 = c\<lparr>vc_refresh := (vc_refresh c)\<lparr>rf_clk := rf_clk (vc_refresh c) + 1\<rparr>\<rparr>;
          refresh_interval = sp_nREFI (vc_spec c1)
      in if rf_clk (vc_refresh c1) - rf_refreshed (vc_refresh c1) \<ge> refresh_interval
         then inject_refresh c1 True
         else Inr c1)"

section \<open>One cycle\<close>

definition count_queues :: "vault_ctrl \<Rightarrow> vault_ctrl" where
  "count_queues c =
     (let r = int (length (qu_q (vc_readq c))); w = int (length (qu_q (vc_writeq c)));
          p = int (length (vc_pending c)); s = vc_stats c
      in c\<lparr>vc_stats := s\<lparr>st_req_queue_length_sum := st_req_queue_length_sum s + (r + w + p),
                         st_read_req_queue_length_sum := st_read_req_queue_length_sum s + (r + p),
                         st_write_req_queue_length_sum := st_write_req_queue_length_sum s + w\<rparr>\<rparr>)"

definition set_serving :: "vault_ctrl \<Rightarrow> int list \<Rightarrow> int \<Rightarrow> vault_ctrl res" where
  "set_serving c ad delta =
     bindR (update_serving_requests (vc_spec c) (vc_channel c) ad delta (vc_clk c)) (\<lambda>ch.
       Inr (c\<lparr>vc_channel := ch\<rparr>))"

text \<open>1. Serve completed reads.\<close>

definition serve_completed :: "vault_ctrl \<Rightarrow> vault_ctrl res" where
  "serve_completed c =
     (case vc_pending c of
        [] \<Rightarrow> Inr c
      | req # rest \<Rightarrow>
          if rq_depart req \<le> vc_clk c then
            bindR (if rq_depart req - rq_arrive req > 1 then set_serving c (rq_addr_vec req) (-1)
                   else Inr c) (\<lambda>c1.
            if vc_pim_mode_enabled c1 then
              let req1 = req\<lparr>rq_depart_hmc := vc_clk c1\<rparr> in
              if rq_type req1 = READ \<or> rq_type req1 = WRITE then
                bindR (guardR (map_of (vc_incoming_packets c1) (rq_reqid req1) \<noteq> None)) (\<lambda>_.
                  Inr (c1\<lparr>vc_incoming_packets := om_erase (rq_reqid req1) (vc_incoming_packets c1),
                          vc_done := vc_done c1 @ [req1], vc_pending := rest\<rparr>))
              else Inr (c1\<lparr>vc_pending := req1 # rest\<rparr>)
            else
              bindR (form_response_packet c1 req) (\<lambda>(p, c2).
                Inr (c2\<lparr>vc_response_packets := vc_response_packets c2 @ [p], vc_pending := rest\<rparr>)))
          else Inr c)"

text \<open>3. Should we schedule writes?  \<open>int(0.8 * max)\<close> and \<open>int(0.2 * max)\<close> truncate.\<close>

definition choose_mode :: "vault_ctrl \<Rightarrow> vault_ctrl" where
  "choose_mode c =
     (let w = length (qu_q (vc_writeq c)); m = qu_max (vc_writeq c); r = length (qu_q (vc_readq c)) in
      if \<not> vc_write_mode c then
        (if w \<ge> 4 * m div 5 \<or> r = 0 then c\<lparr>vc_write_mode := True\<rparr> else c)
      else
        (if w \<le> m div 5 \<and> r \<noteq> 0 then c\<lparr>vc_write_mode := False\<rparr> else c))"

definition choose_queue :: "vault_ctrl \<Rightarrow> qsel" where
  "choose_queue c =
     (if qu_q (vc_otherq c) \<noteq> [] then OtherQ else if \<not> vc_write_mode c then ReadQ else WriteQ)"

definition trace_bank :: "vault_ctrl \<Rightarrow> command \<Rightarrow> int list \<Rightarrow> int option res" where
  "trace_bank c cmd ad =
     (if cmd = PREA \<or> cmd = REF then Inr None
      else bindR (nthR ad Bank) (\<lambda>b. bindR (nthR ad BankGroup) (\<lambda>g.
             Inr (Some (b + g * sp_count (vc_spec c) Bank)))))"

definition issue_cmd :: "vault_ctrl \<Rightarrow> command \<Rightarrow> int list \<Rightarrow> vault_ctrl res" where
  "issue_cmd c cmd ad =
     bindR (is_ready_cmd (vc_env c) cmd ad) (\<lambda>ready.
     bindR (guardR ready) (\<lambda>_.
     bindR (if \<not> vc_no_DRAM_latency c then
              bindR (update (vc_spec c) (vc_channel c) cmd ad (vc_clk c)) (\<lambda>ch.
              bindR (rt_update (vc_spec c) cmd ad (vc_clk c) (vc_rowtable c)) (\<lambda>tb.
                Inr (c\<lparr>vc_channel := ch, vc_rowtable := tb\<rparr>)))
            else
              bindR (update_timing (vc_spec c) (vc_channel c) cmd ad (vc_clk c)) (\<lambda>ch.
                Inr (c\<lparr>vc_channel := ch\<rparr>))) (\<lambda>c1.
     let c2 = c1\<lparr>vc_issued := (cmd, ad, vc_clk c1) # vc_issued c1\<rparr> in
     if vc_record_cmd_trace c2 then
       bindR (trace_bank c2 cmd ad) (\<lambda>b. Inr (c2\<lparr>vc_trace := vc_trace c2 @ [(vc_clk c2, cmd, b)]\<rparr>))
     else Inr c2)))"

text \<open>
  One more in component \<open>i\<close> of a vector of \<open>n\<close> counters.  The index is checked by an assertion; a negative
  number is a large one there, because the index has an unsigned type.
\<close>

definition bump :: "int \<Rightarrow> (int \<Rightarrow> int) \<Rightarrow> int \<Rightarrow> (int \<Rightarrow> int) res" where
  "bump n f i = bindR (guardR (0 \<le> i \<and> i < n)) (\<lambda>_. Inr (f(i := f i + 1)))"

definition count_read :: "int \<Rightarrow> request \<Rightarrow> int \<Rightarrow> bool \<Rightarrow> bool \<Rightarrow> ctrl_stats \<Rightarrow> ctrl_stats res" where
  "count_read n req clk hit opened s0 =
     (let s = s0\<lparr>st_queueing_latency_sum := st_queueing_latency_sum s0 + (clk - rq_arrive req)\<rparr>;
          i = rq_coreid req
      in bindR (if hit then
                  bindR (bump n (st_read_row_hits s) i) (\<lambda>f.
                    Inr (s\<lparr>st_read_row_hits := f, st_row_hits := st_row_hits s + 1\<rparr>))
                else if opened then
                  bindR (bump n (st_read_row_conflicts s) i) (\<lambda>f.
                    Inr (s\<lparr>st_read_row_conflicts := f, st_row_conflicts := st_row_conflicts s + 1\<rparr>))
                else
                  bindR (bump n (st_read_row_misses s) i) (\<lambda>f.
                    Inr (s\<lparr>st_read_row_misses := f, st_row_misses := st_row_misses s + 1\<rparr>))) (\<lambda>s1.
         Inr (s1\<lparr>st_read_transaction_bytes := st_read_transaction_bytes s1 + rq_transaction_bytes req\<rparr>)))"

definition count_write :: "int \<Rightarrow> request \<Rightarrow> bool \<Rightarrow> bool \<Rightarrow> ctrl_stats \<Rightarrow> ctrl_stats res" where
  "count_write n req hit opened s =
     (let i = rq_coreid req
      in bindR (if hit then
                  bindR (bump n (st_write_row_hits s) i) (\<lambda>f.
                    Inr (s\<lparr>st_write_row_hits := f, st_row_hits := st_row_hits s + 1\<rparr>))
                else if opened then
                  bindR (bump n (st_write_row_conflicts s) i) (\<lambda>f.
                    Inr (s\<lparr>st_write_row_conflicts := f, st_row_conflicts := st_row_conflicts s + 1\<rparr>))
                else
                  bindR (bump n (st_write_row_misses s) i) (\<lambda>f.
                    Inr (s\<lparr>st_write_row_misses := f, st_row_misses := st_row_misses s + 1\<rparr>))) (\<lambda>s1.
         Inr (s1\<lparr>st_write_transaction_bytes := st_write_transaction_bytes s1 + rq_transaction_bytes req\<rparr>)))"

text \<open>\<open>is_row_open\<close> is asked only when the request is not a row hit.\<close>

definition row_status :: "vault_ctrl \<Rightarrow> request \<Rightarrow> (bool \<times> bool) res" where
  "row_status c req =
     bindR (is_row_hit (vc_env c) req) (\<lambda>hit.
       if hit then Inr (True, True)
       else bindR (is_row_open (vc_env c) req) (\<lambda>opened. Inr (False, opened)))"

definition first_command :: "vault_ctrl \<Rightarrow> request \<Rightarrow> (request \<times> vault_ctrl) res" where
  "first_command c req =
     (if rq_is_first_command req then
        let req1 = req\<lparr>rq_is_first_command := False\<rparr> in
        bindR (if rq_type req1 = READ \<or> rq_type req1 = WRITE
               then set_serving c (rq_addr_vec req1) 1 else Inr c) (\<lambda>c1.
        if rq_type req1 = READ then
          bindR (row_status c1 req1) (\<lambda>(hit, opened).
          bindR (count_read (vc_core_num c1) req1 (vc_clk c1) hit opened (vc_stats c1)) (\<lambda>st.
            Inr (req1, c1\<lparr>vc_stats := st\<rparr>)))
        else if rq_type req1 = WRITE then
          bindR (row_status c1 req1) (\<lambda>(hit, opened).
          bindR (count_write (vc_core_num c1) req1 hit opened (vc_stats c1)) (\<lambda>st.
            Inr (req1, c1\<lparr>vc_stats := st\<rparr>)))
        else Inr (req1, c1))
      else Inr (req, c))"

text \<open>The end of a cycle in which the last command of a request was issued.\<close>

definition complete ::
  "vault_ctrl \<Rightarrow> request \<Rightarrow> (request \<times> vault_ctrl) res" where
  "complete c req =
     (if rq_type req = READ then
        let req1 = req\<lparr>rq_burst_count := rq_burst_count req - 1\<rparr> in
        if rq_burst_count req1 = 0 then
          let req2 = req1\<lparr>rq_depart := vc_clk c + sp_read_latency (vc_spec c)\<rparr>
          in Inr (req2, c\<lparr>vc_pending := vc_pending c @ [req2]\<rparr>)
        else Inr (req1, c)
      else if rq_type req = WRITE then
        let req1 = req\<lparr>rq_burst_count := rq_burst_count req - 1\<rparr> in
        if rq_burst_count req1 = 0 then
          bindR (form_response_packet c req1) (\<lambda>(p, c1).
          bindR (set_serving (c1\<lparr>vc_response_packets := vc_response_packets c1 @ [p]\<rparr>)
                   (rq_addr_vec req1) (-1)) (\<lambda>c2. Inr (req1, c2)))
        else Inr (req1, c)
      else Inr (req, c))"

definition remove_nth :: "nat \<Rightarrow> 'a list \<Rightarrow> 'a list" where
  "remove_nth i xs = take i xs @ drop (Suc i) xs"

definition serve_head :: "vault_ctrl \<Rightarrow> qsel \<Rightarrow> nat \<Rightarrow> vault_ctrl res" where
  "serve_head c qs i =
     bindR (first_command c (qu_q (sel_queue qs c) ! i)) (\<lambda>(req, c1).
     bindR (get_first_cmd (vc_env c1) req) (\<lambda>cmd.
     bindR (issue_cmd c1 cmd (rq_addr_vec req)) (\<lambda>c2.
     if cmd \<noteq> sp_translate (vc_spec c2) (rq_type req) then
       Inr (set_queue qs ((qu_q (sel_queue qs c2))[i := req]) c2)
     else
       bindR (complete c2 req) (\<lambda>(req', c3).
         Inr (set_queue qs
               (if rq_burst_count req' = 0 then remove_nth i (qu_q (sel_queue qs c3))
                else (qu_q (sel_queue qs c3))[i := req']) c3)))))"

definition speculate :: "vault_ctrl \<Rightarrow> vault_ctrl res" where
  "speculate c =
     (if \<not> vc_no_DRAM_latency c then
        bindR (get_victim (vc_env c) (vc_policy_type c) (vc_timeout c) PRE (vc_rowtable c)) (\<lambda>victim.
          if victim \<noteq> [] then issue_cmd c PRE victim else Inr c)
      else Inr c)"

text \<open>4. Find the best command to schedule, if any, and issue it.\<close>

definition schedule :: "vault_ctrl \<Rightarrow> vault_ctrl res" where
  "schedule c =
     (let qs = choose_queue c in
      bindR (get_head (vc_env c) (vc_sched_type c) (vc_cap c) (qu_q (sel_queue qs c)) (vc_rowtable c))
        (\<lambda>(head, tb).
          let c1 = c\<lparr>vc_rowtable := tb\<rparr> in
          case head of
            None \<Rightarrow> speculate c1
          | Some i \<Rightarrow>
              bindR (is_ready (vc_env c1) (qu_q (sel_queue qs c1) ! i)) (\<lambda>ready.
                if \<not> ready then speculate c1 else serve_head c1 qs i)))"

definition ctrl_tick :: "vault_ctrl \<Rightarrow> vault_ctrl res" where
  "ctrl_tick c =
     bindR (serve_completed (count_queues (c\<lparr>vc_clk := vc_clk c + 1\<rparr>))) (\<lambda>c1.
     bindR (tick_ref c1) (\<lambda>c2.
       schedule (choose_mode c2)))"

section \<open>Queries\<close>

definition ctrl_is_active :: "vault_ctrl \<Rightarrow> bool" where
  "ctrl_is_active c = (dn_cur_serving_requests (dinfo (vc_channel c)) > 0)"

definition ctrl_is_refresh :: "vault_ctrl \<Rightarrow> bool" where
  "ctrl_is_refresh c = (vc_clk c \<le> dn_end_of_refreshing (dinfo (vc_channel c)))"

definition ctrl_finish :: "vault_ctrl \<Rightarrow> int \<Rightarrow> vault_ctrl" where
  "ctrl_finish c dram_cycles = c\<lparr>vc_channel := finish_dram (vc_channel c) dram_cycles\<rparr>"

end
