(* ===== verification/LogicLayer.thy ===== *)
theory LogicLayer
  imports HMC_Controller Ram_Bits
begin

text \<open>
  The logic layer of a memory cube (\<open>ramulator/src/LogicLayer.h\<close>, \<open>LogicLayer.cpp\<close>): links with a
  slave (host to cube) and a master (cube to host), token-based flow control, and the switch
  between links and vaults.  What a master sends is returned as a list of packets, in the order
  in which the program hands them to the host.  Durations (\<open>double\<close>) are rationals; for the lane
  speeds and widths of the tables and all packet lengths the rounded-up products agree.
\<close>

section \<open>Links\<close>

datatype link_type = HOST_SOURCE_MODE | HOST | PASSTHRU

record link =
  lk_type :: link_type
  lk_id :: int
  lk_extracted_token_count :: int
  lk_input_buffer :: "packet list"
  lk_slave_buffer_max :: int
  lk_output_buffer :: "packet list"
  lk_master_buffer_max :: int
  lk_available_token_count :: int
  lk_clk :: int
  lk_next_packet_clk :: int

definition new_link :: "link_type \<Rightarrow> int \<Rightarrow> link" where
  "new_link ty i =
     \<lparr>lk_type = ty, lk_id = i, lk_extracted_token_count = 0, lk_input_buffer = [],
      lk_slave_buffer_max = 32, lk_output_buffer = [], lk_master_buffer_max = 32,
      lk_available_token_count = 32, lk_clk = 0, lk_next_packet_clk = 0\<rparr>"

definition slave_available_space :: "link \<Rightarrow> int" where
  "slave_available_space l = lk_slave_buffer_max l - int (length (lk_input_buffer l))"

definition master_available_space :: "link \<Rightarrow> int" where
  "master_available_space l = lk_master_buffer_max l - int (length (lk_output_buffer l))"

text \<open>
  \<open>LinkMaster::send\<close>: a data packet if one is waiting and the other side has room for it, else the
  tokens that can be returned (\<open>send_flow\<close>), else nothing (a null packet).
\<close>

definition send_flow :: "rat \<Rightarrow> link \<Rightarrow> (packet list \<times> link) res" where
  "send_flow one_flit_cycles l =
     (if lk_extracted_token_count l > 0 then
        bindR (runR (leftmostbit (lk_extracted_token_count l))) (\<lambda>rtc.
          let tret = mk_tret_packet rtc in
          Inr ([tret],
               l\<lparr>lk_extracted_token_count := lk_extracted_token_count l - rtc,
                 lk_next_packet_clk := lk_clk l + \<lceil>of_int (pk_total_flits tret) * one_flit_cycles\<rceil>\<rparr>))
      else Inr ([], l\<lparr>lk_next_packet_clk := lk_clk l + \<lceil>one_flit_cycles\<rceil>\<rparr>))"

definition link_send :: "rat \<Rightarrow> link \<Rightarrow> (packet list \<times> link) res" where
  "link_send one_flit_cycles l =
     (case lk_output_buffer l of
        [] \<Rightarrow> send_flow one_flit_cycles l
      | packet # rest \<Rightarrow>
          if lk_available_token_count l \<ge> pk_total_flits packet then
            bindR (runR (leftmostbit (lk_extracted_token_count l))) (\<lambda>rtc.
              Inr ([packet\<lparr>pk_RTC := rtc\<rparr>],
                   l\<lparr>lk_output_buffer := rest,
                     lk_extracted_token_count := lk_extracted_token_count l - rtc,
                     lk_available_token_count :=
                       (if lk_type l \<noteq> HOST_SOURCE_MODE
                        then lk_available_token_count l - pk_total_flits packet
                        else lk_available_token_count l),
                     lk_next_packet_clk :=
                       lk_clk l + \<lceil>of_int (pk_total_flits packet) * one_flit_cycles\<rceil>\<rparr>))
          else send_flow one_flit_cycles l)"

definition master_tick :: "rat \<Rightarrow> link \<Rightarrow> (packet list \<times> link) res" where
  "master_tick one_flit_cycles l =
     (let l1 = l\<lparr>lk_clk := lk_clk l + 1\<rparr> in
      if lk_clk l1 \<ge> lk_next_packet_clk l1 then link_send one_flit_cycles l1 else Inr ([], l1))"

definition slave_receive :: "packet \<Rightarrow> link \<Rightarrow> link" where
  "slave_receive packet l =
     (let l1 = l\<lparr>lk_available_token_count := lk_available_token_count l + pk_RTC packet\<rparr> in
      if pk_flow_control packet then l1
      else l1\<lparr>lk_input_buffer := lk_input_buffer l1 @ [packet]\<rparr>)"

section \<open>The switch\<close>

text \<open>
  From links to vaults: at most one packet per link and per vault and cycle.  \<open>receive\<close> works on the
  packet inside the buffer, so a rejected packet stays there with the fields \<open>receive\<close> has set.  A
  packet for another cube stays at the front: the assertion of that branch repeats its condition.
\<close>

fun to_vaults ::
  "int \<Rightarrow> link list \<Rightarrow> int list \<Rightarrow> vault_ctrl list \<Rightarrow> (link list \<times> vault_ctrl list) res" where
  "to_vaults cub [] used_vaults ctrls = Inr ([], ctrls)"
| "to_vaults cub (l # ls) used_vaults ctrls =
     (let skip = bindR (to_vaults cub ls used_vaults ctrls) (\<lambda>(ls', cs'). Inr (l # ls', cs')) in
      case lk_input_buffer l of
        [] \<Rightarrow> skip
      | packet # rest \<Rightarrow>
          if pk_CUB packet = cub then
            bindR (nthR (rq_addr_vec (pk_req packet)) Vault) (\<lambda>vault_id.
            if vault_id \<in> set used_vaults then skip
            else bindR (indexR ctrls vault_id) (\<lambda>ctrl.
                 bindR (receive ctrl packet) (\<lambda>(ok, packet', ctrl').
                   let cs = ctrls[nat vault_id := ctrl'];
                       l' = (if ok then l\<lparr>lk_extracted_token_count :=
                                            lk_extracted_token_count l + pk_total_flits packet',
                                          lk_input_buffer := rest\<rparr>
                             else l\<lparr>lk_input_buffer := packet' # rest\<rparr>);
                       used = (if ok then vault_id # used_vaults else used_vaults)
                   in bindR (to_vaults cub ls used cs) (\<lambda>(ls', cs'). Inr (l' # ls', cs')))))
          else skip)"

text \<open>From vaults to links: at most one packet per vault and per link and cycle.\<close>

fun to_links ::
  "vault_ctrl list \<Rightarrow> int list \<Rightarrow> link list \<Rightarrow> (vault_ctrl list \<times> link list) res" where
  "to_links [] used_links links = Inr ([], links)"
| "to_links (c # cs) used_links links =
     (let skip = bindR (to_links cs used_links links) (\<lambda>(cs', ls'). Inr (c # cs', ls')) in
      case vc_response_packets c of
        [] \<Rightarrow> skip
      | packet # rest \<Rightarrow>
          bindR (indexR links (pk_SLID packet)) (\<lambda>l.
          bindR (guardR (lk_type l = HOST_SOURCE_MODE)) (\<lambda>_.
          if pk_SLID packet \<in> set used_links then skip
          else if pk_total_flits packet \<le> master_available_space l then
            bindR (to_links cs (pk_SLID packet # used_links)
                     (links[nat (pk_SLID packet) :=
                        l\<lparr>lk_output_buffer := lk_output_buffer l @ [packet]\<rparr>])) (\<lambda>(cs', ls').
              Inr (c\<lparr>vc_response_packets := rest\<rparr> # cs', ls'))
          else skip)))"

section \<open>The layer\<close>

text \<open>
  The constructor takes the number of the cube but does not store it: \<open>cub\<close> keeps whatever value the
  memory held, the argument \<open>garbage\<close> here.
\<close>

record logic_layer =
  ll_cub :: int
  ll_one_flit_cycles :: rat
  ll_xbar_clk :: int
  ll_host_links :: "link list"

definition one_flit_cycles :: "hmc \<Rightarrow> rat" where
  "one_flit_cycles h =
     (128 / (lane_speed_table (hm_lanespeed h) * of_int (link_width_table (hm_linkwidth h))))
     / h_tCK (hmc_speed_table (hm_speed h))"

definition new_logic_layer :: "int \<Rightarrow> hmc \<Rightarrow> int \<Rightarrow> int \<Rightarrow> logic_layer res" where
  "new_logic_layer garbage h host_links_num pass_thru_links_num =
     bindR (guardR (pass_thru_links_num = 0)) (\<lambda>_.
       Inr \<lparr>ll_cub = garbage, ll_one_flit_cycles = one_flit_cycles h, ll_xbar_clk = 0,
            ll_host_links = map (new_link HOST_SOURCE_MODE) [0..host_links_num - 1]\<rparr>)"

definition switch_tick :: "logic_layer \<Rightarrow> vault_ctrl list \<Rightarrow> (logic_layer \<times> vault_ctrl list) res" where
  "switch_tick ll ctrls =
     bindR (to_vaults (ll_cub ll) (ll_host_links ll) [] ctrls) (\<lambda>(links, ctrls1).
     bindR (to_links ctrls1 [] links) (\<lambda>(ctrls2, links2).
       Inr (ll\<lparr>ll_xbar_clk := ll_xbar_clk ll + 1, ll_host_links := links2\<rparr>, ctrls2)))"

fun masters_tick :: "rat \<Rightarrow> link list \<Rightarrow> (packet list \<times> link list) res" where
  "masters_tick ofc [] = Inr ([], [])"
| "masters_tick ofc (l # ls) =
     bindR (master_tick ofc l) (\<lambda>(ps, l').
     bindR (masters_tick ofc ls) (\<lambda>(qs, ls').
       Inr (ps @ qs, l' # ls')))"

definition logic_layer_tick ::
  "logic_layer \<Rightarrow> vault_ctrl list \<Rightarrow> (packet list \<times> logic_layer \<times> vault_ctrl list) res" where
  "logic_layer_tick ll ctrls =
     bindR (masters_tick (ll_one_flit_cycles ll) (ll_host_links ll)) (\<lambda>(sent, links).
     bindR (switch_tick (ll\<lparr>ll_host_links := links\<rparr>) ctrls) (\<lambda>(ll', ctrls').
       Inr (sent, ll', ctrls')))"

end
