(* ===== verification/HMC_Memory.thy ===== *)
theory HMC_Memory
  imports LogicLayer
begin

text \<open>
  The memory object of the HMC system, \<open>Memory<HMC, Controller>\<close>
  (\<open>ramulator/src/HMC_Memory.h\<close>): address mapping, packet formation and tags, the
  processing-in-memory path and the path through the links, page allocation, and the cycle that
  drives vaults and logic layers.  \<open>mm_done\<close> collects the requests whose callback the host side
  calls.  The random numbers of \<open>rand()\<close> are arguments.  The rates and averages that \<open>finish\<close>
  computes for the statistics file are not modelled.
\<close>

section \<open>State\<close>

datatype addr_type = RoCoBaVa | RoBaCoVa | RoCoBaBgVa

datatype translation = TransNone | TransRandom

record hmc_mem =
  mm_hmc :: hmc
  mm_clk :: int
  mm_pim_mode_enabled :: bool
  mm_type :: addr_type
  mm_translation :: translation
  mm_free_physical_pages :: "int list"
  mm_free_physical_pages_remaining :: int
  mm_page_translation :: "(int \<times> int, int) omap"
  mm_tags_pools :: "int list list"
  mm_ctrls :: "vault_ctrl list"
  mm_logic_layers :: "logic_layer list"
  mm_addr_bits :: "nat list"
  mm_requests_per_vault :: "int list"
  mm_tx_bits :: nat
  mm_max_address :: int
  mm_capacity_per_stack :: int
  mm_mem_req_count :: int
  mm_core_num :: int
  mm_num_dram_cycles :: int
  mm_active_cycles :: int
  mm_num_read_requests :: "int \<Rightarrow> int"
  mm_num_write_requests :: "int \<Rightarrow> int"
  mm_incoming_requests :: "int \<Rightarrow> int"
  mm_incoming_read_reqs :: "int \<Rightarrow> int"
  mm_read_latency_sum :: int
  mm_request_packet_latency_sum :: int
  mm_response_packet_latency_sum :: int
  mm_memory_footprint :: int
  mm_physical_page_replacement :: int
  mm_done :: "request list"

section \<open>Construction\<close>

definition addr_type_of :: "string \<Rightarrow> addr_type option" where
  "addr_type_of s =
     map_of [(''RoCoBaVa'', RoCoBaVa), (''RoBaCoVa'', RoBaCoVa), (''RoCoBaBgVa'', RoCoBaBgVa)] s"

text \<open>\<open>name_to_translation[s]\<close> inserts enumerator 0, \<open>None\<close>, for an unknown name.\<close>

definition translation_of :: "string \<Rightarrow> translation" where
  "translation_of s =
     (case map_of [(''None'', TransNone), (''Random'', TransRandom)] s of
        Some t \<Rightarrow> t | None \<Rightarrow> TransNone)"

definition pow2_count :: "int \<Rightarrow> bool" where
  "pow2_count n = (n AND (n - 1) = 0)"

definition org_counts :: "hmc \<Rightarrow> int list" where
  "org_counts h = org_count (hmc_org_table (hm_org h))"

text \<open>
  \<open>lays\<close> are the logic layers the constructor makes, one per stack; the two strings are the entries
  \<open>translation\<close> and \<open>addressing_type\<close> of the configuration, if present.  \<open>core_num\<close> is the number of
  cores, the size of the vectors of counters.
\<close>

definition new_hmc_mem ::
  "hmc \<Rightarrow> vault_ctrl list \<Rightarrow> bool \<Rightarrow> int \<Rightarrow> string option \<Rightarrow> string option \<Rightarrow> logic_layer list \<Rightarrow> int \<Rightarrow> hmc_mem res" where
  "new_hmc_mem h ctrls pim stacks transl addressing lays core_num =
     (let sz = org_counts h; tx = sp_prefetch_size (hm_spec h) * sp_channel_width (hm_spec h) div 8 in
      bindR (guardR (pow2_count (sz ! 0) \<and> pow2_count (sz ! 1))) (\<lambda>_.
      bindR (runR (calc_log2 tx)) (\<lambda>tx_bits.
      bindR (guardR (2 ^ tx_bits = tx)) (\<lambda>_.
      bindR (mapR (\<lambda>n. runR (calc_log2 n)) sz) (\<lambda>bits.
      bindR (runR (calc_log2 (sp_prefetch_size (hm_spec h)))) (\<lambda>pre.
      let capacity = foldl (*) (sp_channel_width (hm_spec h) div 8) sz;
          max_address = capacity * stacks;
          tr = (case transl of None \<Rightarrow> TransNone | Some s \<Rightarrow> translation_of s);
          pages = (if tr \<noteq> TransNone then max_address div 2 ^ 12 else 0)
      in bindR (case addressing of None \<Rightarrow> Inr RoCoBaVa
                | Some s \<Rightarrow> (case addr_type_of s of None \<Rightarrow> Inl AssertFailed | Some t \<Rightarrow> Inr t)) (\<lambda>ty.
      bindR (guardR (hm_source_links h > 0)) (\<lambda>_.
      Inr \<lparr>mm_hmc = h, mm_clk = 0, mm_pim_mode_enabled = pim, mm_type = ty, mm_translation = tr,
           mm_free_physical_pages = replicate (nat pages) (-1),
           mm_free_physical_pages_remaining = pages, mm_page_translation = [],
           mm_tags_pools = replicate (nat (hm_source_links h)) (map int [0..<max_tags]),
           mm_ctrls = ctrls, mm_logic_layers = lays, mm_addr_bits = bits[4 := bits ! 4 - pre],
           mm_requests_per_vault = replicate 32 0, mm_tx_bits = tx_bits,
           mm_max_address = max_address, mm_capacity_per_stack = capacity, mm_mem_req_count = 0,
           mm_core_num = core_num,
           mm_num_dram_cycles = 0, mm_active_cycles = 0, mm_num_read_requests = (\<lambda>_. 0),
           mm_num_write_requests = (\<lambda>_. 0), mm_incoming_requests = (\<lambda>_. 0),
           mm_incoming_read_reqs = (\<lambda>_. 0), mm_read_latency_sum = 0,
           mm_request_packet_latency_sum = 0, mm_response_packet_latency_sum = 0,
           mm_memory_footprint = 0, mm_physical_page_replacement = 0, mm_done = []\<rparr>))))))))"

text \<open>\<open>start_run<HMC>\<close>: one vault and controller per vault of every stack, then the memory.\<close>

definition start_run_HMC ::
  "hmc \<Rightarrow> bool \<Rightarrow> bool \<Rightarrow> bool \<Rightarrow> bool \<Rightarrow> int \<Rightarrow> string option \<Rightarrow> string option \<Rightarrow> int \<Rightarrow> int \<Rightarrow> int \<Rightarrow> int \<Rightarrow> hmc_mem res" where
  "start_run_HMC h rec nolat unlimited pim stacks transl addressing garbage host_links_num pass_thru_links_num core_num =
     bindR (mapR (\<lambda>c. new_vault_ctrl h (new_dram (hm_spec h) Vault c) rec nolat unlimited pim core_num)
              [0..org_counts h ! Vault * stacks - 1]) (\<lambda>ctrls.
     bindR (mapR (\<lambda>i. new_logic_layer garbage h host_links_num pass_thru_links_num) [0..stacks - 1])
       (\<lambda>lays. new_hmc_mem h ctrls pim stacks transl addressing lays core_num))"

section \<open>Address mapping\<close>

text \<open>
  The three orders in which \<open>send\<close> slices the address, least significant field first; the column is
  split at the block size.  \<open>bits\<close> are \<open>addr_bits\<close>, \<open>cb\<close> is \<open>max_block_col_bits\<close>; for the tables of
  HMC a block is never larger than the columns of a row, so no width is negative.
\<close>

definition map_RoCoBaVa :: "nat list \<Rightarrow> nat \<Rightarrow> int \<Rightarrow> int list" where
  "map_RoCoBaVa bits cb adr =
     (let (col, adr1) = slice_lower_bits adr cb;
          (vault, adr2) = slice_lower_bits adr1 (bits ! Vault);
          (bank, adr3) = slice_lower_bits adr2 (bits ! Bank);
          (bg, adr4) = slice_lower_bits adr3 (bits ! BankGroup);
          (column_MSB, adr5) = slice_lower_bits adr4 (bits ! Column - cb);
          (row, adr6) = slice_lower_bits adr5 (bits ! Row)
      in [vault, bg, bank, row, col OR push_bit cb column_MSB])"

definition map_RoBaCoVa :: "nat list \<Rightarrow> nat \<Rightarrow> int \<Rightarrow> int list" where
  "map_RoBaCoVa bits cb adr =
     (let (col, adr1) = slice_lower_bits adr cb;
          (vault, adr2) = slice_lower_bits adr1 (bits ! Vault);
          (column_MSB, adr3) = slice_lower_bits adr2 (bits ! Column - cb);
          (bank, adr4) = slice_lower_bits adr3 (bits ! Bank);
          (bg, adr5) = slice_lower_bits adr4 (bits ! BankGroup);
          (row, adr6) = slice_lower_bits adr5 (bits ! Row)
      in [vault, bg, bank, row, col OR push_bit cb column_MSB])"

definition map_RoCoBaBgVa :: "nat list \<Rightarrow> nat \<Rightarrow> int \<Rightarrow> int list" where
  "map_RoCoBaBgVa bits cb adr =
     (let (col, adr1) = slice_lower_bits adr cb;
          (vault, adr2) = slice_lower_bits adr1 (bits ! Vault);
          (bg, adr3) = slice_lower_bits adr2 (bits ! BankGroup);
          (bank, adr4) = slice_lower_bits adr3 (bits ! Bank);
          (column_MSB, adr5) = slice_lower_bits adr4 (bits ! Column - cb);
          (row, adr6) = slice_lower_bits adr5 (bits ! Row)
      in [vault, bg, bank, row, col OR push_bit cb column_MSB])"

fun map_address :: "addr_type \<Rightarrow> nat list \<Rightarrow> nat \<Rightarrow> int \<Rightarrow> int list" where
  "map_address RoCoBaVa = map_RoCoBaVa"
| "map_address RoBaCoVa = map_RoBaCoVa"
| "map_address RoCoBaBgVa = map_RoCoBaBgVa"

definition block_col_bits :: "hmc_mem \<Rightarrow> nat" where
  "block_col_bits m = mb_flit_num_bits (maxblock_table (hm_maxblock (mm_hmc m))) - mm_tx_bits m"

definition locate :: "hmc_mem \<Rightarrow> request \<Rightarrow> request" where
  "locate m req =
     (let adr = clear_higher_bits (rq_addr req) (mm_max_address m - 1) in
      req\<lparr>rq_initial_addr := rq_addr req, rq_reqid := mm_mem_req_count m, rq_addr := adr,
          rq_addr_vec := map_address (mm_type m) (mm_addr_bits m) (block_col_bits m)
                           (clear_lower_bits adr (mm_tx_bits m))\<rparr>)"

section \<open>Packets\<close>

definition assign_tag :: "hmc_mem \<Rightarrow> int \<Rightarrow> (int \<times> hmc_mem) res" where
  "assign_tag m slid =
     bindR (indexR (mm_tags_pools m) slid) (\<lambda>pool.
       case pool of
         [] \<Rightarrow> Inr (-1, m)
       | tag # rest \<Rightarrow> Inr (tag, m\<lparr>mm_tags_pools := (mm_tags_pools m)[nat slid := rest]\<rparr>))"

text \<open>The division and the remainder of the program truncate; the address is not negative here.\<close>

definition form_request_packet :: "hmc_mem \<Rightarrow> request \<Rightarrow> (packet \<times> hmc_mem) res" where
  "form_request_packet m req =
     (let cub = rq_addr req div mm_capacity_per_stack m;
          adr = clear_lower_bits (rq_addr req) (mb_flit_num_bits (maxblock_table (hm_maxblock (mm_hmc m))));
          slid = adr mod hm_source_links (mm_hmc m)
      in bindR (assign_tag m slid) (\<lambda>(tag, m1).
         let lng = (if rq_type req = READ then 1 else 1 + hm_payload_flits (mm_hmc m)) in
         bindR (case rq_type req of
                  READ \<Rightarrow> Inr (read_cmd_map lng) | WRITE \<Rightarrow> Inr (write_cmd_map lng) | _ \<Rightarrow> Inl AssertFailed)
           (\<lambda>cmd.
         bindR (guardR (field_valid cub cub_bits \<and> field_valid (rq_addr req) adrs_bits
                   \<and> field_valid tag tag_bits \<and> field_valid slid slid_bits
                   \<and> field_valid (packet_cmd_num cmd) cmd_bits)) (\<lambda>_.
           Inr (mk_request_packet cub (rq_addr req) tag lng slid cmd req, m1)))))"

definition receive_packets :: "hmc_mem \<Rightarrow> packet \<Rightarrow> hmc_mem res" where
  "receive_packets m packet =
     (if pk_flow_control packet then Inr m
      else
        bindR (guardR (pk_type packet = RESPONSE)) (\<lambda>_.
        bindR (indexR (mm_tags_pools m) (pk_SLID packet)) (\<lambda>pool.
          let m1 = m\<lparr>mm_tags_pools := (mm_tags_pools m)[nat (pk_SLID packet) := pool @ [pk_TAG packet]]\<rparr>;
              req = (pk_req packet)\<lparr>rq_depart_hmc := mm_clk m\<rparr>
          in Inr (if rq_type req = READ then
                    m1\<lparr>mm_read_latency_sum :=
                         mm_read_latency_sum m1 + (rq_depart_hmc req - rq_arrive_hmc req),
                       mm_request_packet_latency_sum :=
                         mm_request_packet_latency_sum m1 + (rq_arrive req - rq_arrive_hmc req),
                       mm_response_packet_latency_sum :=
                         mm_response_packet_latency_sum m1 + (rq_depart_hmc req - rq_depart req),
                       mm_done := mm_done m1 @ [req]\<rparr>
                  else m1))))"

section \<open>Sending a request\<close>

text \<open>The counters per core and per vault; an index outside of a vector fails an assertion.\<close>

definition count_request :: "request \<Rightarrow> hmc_mem \<Rightarrow> hmc_mem res" where
  "count_request req m =
     (let v = rq_addr_vec req ! Vault; vaults = org_counts (mm_hmc m) ! Vault in
      bindR (if rq_type req = READ then
               bindR (bump (mm_core_num m) (mm_num_read_requests m) (rq_coreid req)) (\<lambda>f.
               bindR (bump vaults (mm_incoming_read_reqs m) v) (\<lambda>g.
                 Inr (m\<lparr>mm_num_read_requests := f, mm_incoming_read_reqs := g\<rparr>)))
             else Inr m) (\<lambda>m1.
      bindR (if rq_type req = WRITE then
               bindR (bump (mm_core_num m1) (mm_num_write_requests m1) (rq_coreid req)) (\<lambda>f.
                 Inr (m1\<lparr>mm_num_write_requests := f\<rparr>))
             else Inr m1) (\<lambda>m2.
      bindR (bump vaults (mm_incoming_requests m2) v) (\<lambda>f.
        Inr (m2\<lparr>mm_incoming_requests := f, mm_mem_req_count := mm_mem_req_count m2 + 1\<rparr>)))))"

definition send_pim :: "hmc_mem \<Rightarrow> request \<Rightarrow> (bool \<times> hmc_mem) res" where
  "send_pim m req =
     bindR (form_request_packet m req) (\<lambda>(packet, m1).
     bindR (indexR (mm_ctrls m1) (rq_addr_vec req ! Vault)) (\<lambda>ctrl.
     bindR (receive ctrl packet) (\<lambda>(ok, packet', ctrl').
     bindR (count_request req (m1\<lparr>mm_ctrls := (mm_ctrls m1)[nat (rq_addr_vec req ! Vault) := ctrl']\<rparr>)) (\<lambda>m2.
       Inr (True, m2)))))"

definition send_link :: "hmc_mem \<Rightarrow> request \<Rightarrow> (bool \<times> hmc_mem) res" where
  "send_link m req =
     bindR (form_request_packet m req) (\<lambda>(packet, m1).
       if pk_TAG packet = -1 then Inr (False, m1)
       else
         bindR (nthR (mm_logic_layers m1) 0) (\<lambda>ll.
         bindR (indexR (ll_host_links ll) (pk_tail_SLID packet)) (\<lambda>l.
           if pk_total_flits packet \<le> slave_available_space l then
             bindR (count_request req
                      (m1\<lparr>mm_logic_layers := (mm_logic_layers m1)[0 := ll\<lparr>ll_host_links :=
                         (ll_host_links ll)[nat (pk_tail_SLID packet) := slave_receive packet l]\<rparr>]\<rparr>)) (\<lambda>m2.
               Inr (True, m2))
           else Inr (False, m1))))"

definition send :: "hmc_mem \<Rightarrow> request \<Rightarrow> (bool \<times> hmc_mem) res" where
  "send m req0 =
     (let req = (locate m req0)\<lparr>rq_arrive_hmc := mm_clk m\<rparr>; v = rq_addr_vec req ! Vault in
      bindR (indexR (mm_requests_per_vault m) v) (\<lambda>n.
        let m1 = m\<lparr>mm_requests_per_vault := (mm_requests_per_vault m)[nat v := n + 1]\<rparr> in
        if mm_pim_mode_enabled m1 then send_pim m1 req else send_link m1 req))"

section \<open>One cycle\<close>

text \<open>
  The host receives a packet while the master that sends it is ticked.  That only touches the tag
  pools, the sums and the callbacks, so the packets of a cycle are collected and received at its end.
\<close>

fun tick_layers ::
  "logic_layer list \<Rightarrow> vault_ctrl list \<Rightarrow> (packet list \<times> logic_layer list \<times> vault_ctrl list) res" where
  "tick_layers [] ctrls = Inr ([], [], ctrls)"
| "tick_layers (ll # lls) ctrls =
     bindR (logic_layer_tick ll ctrls) (\<lambda>(sent, ll', ctrls1).
     bindR (tick_layers lls ctrls1) (\<lambda>(sent', lls', ctrls2).
       Inr (sent @ sent', ll' # lls', ctrls2)))"

text \<open>\<open>mem_cycle\<close> also returns the packets that the links send to the host in this cycle.\<close>

definition mem_cycle :: "hmc_mem \<Rightarrow> (packet list \<times> hmc_mem) res" where
  "mem_cycle m =
     (let m1 = m\<lparr>mm_clk := mm_clk m + 1, mm_num_dram_cycles := mm_num_dram_cycles m + 1\<rparr>;
          active = (\<exists>c\<in>set (mm_ctrls m1). ctrl_is_active c)
      in bindR (mapR ctrl_tick (mm_ctrls m1)) (\<lambda>ctrls.
         let m2 = m1\<lparr>mm_active_cycles := mm_active_cycles m1 + (if active then 1 else 0)\<rparr> in
         bindR (tick_layers (mm_logic_layers m2) ctrls) (\<lambda>(sent, lls, ctrls').
           Inr (sent, m2\<lparr>mm_logic_layers := lls, mm_ctrls := ctrls'\<rparr>))))"

definition mem_tick :: "hmc_mem \<Rightarrow> hmc_mem res" where
  "mem_tick m =
     bindR (mem_cycle m) (\<lambda>(sent, m1). foldR (\<lambda>packet m. receive_packets m packet) sent m1)"

definition pending_requests :: "hmc_mem \<Rightarrow> int" where
  "pending_requests m =
     sum_list (map (\<lambda>c. int (length (qu_q (vc_readq c))) + int (length (qu_q (vc_writeq c)))
                        + int (length (qu_q (vc_otherq c))) + int (length (vc_pending c))) (mm_ctrls m))"

definition mem_finish :: "hmc_mem \<Rightarrow> hmc_mem" where
  "mem_finish m = m\<lparr>mm_ctrls := map (\<lambda>c. ctrl_finish c (mm_num_dram_cycles m)) (mm_ctrls m)\<rparr>"

section \<open>Pages\<close>

text \<open>\<open>rand()\<close> returns an \<open>int\<close> of 31 bits, a \<open>long\<close> has 64: the first number is shifted by 32.\<close>

definition lrand :: "int \<Rightarrow> int \<Rightarrow> int" where
  "lrand rand1 rand2 = push_bit 32 rand1 OR rand2"

text \<open>
  The search for a free page, from the page after \<open>p\<close> around the end of the list and up to \<open>start\<close>;
  it examines each page at most once.  \<open>start\<close> is an index of the list.
\<close>

function search_page :: "int list \<Rightarrow> int \<Rightarrow> int \<Rightarrow> int" where
  "search_page pages start p =
     (let n = int (length pages); p' = (p + 1) mod n in
      if 0 < n \<and> p' \<noteq> start mod n \<and> pages ! nat p' \<noteq> -1 then search_page pages start p' else p')"
  by auto
termination
proof (relation "measure (\<lambda>(pages, start, p). nat ((start - p - 1) mod int (length pages)))", goal_cases)
  case (2 pages start p n p')
  let ?d = "(start - p - 1) mod n"
  have n: "0 < n" "n = int (length pages)" and p': "p' = (p + 1) mod n" "p' \<noteq> start mod n" using 2 by auto
  have "(start - p') mod n = ?d" unfolding p'(1) by (simp add: mod_diff_right_eq algebra_simps)
  moreover have "(start - p') mod n \<noteq> 0"
    using p' by (metis mod_eq_dvd_iff mod_mod_trivial mod_0_imp_dvd)
  moreover have "(start - p' - 1) mod n = ((start - p') mod n - 1) mod n" by (simp add: mod_diff_left_eq)
  ultimately have "0 < ?d" "(start - p' - 1) mod n = (?d - 1) mod n"
    using pos_mod_sign [OF n(1), of "start - p - 1"] by (auto simp: order_le_less)
  moreover have "(?d - 1) mod n = ?d - 1"
    using calculation(1) pos_mod_bound [OF n(1), of "start - p - 1"] by (intro mod_pos_pos_trivial) linarith+
  ultimately show ?case using n by simp
qed simp

definition assign_page :: "hmc_mem \<Rightarrow> int \<times> int \<Rightarrow> int \<Rightarrow> int \<Rightarrow> hmc_mem res" where
  "assign_page m target coreid rnd =
     (let pages = mm_free_physical_pages m; n = int (length pages) in
      bindR (if n = 0 then Inl OutOfRange else Inr ()) (\<lambda>_.
      let p = rnd mod n in
      if mm_free_physical_pages_remaining m = 0 then
        bindR (guardR (pages ! nat p \<noteq> -1)) (\<lambda>_.
          Inr (m\<lparr>mm_physical_page_replacement := mm_physical_page_replacement m + 1,
                 mm_page_translation := om_put target p (mm_page_translation m)\<rparr>))
      else
        let p1 = (if pages ! nat p \<noteq> -1 then search_page pages p p else p) in
        bindR (guardR (pages ! nat p1 = -1)) (\<lambda>_.
          Inr (m\<lparr>mm_page_translation := om_put target p1 (mm_page_translation m),
                 mm_free_physical_pages := pages[nat p1 := coreid],
                 mm_free_physical_pages_remaining := mm_free_physical_pages_remaining m - 1\<rparr>))))"

definition page_allocator :: "hmc_mem \<Rightarrow> int \<Rightarrow> int \<Rightarrow> int \<Rightarrow> (int \<times> hmc_mem) res" where
  "page_allocator m adr coreid rnd =
     (case mm_translation m of
        TransNone \<Rightarrow> Inr (adr, m)
      | TransRandom \<Rightarrow>
          let target = (coreid, drop_bit 12 adr) in
          bindR (if map_of (mm_page_translation m) target = None
                 then assign_page (m\<lparr>mm_memory_footprint := mm_memory_footprint m + 2 ^ 12\<rparr>) target coreid rnd
                 else Inr m) (\<lambda>m1.
          bindR (findR (map_of (mm_page_translation m1) target)) (\<lambda>page.
            Inr (push_bit 12 page OR (adr AND (2 ^ 12 - 1)), m1))))"

end
