(* ===== verification/Processor_Model.thy ===== *)
theory Processor_Model
  imports Core_Model Trace_Props Cache_Model HMC_Memory
begin

text \<open>
  The processor (\<open>Processor\<close> in \<open>ramulator/src/Processor.h\<close> and \<open>Processor.cpp\<close>) on an HMC memory: how
  its constructor spreads the requests of the traces over the cores, its clock cycle, and what it does
  with a response of the memory.  The memory is an \<open>hmc_mem\<close> with the number of pages requested so far;
  \<open>rnd k\<close> is what \<open>lrand\<close> returns for request \<open>k\<close>, if it is called.  The simulation loop \<open>run_cputrace\<close>
  of \<open>Main.cpp\<close> drives both.
\<close>

section \<open>Reading whole traces\<close>

text \<open>
  The constructor reads until the parser returns false.  Every request uses up characters of the file
  or its end, so the loops end.  Placing a request does not touch the file: the model reads all requests
  and places them afterwards (if the program would fail at both, it reports the failure of the parser).
\<close>

definition trace_left :: "trace \<Rightarrow> nat" where
  "trace_left t = length (tr_rest t) + (if tr_eof t \<or> tr_fail t then 0 else 1)"

lemma getline_left:
  assumes "getline old t = (l, t')" "\<not> tr_eof t" "\<not> tr_fail t"
  shows "trace_left t' < trace_left t"
proof -
  have "length (dropWhile (\<lambda>c. c \<noteq> newline) (tr_rest t)) \<le> length (tr_rest t)" by (rule length_dropWhile_le)
  then show ?thesis using assms
    by (auto simp: getline_def trace_left_def Let_def split: list.splits)
qed

lemma stoul_empty: "stoul 10 [] = Inl InvalidArgument"
  by (simp add: stoul_def strto_def)

lemma get_unfiltered_left:
  assumes "get_unfiltered_request t = Inr (Some r, t')"
  shows "trace_left t' < trace_left t"
proof -
  obtain l u where g: "getline [] t = (l, u)" by force
  have "u = t'" "\<not> tr_eof u" "l \<noteq> []"
    using assms stoul_empty by (auto simp: get_unfiltered_request_def g Let_def split: if_splits)
  moreover have "\<not> tr_eof t" "\<not> tr_fail t" using g calculation by (auto simp: getline_def split: if_splits)
  ultimately show ?thesis using getline_left [OF g] by simp
qed

lemma get_pisa_left:
  assumes "get_pisa_request t = Inr (Some r, t')"
  shows "trace_left t' < trace_left t"
proof -
  obtain l u where g: "getline [] t = (l, u)" by force
  have "trace_left t' = trace_left u" "\<not> tr_fail u"
    using assms by (auto simp: get_pisa_request_def g Let_def trace_left_def split: if_splits)
  moreover have "\<not> tr_eof t" "\<not> tr_fail t" using g calculation by (auto simp: getline_def split: if_splits)
  ultimately show ?thesis using getline_left [OF g] by simp
qed

lemma get_zsim_left:
  assumes "get_zsim_request t z = (True, z', t')"
  shows "trace_left t' < trace_left t"
proof -
  obtain l u where g: "getline [] t = (l, u)" by force
  have "t' = u" "\<not> tr_fail u"
    using assms by (auto simp: get_zsim_request_def g split: if_splits sum.splits)
  moreover have "\<not> tr_eof t" "\<not> tr_fail t" using g calculation by (auto simp: getline_def split: if_splits)
  ultimately show ?thesis using getline_left [OF g] by simp
qed

function read_unfiltered :: "trace \<Rightarrow> (int \<times> int \<times> req_type) list res" where
  "read_unfiltered t =
     (case get_unfiltered_request t of
        Inl er \<Rightarrow> Inl er
      | Inr (None, _) \<Rightarrow> Inr []
      | Inr (Some r, t') \<Rightarrow> bindR (read_unfiltered t') (\<lambda>rs. Inr (r # rs)))"
  by auto
termination by (relation "measure trace_left") (auto intro: get_unfiltered_left)

function read_pisa :: "trace \<Rightarrow> (int \<times> int \<times> req_type) list res" where
  "read_pisa t =
     (case get_pisa_request t of
        Inl er \<Rightarrow> Inl er
      | Inr (None, _) \<Rightarrow> Inr []
      | Inr (Some (b, a, ty, sz), t') \<Rightarrow> bindR (read_pisa t') (\<lambda>rs. Inr ((b, a, ty) # rs)))"
  by auto
termination by (relation "measure trace_left") (auto intro: get_pisa_left)

function read_zsim :: "trace \<Rightarrow> zsim_req \<Rightarrow> zsim_req list" where
  "read_zsim t z =
     (case get_zsim_request t z of
        (found, z', t') \<Rightarrow> if found then z' # read_zsim t' z' else [])"
  by auto
termination by (relation "measure (\<lambda>(t, z). trace_left t)") (auto intro: get_zsim_left [OF sym])

declare read_unfiltered.simps [simp del] read_pisa.simps [simp del] read_zsim.simps [simp del]

section \<open>Spreading the requests over the cores\<close>

text \<open>The vault of an address, as the constructor computes it from the fields of the memory.\<close>

definition vault_target :: "hmc_mem \<Rightarrow> int \<Rightarrow> int" where
  "vault_target m req_addr =
     (let tmp = clear_higher_bits req_addr (mm_max_address m - 1);
          tmp1 = clear_lower_bits tmp (mm_tx_bits m);
          tmp2 = snd (slice_lower_bits tmp1 (block_col_bits m))
      in fst (slice_lower_bits tmp2 (mm_addr_bits m ! Vault)))"

definition push_core :: "int \<Rightarrow> int \<times> int \<times> req_type \<Rightarrow> core list \<Rightarrow> core list res" where
  "push_core i r cores =
     bindR (indexR cores i) (\<lambda>c.
       Inr (cores[nat i := c\<lparr>co_rqst_queue := push_request (fst r) (fst (snd r)) (snd (snd r)) (co_rqst_queue c)\<rparr>]))"

definition modR :: "int \<Rightarrow> int \<Rightarrow> int res" where
  "modR x n = (if n = 0 then Inl DivideByZero else Inr (x mod n))"

definition place_unfiltered :: "hmc_mem \<Rightarrow> int \<times> int \<times> req_type \<Rightarrow> core list \<Rightarrow> core list res" where
  "place_unfiltered m r cores =
     bindR (modR (vault_target m (fst (snd r))) (int (length cores))) (\<lambda>i. push_core i r cores)"

text \<open>The core of a vault: one core for several vaults, or several cores in turn for each vault.\<close>

definition place_vault ::
  "int \<Rightarrow> int \<times> int \<times> req_type \<Rightarrow> int list \<times> core list \<Rightarrow> (int list \<times> core list) res" where
  "place_vault vault r rc =
     (let (round_robin, cores) = rc; number_cores = int (length cores) in
      if number_cores \<le> 32 then
        bindR (modR vault number_cores) (\<lambda>i. bindR (push_core i r cores) (\<lambda>cs. Inr (round_robin, cs)))
      else
        bindR (indexR round_robin vault) (\<lambda>k.
          let core_to_schedule = 32 * k + vault; rr = round_robin[nat vault := (k + 1) mod (number_cores div 32)] in
          if core_to_schedule < number_cores then
            bindR (push_core core_to_schedule r cores) (\<lambda>cs. Inr (rr, cs))
          else Inr (rr, cores)))"

type_synonym hmem = "hmc_mem \<times> nat"

definition hmc_page :: "(nat \<Rightarrow> int) \<Rightarrow> int \<Rightarrow> int \<Rightarrow> hmem \<Rightarrow> (int \<times> hmem) res" where
  "hmc_page rnd adr coreid mk =
     bindR (page_allocator (fst mk) adr coreid (rnd (snd mk))) (\<lambda>(a, m'). Inr (a, m', Suc (snd mk)))"

text \<open>Scheduling by the processor of the trace (\<open>disable-perf-scheduling\<close>).\<close>

definition place_cpu ::
  "(nat \<Rightarrow> int) \<Rightarrow> zsim_req \<Rightarrow> int list \<times> core list \<times> hmem \<Rightarrow> (int list \<times> core list \<times> hmem) res" where
  "place_cpu rnd z st =
     (let (offset_counter, cores, mk) = st; number_cores = int (length cores); cpu_id = zr_cpu_id z in
      bindR (if number_cores \<le> 256 then Inr (cpu_id, offset_counter)
             else bindR (indexR offset_counter cpu_id) (\<lambda>k.
                    Inr (cpu_id + k * 256, offset_counter[nat cpu_id := k + 1]))) (\<lambda>(new_cpu_id, oc).
      bindR (hmc_page rnd (zr_addr z) new_cpu_id mk) (\<lambda>(adr, mk').
      bindR (modR new_cpu_id number_cores) (\<lambda>i.
      bindR (push_core i (zr_bubble_cnt z, adr, zr_type z) cores) (\<lambda>cs.
        Inr (oc, cs, mk'))))))"

text \<open>Lines that could not be parsed have the address \<open>-1\<close> and are left out.\<close>

definition place_zsim ::
  "(nat \<Rightarrow> int) \<Rightarrow> bool \<Rightarrow> zsim_req \<Rightarrow> int list \<times> int list \<times> core list \<times> hmem
    \<Rightarrow> (int list \<times> int list \<times> core list \<times> hmem) res" where
  "place_zsim rnd disable_per_scheduling z st =
     (let (round_robin, offset_counter, cores, mk) = st in
      if zr_addr z = -1 then Inr st
      else if \<not> disable_per_scheduling then
        bindR (hmc_page rnd (zr_addr z) 0 mk) (\<lambda>(adr, mk').
        bindR (place_vault (vault_target (fst mk') adr) (zr_bubble_cnt z, adr, zr_type z) (round_robin, cores))
          (\<lambda>(rr, cs). Inr (rr, offset_counter, cs, mk')))
      else
        bindR (place_cpu rnd z (offset_counter, cores, mk)) (\<lambda>(oc, cs, mk').
          Inr (round_robin, oc, cs, mk')))"

section \<open>Construction\<close>

definition load_unfiltered :: "trace \<Rightarrow> core list \<Rightarrow> hmem \<Rightarrow> (core list \<times> hmem) res" where
  "load_unfiltered t cores mk =
     bindR (read_unfiltered t) (\<lambda>rs.
     bindR (foldR (place_unfiltered (fst mk)) rs cores) (\<lambda>cs.
       Inr (map next_from_queue cs, mk)))"

definition load_pisa :: "trace \<Rightarrow> core list \<Rightarrow> hmem \<Rightarrow> (core list \<times> hmem) res" where
  "load_pisa t cores mk =
     bindR (read_pisa t) (\<lambda>rs.
     bindR (foldR (\<lambda>r. place_vault (vault_target (fst mk) (fst (snd r))) r) rs (replicate 32 0, cores)) (\<lambda>(_, cs).
       Inr (map next_from_queue cs, mk)))"

definition load_zsim ::
  "(nat \<Rightarrow> int) \<Rightarrow> bool \<Rightarrow> zsim_req \<Rightarrow> trace \<Rightarrow> core list \<Rightarrow> hmem \<Rightarrow> (core list \<times> hmem) res" where
  "load_zsim rnd disable_per_scheduling z t cores mk =
     bindR (foldR (place_zsim rnd disable_per_scheduling) (read_zsim t z)
              (replicate 32 0, replicate 256 0, cores, mk)) (\<lambda>(_, _, cs, mk').
       Inr (map next_from_queue cs, mk'))"

record proc =
  pr_cores :: "core list"
  pr_core_caches :: "(nat \<times> nat) list"
  pr_no_core_caches :: bool
  pr_no_shared_cache :: bool
  pr_early_exit :: bool
  pr_cpu_cycles :: int

section \<open>What a core calls\<close>

type_synonym sys = "cache_system \<times> hmem"

definition send_memory :: "hmem \<Rightarrow> request \<Rightarrow> (bool \<times> hmem) res" where
  "send_memory mk r = bindR (send (fst mk) r) (\<lambda>(ok, m'). Inr (ok, m', snd mk))"

text \<open>The \<open>send\<close> of core \<open>i\<close>: its L1, the shared cache, or the memory.\<close>

definition core_send :: "proc \<Rightarrow> nat \<Rightarrow> request \<Rightarrow> sys \<Rightarrow> (bool \<times> sys) res" where
  "core_send p i r e =
     (if \<not> pr_no_core_caches p then
        bindR (nthR (pr_core_caches p) i) (\<lambda>(l2, l1).
        bindR (cache_send 3 l1 r (fst e)) (\<lambda>(ok, s). Inr (ok, s, snd e)))
      else if \<not> pr_no_shared_cache p then
        bindR (cache_send 3 0 r (fst e)) (\<lambda>(ok, s). Inr (ok, s, snd e))
      else bindR (send_memory (snd e) r) (\<lambda>(ok, mk). Inr (ok, fst e, mk)))"

text \<open>\<open>Memory<HMC>::record_core\<close> does nothing.\<close>

definition proc_env :: "(nat \<Rightarrow> int) \<Rightarrow> proc \<Rightarrow> nat \<Rightarrow> sys core_env" where
  "proc_env rnd p i =
     \<lparr>ce_send = core_send p i,
      ce_page_allocator = (\<lambda>adr coreid e. bindR (hmc_page rnd adr coreid (snd e)) (\<lambda>(a, mk). Inr (a, fst e, mk))),
      ce_record_core = (\<lambda>_ e. e)\<rparr>"

datatype trace_format = PISA | ZSIM | PIN

text \<open>
  The entries of the configuration the processor reads.  \<open>cf_limit\<close> is what the uninitialised member
  \<open>expected_limit_insts\<close> of the cores holds.
\<close>

record proc_config =
  cf_pim_mode :: bool
  cf_core_num :: nat
  cf_cpu_type :: string
  cf_format :: trace_format
  cf_split_trace :: bool
  cf_disable_per_scheduling :: bool
  cf_core_caches :: bool
  cf_l3_cache :: bool
  cf_early_exit :: bool
  cf_weighted_speedup :: bool
  cf_limit :: int

text \<open>A file that cannot be opened leaves the stream in the failed state.\<close>

definition open_trace :: "(string \<Rightarrow> string option) \<Rightarrow> bool \<Rightarrow> string \<Rightarrow> trace" where
  "open_trace files pim name =
     (case files name of
        Some content \<Rightarrow> init_trace content pim
      | None \<Rightarrow> (init_trace [] pim)\<lparr>tr_fail := True\<rparr>)"

text \<open>A split trace: core \<open>i\<close> opens the file with its number as suffix and reads its first request.\<close>

definition load_split ::
  "(nat \<Rightarrow> int) \<Rightarrow> (string \<Rightarrow> string option) \<Rightarrow> string \<Rightarrow> nat \<Rightarrow> proc \<times> sys \<Rightarrow> (proc \<times> sys) res" where
  "load_split rnd files base i pe =
     (let (p, e) = pe in
      bindR (nthR (pr_cores p) i) (\<lambda>c.
      let t = open_trace files False (base @ ''.'' @ show_digits 10 i) in
      bindR (next_from_trace (proc_env rnd p i) (c\<lparr>co_trace_per_core := t, co_split_trace := True\<rparr>) e) (\<lambda>(c', e').
        Inr (p\<lparr>pr_cores := (pr_cores p)[i := c']\<rparr>, e'))))"

text \<open>
  The constructor.  \<open>garbage\<close> and \<open>z\<close> are what uninitialised members and local variables hold; the
  address and the processor number of \<open>z\<close> are set before they are read.
\<close>

definition load_single ::
  "(nat \<Rightarrow> int) \<Rightarrow> proc_config \<Rightarrow> zsim_req \<Rightarrow> trace \<Rightarrow> core list \<Rightarrow> hmem \<Rightarrow> (core list \<times> hmem) res" where
  "load_single rnd cfg z t cores mk =
     (case cf_format cfg of
        PIN \<Rightarrow> load_unfiltered t cores mk
      | PISA \<Rightarrow> load_pisa t cores mk
      | ZSIM \<Rightarrow> load_zsim rnd (cf_disable_per_scheduling cfg) (z\<lparr>zr_addr := -1, zr_cpu_id := 0\<rparr>) t cores mk)"

definition new_processor ::
  "(nat \<Rightarrow> int) \<Rightarrow> proc_config \<Rightarrow> cache_level \<Rightarrow> zsim_req \<Rightarrow> (string \<Rightarrow> string option) \<Rightarrow> string list \<Rightarrow> hmem
    \<Rightarrow> (proc \<times> sys) res" where
  "new_processor rnd cfg garbage z files trace_list mk =
     bindR (processor_caches (cf_pim_mode cfg) (cf_core_caches cfg) (cf_l3_cache cfg) garbage (length trace_list)
              (cf_core_num cfg)) (\<lambda>(core_caches, s).
     let cores = map (\<lambda>i. new_core (int i) (cf_cpu_type cfg) (cf_limit cfg)) [0..<cf_core_num cfg];
         p = \<lparr>pr_cores = cores, pr_core_caches = core_caches, pr_no_core_caches = \<not> cf_core_caches cfg,
              pr_no_shared_cache = \<not> cf_l3_cache cfg, pr_early_exit = cf_early_exit cfg, pr_cpu_cycles = 0\<rparr>
     in bindR (nthR trace_list 0) (\<lambda>base.
        if cf_split_trace cfg then foldR (load_split rnd files base) [0..<cf_core_num cfg] (p, s, mk)
        else
          bindR (load_single rnd cfg z (open_trace files (cf_pim_mode cfg) base) cores mk) (\<lambda>(cs, mk').
            Inr (p\<lparr>pr_cores := cs\<rparr>, s, mk'))))"

section \<open>Operations of the processor\<close>

definition proc_receive :: "request \<Rightarrow> proc \<times> cache_system \<Rightarrow> (proc \<times> cache_system) res" where
  "proc_receive req ps =
     (let (p, s) = ps in
      bindR (receive_caches (\<not> pr_no_shared_cache p) (pr_core_caches p) req s) (\<lambda>s'.
      bindR (indexR (pr_cores p) (rq_coreid req)) (\<lambda>c.
      bindR (core_receive req c) (\<lambda>c'.
        Inr (p\<lparr>pr_cores := (pr_cores p)[nat (rq_coreid req) := c']\<rparr>, s')))))"

definition tick_caches :: "proc \<Rightarrow> sys \<Rightarrow> (proc \<times> sys) res" where
  "tick_caches p e =
     (if \<not> (pr_no_core_caches p \<and> pr_no_shared_cache p) then
        bindR (cache_tick send_memory (fst e) (snd e)) (\<lambda>(called, s, mk).
        bindR (foldR proc_receive called (p, s)) (\<lambda>(p', s'). Inr (p', s', mk)))
      else Inr (p, e))"

definition tick_core :: "(nat \<Rightarrow> int) \<Rightarrow> nat \<Rightarrow> proc \<times> sys \<Rightarrow> (proc \<times> sys) res" where
  "tick_core rnd i pe =
     (let (p, e) = pe in
      bindR (nthR (pr_cores p) i) (\<lambda>c.
      bindR (core_tick (proc_env rnd p i) c e) (\<lambda>(c', e').
        Inr (p\<lparr>pr_cores := (pr_cores p)[i := c']\<rparr>, e'))))"

definition proc_tick :: "(nat \<Rightarrow> int) \<Rightarrow> proc \<Rightarrow> sys \<Rightarrow> (proc \<times> sys) res" where
  "proc_tick rnd p e =
     bindR (tick_caches (p\<lparr>pr_cpu_cycles := pr_cpu_cycles p + 1\<rparr>) e) (\<lambda>(p1, e1).
       foldR (tick_core rnd) [0..<length (pr_cores p1)] (p1, e1))"

definition proc_finished :: "proc \<Rightarrow> bool" where
  "proc_finished p =
     (if pr_early_exit p then (\<exists>c\<in>set (pr_cores p). core_finished c) else (\<forall>c\<in>set (pr_cores p). core_finished c))"

definition proc_has_reached_limit :: "proc \<Rightarrow> bool" where
  "proc_has_reached_limit p \<longleftrightarrow> (\<forall>c\<in>set (pr_cores p). co_reached_limit c)"

section \<open>The simulation loop\<close>

text \<open>The remainder of the program has the sign of the dividend.\<close>

definition c_rem :: "int \<Rightarrow> int \<Rightarrow> int" where
  "c_rem u v = sgn u * (\<bar>u\<bar> mod \<bar>v\<bar>)"

function gcd_loop :: "int \<Rightarrow> int \<Rightarrow> int" where
  "gcd_loop u v = (if v \<noteq> 0 then gcd_loop v (c_rem u v) else u)"
  by auto
termination
  by (relation "measure (\<lambda>(u, v). nat \<bar>v\<bar>)") (auto simp: c_rem_def abs_mult sgn_if)

declare gcd_loop.simps [simp del]

definition tick_gcd :: "int \<Rightarrow> int \<Rightarrow> int" where
  "tick_gcd u v = (if v > u then gcd_loop v u else gcd_loop u v)"

record sim =
  sm_i :: int
  sm_next_cpu_tick :: int
  sm_next_mem_tick :: int
  sm_proc :: proc
  sm_sys :: sys

text \<open>The requests a cycle of the memory calls back: in the vaults (in memory mode) and at the host.\<close>

definition responses :: "hmc_mem \<Rightarrow> hmc_mem \<Rightarrow> request list" where
  "responses m m' =
     concat (map2 (\<lambda>c c'. drop (length (vc_done c)) (vc_done c')) (mm_ctrls m) (mm_ctrls m'))
       @ drop (length (mm_done m)) (mm_done m')"

definition sim_tick_memory :: "proc \<Rightarrow> sys \<Rightarrow> (proc \<times> sys) res" where
  "sim_tick_memory p e =
     (let (s, m, k) = e in
      bindR (mem_tick m) (\<lambda>m'.
      bindR (foldR proc_receive (responses m m') (p, s)) (\<lambda>(p', s'). Inr (p', s', m', k))))"

definition sim_done :: "proc_config \<Rightarrow> proc \<Rightarrow> sys \<Rightarrow> bool" where
  "sim_done cfg p e =
     (if cf_weighted_speedup cfg then proc_has_reached_limit p
      else if cf_early_exit cfg then proc_finished p
      else proc_finished p \<and> pending_requests (fst (snd e)) = 0)"

text \<open>One iteration with the periods \<open>cpu_tick\<close> and \<open>mem_tick\<close>; true means that the loop is left.\<close>

definition sim_iteration :: "(nat \<Rightarrow> int) \<Rightarrow> proc_config \<Rightarrow> int \<Rightarrow> int \<Rightarrow> sim \<Rightarrow> (bool \<times> sim) res" where
  "sim_iteration rnd cfg cpu_tk mem_tk st =
     bindR (if sm_i st = sm_next_cpu_tick st then
              bindR (proc_tick rnd (sm_proc st) (sm_sys st)) (\<lambda>(p, e).
                Inr (sim_done cfg p e,
                     st\<lparr>sm_next_cpu_tick := sm_next_cpu_tick st + cpu_tk, sm_proc := p, sm_sys := e\<rparr>))
            else Inr (False, st)) (\<lambda>(stop, st1).
       if stop then Inr (True, st1)
       else
         bindR (if sm_i st1 = sm_next_mem_tick st1 then
                  bindR (sim_tick_memory (sm_proc st1) (sm_sys st1)) (\<lambda>(p, e).
                    Inr (st1\<lparr>sm_next_mem_tick := sm_next_mem_tick st1 + mem_tk, sm_proc := p, sm_sys := e\<rparr>))
                else Inr st1) (\<lambda>st2.
           Inr (False, st2\<lparr>sm_i := sm_i st2 + 1\<rparr>)))"

text \<open>At most \<open>n\<close> iterations.\<close>

primrec sim_loop :: "(nat \<Rightarrow> int) \<Rightarrow> proc_config \<Rightarrow> int \<Rightarrow> int \<Rightarrow> nat \<Rightarrow> sim \<Rightarrow> (bool \<times> sim) res" where
  "sim_loop rnd cfg cpu_tk mem_tk 0 st = Inr (False, st)"
| "sim_loop rnd cfg cpu_tk mem_tk (Suc n) st =
     bindR (sim_iteration rnd cfg cpu_tk mem_tk st) (\<lambda>(stop, st').
       if stop then Inr (True, st') else sim_loop rnd cfg cpu_tk mem_tk n st')"

text \<open>
  \<open>run_cputrace\<close>: the periods are divided by their greatest common divisor.  The first component of the
  result is false if the loop did not end within \<open>n\<close> iterations.
\<close>

definition run_cputrace ::
  "(nat \<Rightarrow> int) \<Rightarrow> proc_config \<Rightarrow> cache_level \<Rightarrow> zsim_req \<Rightarrow> (string \<Rightarrow> string option) \<Rightarrow> string list
    \<Rightarrow> int \<Rightarrow> int \<Rightarrow> nat \<Rightarrow> hmc_mem \<Rightarrow> (bool \<times> sim) res" where
  "run_cputrace rnd cfg garbage z files trace_list cpu_tk mem_tk n m =
     (let cpu = (if cf_pim_mode cfg then mem_tk else cpu_tk); g = tick_gcd cpu mem_tk in
      bindR (if g = 0 then Inl DivideByZero else Inr (cpu div g, mem_tk div g)) (\<lambda>(cpu', mem').
      bindR (new_processor rnd cfg garbage z files trace_list (m, 0)) (\<lambda>(p, e).
      bindR (sim_loop rnd cfg cpu' mem' n
               \<lparr>sm_i = 0, sm_next_cpu_tick = cpu' - 1, sm_next_mem_tick = mem' - 1, sm_proc = p, sm_sys = e\<rparr>)
        (\<lambda>(stop, st). Inr (stop, if stop then st\<lparr>sm_sys := (fst (sm_sys st), mem_finish (fst (snd (sm_sys st))),
           snd (snd (sm_sys st)))\<rparr> else st)))))"

end
