(* ===== verification/DRAM_Serving.thy ===== *)
theory DRAM_Serving
  imports DRAM_Standard
begin

text \<open>
  The serving statistics of the device tree: \<open>update_serving_requests\<close> keeps, at every node, the
  number of requests in service below it.  \<open>serve_tree cnt pre t\<close> says that the counters of \<open>t\<close>
  are those given by \<open>cnt\<close>, a function on paths; a call with \<open>delta\<close> 1 or -1 on an address inside the
  tree then succeeds (its assertions hold) and adds \<open>delta\<close> exactly along the path.
\<close>

fun serve_tree :: "(int list \<Rightarrow> int) \<Rightarrow> int list \<Rightarrow> ('c, 's) dram \<Rightarrow> bool" where
  "serve_tree cnt pre (DRAM n cs) \<longleftrightarrow>
     length pre = Suc (dn_level n) \<and> dn_id n = last pre
     \<and> dn_cur_serving_requests n = cnt pre \<and> 0 \<le> cnt pre
     \<and> (0 < cnt pre \<longrightarrow> dn_begin_of_serving n \<noteq> -1)
     \<and> (\<forall>i<length cs. serve_tree cnt (pre @ [int i]) (cs ! i))"

abbreviation vview :: "('c, 's) dram \<Rightarrow> (nat \<times> int \<times> int \<times> int) rose" where
  "vview \<equiv> view (\<lambda>n. (dn_level n, dn_id n, dn_cur_serving_requests n, dn_begin_of_serving n))"

lemma serve_tree_view:
  fixes t t' :: "('c, 's) dram"
  shows "vview t = vview t' \<Longrightarrow> serve_tree cnt pre t = serve_tree cnt pre t'"
proof (induction t arbitrary: t' pre)
  case (DRAM n cs)
  obtain m ds where t': "t' = DRAM m ds" by (cases t')
  note v = view_children [OF DRAM.prems, unfolded t' dram.sel]
  have "serve_tree cnt q (cs ! i) = serve_tree cnt q (ds ! i)" if "i < length cs" for i q
    using that v(3) by (intro DRAM.IH) simp_all
  then show ?case using v(1,2) by (simp add: t')
qed

lemma only_timing_serving:
  assumes "only_timing n n'"
  shows "(dn_level n', dn_id n', dn_cur_serving_requests n', dn_begin_of_serving n')
    = (dn_level n, dn_id n, dn_cur_serving_requests n, dn_begin_of_serving n)"
  using assms by (cases n; cases n') (simp add: only_timing_def)

lemma update_timing_vview [ram_frame]:
  "update_timing sp t cmd ad clk = Inr t' \<Longrightarrow> vview t' = vview t"
  by (rule update_timing_view) (rule only_timing_serving, assumption)

text \<open>The serving code leaves the timing and the state part of a node alone.\<close>

definition only_serving :: "('c, 's) dnode \<Rightarrow> ('c, 's) dnode \<Rightarrow> bool" where
  "only_serving n n' \<longleftrightarrow>
     (dn_level n', dn_id n', dn_next n', dn_prev n', dn_state n', dn_row_state n', dn_cur_clk n')
     = (dn_level n, dn_id n, dn_next n, dn_prev n, dn_state n, dn_row_state n, dn_cur_clk n)"

lemma serve_node_only [ram_frame]: "serve_node delta clk n = Inr n' \<Longrightarrow> only_serving n n'"
  by (auto simp: serve_node_def only_serving_def Let_def split: if_splits)

lemma update_serving_view [ram_frame]:
  assumes g: "\<And>n n'. only_serving n n' \<Longrightarrow> g n' = g n"
    and "update_serving_requests sp t ad delta clk = Inr t'"
  shows "view g t' = view g t"
  using assms(2)
proof (induction t arbitrary: t')
  case (DRAM n cs)
  from DRAM.prems obtain n' where n': "serve_node delta clk n = Inr n'" by auto
  let ?i = "nat (ad ! Suc (dn_level n))"
  from DRAM.prems n' consider "t' = DRAM n' cs"
    | c' where "?i < length cs" "update_serving_requests sp (cs ! ?i) ad delta clk = Inr c'"
      "t' = DRAM n' (cs[?i := c'])"
    by (auto split: if_splits)
  then show ?case
  proof cases
    case 1
    with g [OF serve_node_only [OF n']] show ?thesis by simp
  next
    case 2
    with DRAM.IH [OF nth_mem [OF 2(1)] 2(2)] g [OF serve_node_only [OF n']] show ?thesis
      by (simp add: map_update list_update_same_conv)
  qed
qed

lemma only_serving_views:
  assumes "only_serving n n'"
  shows "(dn_level n', dn_id n', dn_next n', dn_prev n') = (dn_level n, dn_id n, dn_next n, dn_prev n)"
    and "(dn_level n', dn_id n', dn_state n', dn_row_state n') = (dn_level n, dn_id n, dn_state n, dn_row_state n)"
  using assms by (simp_all add: only_serving_def)

lemma update_serving_tview [ram_frame]:
  "update_serving_requests sp t ad delta clk = Inr t' \<Longrightarrow> tview t' = tview t"
  by (rule update_serving_view) (rule only_serving_views, assumption)

lemma update_serving_sview [ram_frame]:
  "update_serving_requests sp t ad delta clk = Inr t' \<Longrightarrow> sview t' = sview t"
  by (rule update_serving_view) (rule only_serving_views, assumption)

section \<open>One step of the counters\<close>

lemma serve_node_total:
  assumes "delta = 1 \<or> delta = -1" and "0 \<le> clk" and "0 \<le> dn_cur_serving_requests n"
    and "delta = -1 \<longrightarrow> 0 < dn_cur_serving_requests n"
    and "0 < dn_cur_serving_requests n \<longrightarrow> dn_begin_of_serving n \<noteq> -1"
  shows "\<exists>n'. serve_node delta clk n = Inr n'
    \<and> dn_cur_serving_requests n' = dn_cur_serving_requests n + delta
    \<and> (0 < dn_cur_serving_requests n' \<longrightarrow> dn_begin_of_serving n' \<noteq> -1)"
proof (cases "delta = 1")
  case True
  show ?thesis
    using assms True by (cases "dn_cur_serving_requests n = 0") (simp_all add: serve_node_def Let_def)
next
  case False
  show ?thesis
    using assms False by (cases "dn_cur_serving_requests n = 1") (simp_all add: serve_node_def Let_def)
qed

text \<open>The counters after a call: \<open>delta\<close> more along the path of the address.\<close>

definition bump_path :: "int list \<Rightarrow> int \<Rightarrow> (int list \<Rightarrow> int) \<Rightarrow> int list \<Rightarrow> int" where
  "bump_path ad delta cnt pre = cnt pre + (if take (length pre) ad = pre then delta else 0)"

lemma take_snoc_prefix:
  assumes "take (length (pre @ [x])) ad = pre @ [x]"
  shows "take (length pre) ad = pre"
proof -
  have "take (length pre) (take (length (pre @ [x])) ad) = pre" unfolding assms by simp
  then show ?thesis by (simp add: min_def)
qed

lemma serve_tree_off_path:
  assumes "serve_tree cnt pre t" and "take (length pre) ad \<noteq> pre"
  shows "serve_tree (bump_path ad delta cnt) pre t"
  using assms
proof (induction t arbitrary: pre)
  case (DRAM n cs)
  have "serve_tree (bump_path ad delta cnt) (pre @ [int i]) (cs ! i)" if i: "i < length cs" for i
  proof (rule DRAM.IH [OF nth_mem [OF i]])
    show "serve_tree cnt (pre @ [int i]) (cs ! i)" using DRAM.prems(1) i by simp
    show "take (length (pre @ [int i])) ad \<noteq> pre @ [int i]"
      using DRAM.prems(2) take_snoc_prefix [of pre "int i" ad] by argo
  qed
  moreover have "bump_path ad delta cnt pre = cnt pre" using DRAM.prems(2) by (simp add: bump_path_def)
  ultimately show ?case using DRAM.prems(1) by simp
qed

definition full_addr :: "('c, 's) spec \<Rightarrow> int list \<Rightarrow> bool" where
  "full_addr sp ad \<longleftrightarrow>
     sp_row_level sp < length ad
     \<and> (\<forall>lv. Suc lv < sp_row_level sp \<longrightarrow> 0 \<le> ad ! Suc lv \<and> ad ! Suc lv < sp_count sp (Suc lv))"

lemma update_serving_total:
  assumes "serve_tree cnt pre t" and "tree_inv sp H pre t" and "take (length pre) ad = pre"
    and "full_addr sp ad" and "length pre \<le> sp_row_level sp" and "sp_row_level sp \<le> sp_bank_level sp + 2"
    and "delta = 1 \<or> delta = -1" and "0 \<le> clk"
    and "delta = -1 \<longrightarrow> (\<forall>q. take (length q) ad = q \<and> q \<noteq> [] \<longrightarrow> 0 < cnt q)"
  shows "\<exists>t'. update_serving_requests sp t ad delta clk = Inr t'
    \<and> serve_tree (bump_path ad delta cnt) pre t'"
  using assms(1-3,5)
proof (induction t arbitrary: pre)
  case (DRAM n cs)
  let ?l = "dn_level n" and ?i = "nat (ad ! Suc (dn_level n))"
  have n: "length pre = Suc ?l" "dn_id n = last pre" "dn_cur_serving_requests n = cnt pre" "0 \<le> cnt pre"
    "0 < cnt pre \<longrightarrow> dn_begin_of_serving n \<noteq> -1" using DRAM.prems(1) by auto
  have pre: "pre \<noteq> []" using n(1) by auto
  have lt: "Suc ?l < length ad" using assms(4) DRAM.prems(4) n(1) by (simp add: full_addr_def)
  have id: "dn_id n = ad ! ?l"
    using DRAM.prems(3) n(1,2) pre lt by (metis last_conv_nth diff_Suc_1 lessI nth_take)
  obtain n' where n': "serve_node delta clk n = Inr n'" "dn_cur_serving_requests n' = cnt pre + delta"
    "0 < cnt pre + delta \<longrightarrow> dn_begin_of_serving n' \<noteq> -1"
    using serve_node_total [of delta clk n] assms(7-9) n pre DRAM.prems(3) by auto
  have here: "bump_path ad delta cnt pre = cnt pre + delta" "0 \<le> cnt pre + delta"
    using DRAM.prems(3) assms(7,9) n(4) pre by (auto simp: bump_path_def)
  have n'f: "dn_level n' = ?l" "dn_id n' = last pre"
    using serve_node_only [OF n'(1)] n(2) by (simp_all add: only_serving_def)
  have kids: "serve_tree (bump_path ad delta cnt) (pre @ [int j]) (cs ! j)"
    if "j < length cs" "int j \<noteq> ad ! Suc ?l" for j
  proof (rule serve_tree_off_path)
    show "serve_tree cnt (pre @ [int j]) (cs ! j)" using DRAM.prems(1) that(1) by simp
    show "take (length (pre @ [int j])) ad \<noteq> pre @ [int j]"
      using that(2) n(1) lt DRAM.prems(3) by (simp add: take_Suc_conv_app_nth)
  qed
  show ?case
  proof (cases "cs = []")
    case True
    with n' here n'f n(1) id lt assms(7) show ?thesis by (simp add: nthR_lt)
  next
    case False
    then have row: "Suc ?l < sp_row_level sp" and len: "length cs = nat (sp_count sp (Suc ?l))"
      using DRAM.prems(2) by (auto split: if_splits)
    then have a: "0 \<le> ad ! Suc ?l" "?i < length cs" using assms(4) by (auto simp: full_addr_def)
    have path: "take (length (pre @ [int ?i])) ad = pre @ [int ?i]"
      using n(1) lt DRAM.prems(3) a(1) by (simp add: take_Suc_conv_app_nth)
    obtain c' where c': "update_serving_requests sp (cs ! ?i) ad delta clk = Inr c'"
      "serve_tree (bump_path ad delta cnt) (pre @ [int ?i]) c'"
    proof -
      have "serve_tree cnt (pre @ [int ?i]) (cs ! ?i)" "tree_inv sp H (pre @ [int ?i]) (cs ! ?i)"
        using DRAM.prems(1,2) a(2) by (simp_all del: int_nat_eq)
      then show thesis using DRAM.IH [OF nth_mem [OF a(2)] _ _ path] row n(1) that by auto
    qed
    have upd: "update_serving_requests sp (DRAM n cs) ad delta clk = Inr (DRAM n' (cs[?i := c']))"
      using a c'(1) n'(1) id lt assms(6,7) row False by (auto simp: nthR_lt)
    have "serve_tree (bump_path ad delta cnt) (pre @ [int j]) (cs[?i := c'] ! j)" if "j < length cs" for j
      using kids [OF that] c'(2) a by (cases "j = ?i") auto
    with upd here n' n'f n(1) show ?thesis by simp
  qed
qed

lemma serve_tree_new:
  "length pre = lv \<Longrightarrow> serve_tree (\<lambda>_. 0) (pre @ [i]) (new_dram sp lv i)"
proof (induction "sp_row_level sp - lv" arbitrary: pre lv i rule: less_induct)
  case less
  have "serve_tree (\<lambda>_. 0) ((pre @ [i]) @ [int k]) (new_dram sp (Suc lv) (int k))"
    if "\<not> sp_row_level sp \<le> Suc lv" for k
    using less.hyps [of "Suc lv" "pre @ [i]"] that less.prems by simp
  with less.prems show ?case
    by (simp add: new_dram.simps [of sp lv i]) (simp add: init_dnode_def)
qed

end
