(* ===== verification/HMC_Ctrl_Device.thy ===== *)
theory HMC_Ctrl_Device
  imports HMC_Controller DRAM_Serving
begin

text \<open>
  The vault controller and its device.  \<open>dev_rel c H A\<close> ties a controller to the history \<open>H\<close> of the
  commands it has issued and to the abstract vault \<open>A\<close> that this history leads to: the timing bookkeeping represents \<open>H\<close>, every
  command of \<open>H\<close> was legal when it was issued, the banks are those of \<open>A\<close>, the row table lists
  exactly the open rows of \<open>A\<close>, and the command trace (if recorded) is \<open>H\<close>.  Under \<open>dev_rel\<close> the
  queries of the scheduler are total and issuing the decoded command of a ready request succeeds.
\<close>

section \<open>The row table and the open rows\<close>

fun key_row :: "hmc_org \<Rightarrow> int \<Rightarrow> vault_abs \<Rightarrow> int list \<Rightarrow> int option" where
  "key_row org v A [v', g, b] =
     (if v' = v \<and> 0 \<le> g \<and> nat g < nbg org \<and> 0 \<le> b \<and> nat b < nbank org
      then va_rows A (nat g) (nat b) else None)"
| "key_row org v A _ = None"

definition rowtab_rel :: "hmc_org \<Rightarrow> int \<Rightarrow> vault_abs \<Rightarrow> row_table \<Rightarrow> bool" where
  "rowtab_rel org v A tb \<longleftrightarrow>
     om_ok tb \<and> (\<forall>k. map_option re_row (map_of tb k) = key_row org v A k)"

lemma key_row_SomeD:
  "key_row org v A k = Some r \<Longrightarrow>
   \<exists>g b. k = [v, int g, int b] \<and> g < nbg org \<and> b < nbank org \<and> va_rows A g b = Some r"
  by (induction org v A k rule: key_row.induct) (auto split: if_splits intro!: exI)

lemma rowtab_key:
  assumes "rowtab_rel org v A tb" and "p \<in> set tb"
  shows "\<exists>g b. fst p = [v, int g, int b] \<and> g < nbg org \<and> b < nbank org \<and> va_rows A g b \<noteq> None"
proof -
  have "map_of tb (fst p) \<noteq> None" using assms(2) by (auto simp: map_of_eq_None_iff)
  then obtain r where "key_row org v A (fst p) = Some r"
    using assms(1) by (metis rowtab_rel_def map_option_is_None not_None_eq)
  from key_row_SomeD [OF this] show ?thesis by auto
qed

lemma bank_addr_group:
  assumes "bank_addr org ad" and "ad ! 0 = v"
  shows "take 3 ad = [v, ad ! 1, ad ! 2]" "key_row org v A (take 3 ad) = va_rows A (nat (ad ! 1)) (nat (ad ! 2))"
proof -
  obtain a b c d e where "ad = [a, b, c, d, e]"
    using assms(1) by (auto simp: bank_addr_def length_Suc_conv eval_nat_numeral)
  with assms show "take 3 ad = [v, ad ! 1, ad ! 2]"
    "key_row org v A (take 3 ad) = va_rows A (nat (ad ! 1)) (nat (ad ! 2))"
    by (auto simp: bank_addr_def)
qed

lemma key_row_set_row:
  assumes "bank_addr org ad" and "ad ! 0 = v"
  shows "key_row org v (set_row (nat (ad ! 1)) (nat (ad ! 2)) r A) k
    = (if k = take 3 ad then r else key_row org v A k)"
  using assms bank_addr_group(1) [OF assms]
  by (induction org v A k rule: key_row.induct) (auto simp: set_row_def bank_addr_def)

lemma equalR_take:
  "n \<le> length as \<Longrightarrow> n \<le> length ks \<Longrightarrow> equalR n as ks = Inr (take n as = take n ks)"
  by (induction n as ks rule: equalR.induct) auto

lemma rt_close_eq:
  "n \<le> length ad \<Longrightarrow> (\<And>p. p \<in> set tb \<Longrightarrow> n \<le> length (fst p)) \<Longrightarrow>
   rt_close n ad tb = Inr (filter (\<lambda>p. take n (fst p) \<noteq> take n ad) tb)"
  by (induction tb) (auto simp: equalR_take)

lemma filter_shorter: "x \<in> set xs \<Longrightarrow> \<not> P x \<Longrightarrow> length (filter P xs) < length xs"
  by (rule length_filter_less)

lemma hmc_spec_sel2 [simp]:
  "sp_is_accessing (hmc_spec org speed) = is_accessing" "sp_is_closing (hmc_spec org speed) = is_closing"
  "sp_PRE (hmc_spec org speed) = PRE"
  by (simp_all add: hmc_spec_def)

lemma rt_update_ACT:
  assumes "rowtab_rel org v A tb" and "bank_addr org ad" "ad ! 0 = v"
    and "va_rows A (nat (ad ! 1)) (nat (ad ! 2)) = None"
  shows "\<exists>tb'. rt_update (hmc_spec org speed) ACT ad clk tb = Inr tb'
    \<and> rowtab_rel org v (abs_step org ACT ad A) tb'"
proof -
  let ?e = "\<lparr>re_row = ad ! 3, re_hits = 0, re_timestamp = clk\<rparr>"
  have "map_of tb (take 3 ad) = None"
    using assms bank_addr_group(2) [OF assms(2,3), of A] by (metis rowtab_rel_def map_option_is_None)
  then have "rowtab_rel org v (abs_step org ACT ad A) (om_insert (take 3 ad) ?e tb)"
    using assms(1) by (auto simp: rowtab_rel_def abs_step_def key_row_set_row [OF assms(2,3)]
        om.find_ins om.ok_ins simp del: One_nat_def)
  moreover have "3 < length ad" using assms(2) by (simp add: bank_addr_def)
  ultimately show ?thesis by (simp add: rt_update_def nthR_lt Let_def)
qed

lemma rt_update_access:
  assumes "rowtab_rel org v A tb" and "bank_addr org ad" "ad ! 0 = v"
    and "va_rows A (nat (ad ! 1)) (nat (ad ! 2)) = Some (ad ! 3)" and "cmd = RD \<or> cmd = WR"
  shows "\<exists>tb'. rt_update (hmc_spec org speed) cmd ad clk tb = Inr tb'
    \<and> rowtab_rel org v (abs_step org cmd ad A) tb'"
proof -
  have "map_option re_row (map_of tb (take 3 ad)) = Some (ad ! 3)"
    using assms bank_addr_group(2) [OF assms(2,3), of A] by (metis rowtab_rel_def)
  then obtain e where e: "map_of tb (take 3 ad) = Some e" "re_row e = ad ! 3" by auto
  let ?e = "e\<lparr>re_hits := re_hits e + 1, re_timestamp := clk\<rparr>"
  have "rowtab_rel org v A (om_put (take 3 ad) ?e tb)"
    using assms(1) e by (auto simp: rowtab_rel_def om.find_put om.ok_put) (metis option.simps(9))
  moreover have "3 < length ad" using assms(2) by (simp add: bank_addr_def)
  moreover have "abs_step org cmd ad A = A" using assms(5) by (auto simp: abs_step_def)
  ultimately show ?thesis
    using assms(5) e by (auto simp: rt_update_def rt_access_def nthR_lt Let_def)
qed

lemma rt_update_PRE:
  assumes "rowtab_rel org v A tb" and "bank_addr org ad" "ad ! 0 = v"
    and "va_rows A (nat (ad ! 1)) (nat (ad ! 2)) = Some r"
  shows "\<exists>tb'. rt_update (hmc_spec org speed) PRE ad clk tb = Inr tb'
    \<and> rowtab_rel org v (abs_step org PRE ad A) tb'"
proof -
  have len: "length ad = 5" using assms(2) by (simp add: bank_addr_def)
  have keys: "length (fst p) = 3" if "p \<in> set tb" for p using rowtab_key [OF assms(1) that] by auto
  then have "filter (\<lambda>p. take 3 (fst p) \<noteq> take 3 ad) tb = om_erase (take 3 ad) tb"
    unfolding om_erase_def by (intro filter_cong) auto
  then have cl: "rt_close 3 ad tb = Inr (om_erase (take 3 ad) tb)"
    using rt_close_eq [of 3 ad tb] keys len by simp
  have "map_option re_row (map_of tb (take 3 ad)) = Some r"
    using assms bank_addr_group(2) [OF assms(2,3), of A] by (metis rowtab_rel_def)
  then obtain e where e: "(take 3 ad, e) \<in> set tb" by (auto dest: map_of_SomeD)
  then have "length (om_erase (take 3 ad) tb) < length tb"
    unfolding om_erase_def by (rule filter_shorter) simp
  moreover have "rowtab_rel org v (abs_step org PRE ad A) (om_erase (take 3 ad) tb)"
    using assms(1) by (auto simp: rowtab_rel_def abs_step_def key_row_set_row [OF assms(2,3)]
        om.find_erase om.ok_erase simp del: One_nat_def)
  ultimately show ?thesis
    using len cl by (simp add: rt_update_def nthR_lt Let_def eval_nat_numeral)
qed

lemma rt_update_PREA:
  assumes "rowtab_rel org v A tb" and "length ad = 5" "ad ! 0 = v" and "any_open org A"
  shows "\<exists>tb'. rt_update (hmc_spec org speed) PREA ad clk tb = Inr tb'
    \<and> rowtab_rel org v (abs_step org PREA ad A) tb'"
proof -
  have t1: "take 1 ad = [v]" using assms(2,3) by (cases ad) auto
  have keys: "1 \<le> length (fst p) \<and> take 1 (fst p) = [v]" if "p \<in> set tb" for p
    using rowtab_key [OF assms(1) that] by auto
  then have cl: "rt_close 1 ad tb = Inr []"
    using rt_close_eq [of 1 ad tb] assms(2) t1 by (simp add: filter_empty_conv)
  obtain g b r where "g < nbg org" "b < nbank org" "va_rows A g b = Some r"
    using assms(4) by (auto simp: any_open_def)
  then have "key_row org v A [v, int g, int b] = Some r" by simp
  then have "tb \<noteq> []" using assms(1) unfolding rowtab_rel_def by (metis map_of.simps(1) option.simps(3,8))
  moreover have "key_row org v (A\<lparr>va_rows := \<lambda>_ _. None\<rparr>) k = None" for k
    by (induction org v A k rule: key_row.induct) auto
  ultimately show ?thesis
    using assms(2) cl by (simp add: rt_update_def nthR_lt Let_def rowtab_rel_def om_ok_def abs_step_def)
qed

section \<open>Controller and device\<close>

fun legal_hist :: "('c, 's) spec \<Rightarrow> 'c history \<Rightarrow> bool" where
  "legal_hist sp [] = True"
| "legal_hist sp ((cmd, ad, clk) # H) = (legal sp H cmd ad clk \<and> legal_hist sp H)"

text \<open>The line of the command trace that reports a command.\<close>

definition trace_line :: "('c, 's) spec \<Rightarrow> command \<times> int list \<times> int \<Rightarrow> int \<times> command \<times> int option" where
  "trace_line sp = (\<lambda>(cmd, ad, clk).
     (clk, cmd, if cmd = PREA \<or> cmd = REF then None else Some (ad ! 2 + ad ! 1 * sp_count sp 2)))"

abbreviation vc_org :: "vault_ctrl \<Rightarrow> hmc_org" where
  "vc_org c \<equiv> hm_org (vc_hmc c)"

definition vault_id :: "vault_ctrl \<Rightarrow> int" where
  "vault_id c = dn_id (dinfo (vc_channel c))"

text \<open>The vault after the commands of a history, from the state of its construction.\<close>

definition vault_after :: "hmc_org \<Rightarrow> command history \<Rightarrow> vault_abs" where
  "vault_after org H =
     foldr (\<lambda>(cmd, ad, clk). abs_step org cmd ad) H \<lparr>va_power = PowerUp, va_rows = (\<lambda>_ _. None)\<rparr>"

definition dev_rel :: "vault_ctrl \<Rightarrow> command history \<Rightarrow> vault_abs \<Rightarrow> bool" where
  "dev_rel c H A \<longleftrightarrow>
     vc_issued c = H \<and> vault_after (vc_org c) H = A \<and> tree_inv (vc_spec c) H [vault_id c] (vc_channel c) \<and> hist_ok H \<and> legal_hist (vc_spec c) H
     \<and> 0 \<le> vc_clk c \<and> (\<forall>x\<in>set H. snd (snd x) \<le> vc_clk c)
     \<and> vault_rel (vc_org c) (vc_channel c) A \<and> va_power A = PowerUp
     \<and> rowtab_rel (vc_org c) (vault_id c) A (vc_rowtable c)
     \<and> (vc_record_cmd_trace c \<longrightarrow> vc_trace c = rev (map (trace_line (vc_spec c)) H))"

text \<open>\<open>core_in n r\<close>: the request carries the number of one of \<open>n\<close> cores.\<close>

definition core_in :: "int \<Rightarrow> request \<Rightarrow> bool" where
  "core_in n r \<longleftrightarrow> 0 \<le> rq_coreid r \<and> rq_coreid r < n"

definition access_req :: "hmc_org \<Rightarrow> int \<Rightarrow> int \<Rightarrow> request \<Rightarrow> bool" where
  "access_req org n v r \<longleftrightarrow>
     (rq_type r = READ \<or> rq_type r = WRITE) \<and> bank_addr org (rq_addr_vec r) \<and> rq_addr_vec r ! 0 = v
     \<and> core_in n r"

definition refresh_req :: "int \<Rightarrow> request \<Rightarrow> bool" where
  "refresh_req v r \<longleftrightarrow> rq_type r = REFRESH \<and> rq_addr_vec r = [v, -1, -1, -1, -1]"

definition vault_req :: "hmc_org \<Rightarrow> int \<Rightarrow> int \<Rightarrow> request \<Rightarrow> bool" where
  "vault_req org n v r \<longleftrightarrow> access_req org n v r \<or> refresh_req v r"

definition next_cmd :: "vault_ctrl \<Rightarrow> vault_abs \<Rightarrow> request \<Rightarrow> command" where
  "next_cmd c A r = abs_decode (vc_org c) (translate (rq_type r)) (rq_addr_vec r) A"

lemma vault_req_addr:
  assumes "vault_req org n v r"
  shows "length (rq_addr_vec r) = 5" "rq_addr_vec r ! 0 = v"
  using assms by (auto simp: vault_req_def access_req_def refresh_req_def bank_addr_def)

lemma vc_env_sel [simp]:
  "ev_spec (vc_env c) = vc_spec c" "ev_channel (vc_env c) = vc_channel c" "ev_clk (vc_env c) = vc_clk c"
  "ev_no_DRAM_latency (vc_env c) = vc_no_DRAM_latency c"
  by (simp_all add: vc_env_def)

text \<open>The commands a powered-up vault can be asked for.\<close>

lemma next_cmd_cases:
  assumes "va_power A = PowerUp" and "vault_req (vc_org c) (vc_core_num c) v r"
  obtains
    (act) "next_cmd c A r = ACT" "access_req (vc_org c) (vc_core_num c) v r"
      "va_rows A (nat (rq_addr_vec r ! 1)) (nat (rq_addr_vec r ! 2)) = None"
  | (pre) row where "next_cmd c A r = PRE" "access_req (vc_org c) (vc_core_num c) v r"
      "va_rows A (nat (rq_addr_vec r ! 1)) (nat (rq_addr_vec r ! 2)) = Some row"
  | (cas) "next_cmd c A r = translate (rq_type r)" "access_req (vc_org c) (vc_core_num c) v r"
      "translate (rq_type r) = RD \<or> translate (rq_type r) = WR"
      "va_rows A (nat (rq_addr_vec r ! 1)) (nat (rq_addr_vec r ! 2)) = Some (rq_addr_vec r ! 3)"
  | (prea) "next_cmd c A r = PREA" "refresh_req v r" "any_open (vc_org c) A"
  | (ref) "next_cmd c A r = REF" "refresh_req v r" "\<not> any_open (vc_org c) A"
proof (cases "access_req (vc_org c) (vc_core_num c) v r")
  case True
  then have ty: "translate (rq_type r) = RD \<or> translate (rq_type r) = WR" by (auto simp: access_req_def)
  show ?thesis
  proof (cases "va_rows A (nat (rq_addr_vec r ! 1)) (nat (rq_addr_vec r ! 2))")
    case None
    with True assms(1) ty show ?thesis by (intro act) (auto simp: next_cmd_def abs_decode_def)
  next
    case (Some row)
    show ?thesis
    proof (cases "row = rq_addr_vec r ! 3")
      case True
      with Some \<open>access_req (vc_org c) (vc_core_num c) v r\<close> assms(1) ty show ?thesis
        by (intro cas) (auto simp: next_cmd_def abs_decode_def)
    next
      case False
      with Some \<open>access_req (vc_org c) (vc_core_num c) v r\<close> assms(1) ty show ?thesis
        by (intro pre) (auto simp: next_cmd_def abs_decode_def)
    qed
  qed
next
  case False
  with assms(2) have r: "refresh_req v r" by (simp add: vault_req_def)
  then have "next_cmd c A r = (if any_open (vc_org c) A then PREA else REF)"
    by (simp add: next_cmd_def abs_decode_def refresh_req_def)
  with r prea ref show ?thesis by (cases "any_open (vc_org c) A") simp_all
qed

lemma next_cmd_addr_ok:
  assumes "va_power A = PowerUp" and "vault_req (vc_org c) (vc_core_num c) v r"
  shows "addr_ok (vc_spec c) (next_cmd c A r) (rq_addr_vec r)"
proof (cases "access_req (vc_org c) (vc_core_num c) v r")
  case True
  then show ?thesis by (intro bank_addr_ok) (simp add: access_req_def)
next
  case False
  with assms(2) have r: "refresh_req v r" by (simp add: vault_req_def)
  from next_cmd_cases [OF assms] have "next_cmd c A r = PREA \<or> next_cmd c A r = REF"
    by cases (use False in auto)
  with r show ?thesis by (auto simp: refresh_req_def addr_ok_def)
qed

lemma get_first_cmd_dev:
  assumes "dev_rel c H A" and "vault_req (vc_org c) (vc_core_num c) (vault_id c) r" and "\<not> vc_no_DRAM_latency c"
  shows "get_first_cmd (vc_env c) r = Inr (next_cmd c A r)"
proof -
  have rel: "vault_rel (vc_org c) (vc_channel c) A" using assms(1) by (simp add: dev_rel_def)
  have "decode (vc_spec c) (vc_channel c) (translate (rq_type r)) (rq_addr_vec r) = Inr (next_cmd c A r)"
  proof (cases "access_req (vc_org c) (vc_core_num c) (vault_id c) r")
    case True
    then show ?thesis unfolding next_cmd_def
      by (intro decode_access [OF rel]) (auto simp: access_req_def)
  next
    case False
    then show ?thesis using assms(2) unfolding next_cmd_def
      by (intro decode_vault [OF rel]) (auto simp: vault_req_def refresh_req_def)
  qed
  with assms(3) show ?thesis by (simp add: get_first_cmd_def Let_def)
qed

lemma is_ready_cmd_dev:
  assumes "dev_rel c H A" and "addr_ok (vc_spec c) cmd ad" and "ad ! 0 = vault_id c"
  shows "is_ready_cmd (vc_env c) cmd ad = Inr (legal (vc_spec c) H cmd ad (vc_clk c))"
  using hmc.check_legal [OF _ assms(3) _ assms(2)] assms(1) by (simp add: is_ready_cmd_def dev_rel_def)

definition req_ready :: "vault_ctrl \<Rightarrow> command history \<Rightarrow> vault_abs \<Rightarrow> request \<Rightarrow> bool" where
  "req_ready c H A r = legal (vc_spec c) H (next_cmd c A r) (rq_addr_vec r) (vc_clk c)"

lemma is_ready_dev:
  assumes "dev_rel c H A" and "vault_req (vc_org c) (vc_core_num c) (vault_id c) r" and "\<not> vc_no_DRAM_latency c"
  shows "is_ready (vc_env c) r = Inr (req_ready c H A r)"
proof -
  have "va_power A = PowerUp" using assms(1) by (simp add: dev_rel_def)
  from next_cmd_addr_ok [OF this assms(2)] vault_req_addr(2) [OF assms(2)]
  show ?thesis
    by (simp add: is_ready_def get_first_cmd_dev [OF assms] is_ready_cmd_dev [OF assms(1)] req_ready_def)
qed

lemma check_row_dev:
  assumes "dev_rel c H A" and "vault_req (vc_org c) (vc_core_num c) (vault_id c) r"
  shows "\<exists>h. is_row_hit (vc_env c) r = Inr h" "\<exists>w. is_row_open (vc_env c) r = Inr w"
proof -
  have rel: "vault_rel (vc_org c) (vc_channel c) A" using assms(1) by (simp add: dev_rel_def)
  obtain n cs where t: "vc_channel c = DRAM n cs" by (cases "vc_channel c")
  have n: "dn_level n = 0" using rel by (simp add: vault_rel_def t)
  have "(\<exists>h. is_row_hit (vc_env c) r = Inr h) \<and> (\<exists>w. is_row_open (vc_env c) r = Inr w)"
  proof (cases "access_req (vc_org c) (vc_core_num c) (vault_id c) r")
    case True
    let ?ad = "rq_addr_vec r"
    have ad: "length ?ad = 5" "0 \<le> ?ad ! 1" "nat (?ad ! 1) < nbg (vc_org c)" "0 \<le> ?ad ! 2"
      "nat (?ad ! 2) < nbank (vc_org c)" and cmd: "translate (rq_type r) = RD \<or> translate (rq_type r) = WR"
      using True by (auto simp: access_req_def bank_addr_def)
    obtain m ds where gr: "cs ! nat (?ad ! 1) = DRAM m ds" by (cases "cs ! nat (?ad ! 1)")
    obtain b es where bk: "ds ! nat (?ad ! 2) = DRAM b es" by (cases "ds ! nat (?ad ! 2)")
    have cs: "length cs = nbg (vc_org c)"
      and g: "group_rel (nbank (vc_org c)) (va_rows A (nat (?ad ! 1))) (DRAM m ds)"
      using rel ad(3) unfolding gr [symmetric] by (simp_all add: vault_rel_def t)
    from g ad(5) have lv: "length cs = nbg (vc_org c)" "dn_level m = 1" "length ds = nbank (vc_org c)"
      "dn_level b = 2" "bank_rel b (va_rows A (nat (?ad ! 1)) (nat (?ad ! 2)))"
      using bk cs by (auto simp: group_rel_def dest: spec [of _ "nat (?ad ! 2)"])
    from lv(5) have st: "dn_state b = Closed \<or> dn_state b = Opened"
      by (cases "va_rows A (nat (?ad ! 1)) (nat (?ad ! 2))") auto
    have ne: "cs \<noteq> []" "ds \<noteq> []" using lv ad by auto
    from st cmd show ?thesis
      by (cases "dn_row_state b (?ad ! 3)"; elim disjE) (simp_all add: is_row_hit_def is_row_open_def t n lv ne gr bk ad nthR_lt
          hmc_rowhit_def hmc_rowopen_def ex_bool_eq numeral_2_eq_2 [symmetric] One_nat_def [symmetric]
          del: One_nat_def)
  next
    case False
    then have "rq_addr_vec r = [vault_id c, -1, -1, -1, -1]" using assms(2)
      by (simp add: vault_req_def refresh_req_def)
    then show ?thesis
      by (simp add: is_row_hit_def is_row_open_def t n nthR_lt hmc_rowhit_def hmc_rowopen_def ex_bool_eq)
  qed
  then show "\<exists>h. is_row_hit (vc_env c) r = Inr h" "\<exists>w. is_row_open (vc_env c) r = Inr w" by auto
qed

lemma update_vview:
  assumes "update (hmc_spec org speed) t cmd ad clk = Inr t'"
  shows "vview t' = vview t"
proof -
  let ?t = "DRAM ((dinfo t)\<lparr>dn_cur_clk := clk\<rparr>) (dchildren t)"
  obtain u where u: "update_state (hmc_spec org speed) ?t cmd ad = Inr u"
    "update_timing (hmc_spec org speed) u cmd ad clk = Inr t'"
    using assms by (auto simp: update_def)
  have "vview u = vview ?t"
    using u(1) unfolding update_state_def by (rule hmc.update_state_fuel_view [rotated]) simp
  moreover have "vview ?t = vview t" by (cases t) simp
  ultimately show ?thesis using update_timing_vview [OF u(2)] by simp
qed

lemma rt_update_next:
  assumes "rowtab_rel (vc_org c) v A tb" and "va_power A = PowerUp" and "vault_req (vc_org c) (vc_core_num c) v r"
  shows "\<exists>tb'. rt_update (vc_spec c) (next_cmd c A r) (rq_addr_vec r) clk tb = Inr tb'
    \<and> rowtab_rel (vc_org c) v (abs_step (vc_org c) (next_cmd c A r) (rq_addr_vec r) A) tb'"
  using assms(2,3)
proof (cases rule: next_cmd_cases)
  case act
  then show ?thesis using rt_update_ACT [OF assms(1)] by (simp add: access_req_def)
next
  case (pre row)
  then show ?thesis using rt_update_PRE [OF assms(1)] by (simp add: access_req_def)
next
  case cas
  then show ?thesis using rt_update_access [OF assms(1) _ _ _ cas(3)] by (simp add: access_req_def)
next
  case prea
  then show ?thesis using rt_update_PREA [OF assms(1)] by (simp add: refresh_req_def)
next
  case ref
  then show ?thesis using assms(1) by (simp add: rt_update_def refresh_req_def nthR_lt abs_step_def)
qed

lemma next_cmd_power:
  assumes "va_power A = PowerUp" and "vault_req (vc_org c) (vc_core_num c) v r"
  shows "va_power (abs_step (vc_org c) (next_cmd c A r) ad A) = PowerUp"
  using next_cmd_cases [OF assms] by cases (use assms(1) in \<open>auto simp: abs_step_def set_row_def\<close>)

lemma issue_dev:
  assumes "dev_rel c H A" and "vault_req (vc_org c) (vc_core_num c) (vault_id c) r" and "\<not> vc_no_DRAM_latency c"
    and "req_ready c H A r"
  shows "\<exists>ch tb tr hs. issue_cmd c (next_cmd c A r) (rq_addr_vec r)
      = Inr (c\<lparr>vc_channel := ch, vc_rowtable := tb, vc_trace := tr, vc_issued := hs\<rparr>)
    \<and> vview ch = vview (vc_channel c)
    \<and> dev_rel (c\<lparr>vc_channel := ch, vc_rowtable := tb, vc_trace := tr, vc_issued := hs\<rparr>)
        ((next_cmd c A r, rq_addr_vec r, vc_clk c) # H)
        (abs_step (vc_org c) (next_cmd c A r) (rq_addr_vec r) A)"
proof -
  let ?cmd = "next_cmd c A r" and ?ad = "rq_addr_vec r"
  let ?H = "(?cmd, ?ad, vc_clk c) # H" and ?A = "abs_step (vc_org c) ?cmd ?ad A"
  have inv: "tree_inv (vc_spec c) H [vault_id c] (vc_channel c)" and H: "hist_ok H"
    and clk: "0 \<le> vc_clk c" "\<forall>x\<in>set H. snd (snd x) \<le> vc_clk c"
    and rel: "vault_rel (vc_org c) (vc_channel c) A" and pw: "va_power A = PowerUp"
    and rt: "rowtab_rel (vc_org c) (vault_id c) A (vc_rowtable c)"
    using assms(1) by (auto simp: dev_rel_def)
  have ok: "addr_ok (vc_spec c) ?cmd ?ad" by (rule next_cmd_addr_ok [OF pw assms(2)])
  have H': "hist_ok ?H" using H clk by (auto simp: hist_ok_def)
  obtain ch where ch: "update (vc_spec c) (vc_channel c) ?cmd ?ad (vc_clk c) = Inr ch"
    "tree_inv (vc_spec c) ?H [vault_id c] ch"
    using hmc.update_inv [OF inv H' ok] by blast
  obtain tb where tb: "rt_update (vc_spec c) ?cmd ?ad (vc_clk c) (vc_rowtable c) = Inr tb"
    "rowtab_rel (vc_org c) (vault_id c) ?A tb"
    using rt_update_next [OF rt pw assms(2)] by blast
  from next_cmd_cases [OF pw assms(2)]
  have pre: "(bank_cmd ?cmd \<longrightarrow> bank_addr (vc_org c) ?ad)
    \<and> (?cmd = ACT \<longrightarrow> va_rows A (nat (?ad ! 1)) (nat (?ad ! 2)) = None)"
    by cases (auto simp: bank_cmd_def access_req_def)
  have rel': "vault_rel (vc_org c) ch ?A"
    by (rule update_vault_rel [OF rel vault_req_addr(1) [OF assms(2)] _ _ ch(1)]) (use pre in auto)
  have vv: "vview ch = vview (vc_channel c)" by (rule update_vview [OF ch(1)])
  then have vid: "dn_id (dinfo ch) = vault_id c" by (cases ch; cases "vc_channel c") (simp add: vault_id_def)
  let ?b = "snd (snd (trace_line (vc_spec c) (?cmd, ?ad, vc_clk c)))"
  have b: "trace_bank (c\<lparr>vc_channel := ch, vc_rowtable := tb, vc_issued := ?H\<rparr>) ?cmd ?ad = Inr ?b"
    using vault_req_addr(1) [OF assms(2)] by (simp add: trace_bank_def nthR_lt trace_line_def)
  define tr where "tr = (if vc_record_cmd_trace c then vc_trace c @ [(vc_clk c, ?cmd, ?b)] else vc_trace c)"
  let ?c = "c\<lparr>vc_channel := ch, vc_rowtable := tb, vc_trace := tr, vc_issued := ?H\<rparr>"
  have "issue_cmd c ?cmd ?ad = Inr ?c"
    using is_ready_cmd_dev [OF assms(1) ok vault_req_addr(2) [OF assms(2)]] assms(1,3,4) ch(1) tb(1) b
    by (simp add: issue_cmd_def req_ready_def tr_def Let_def dev_rel_def)
  moreover have "dev_rel ?c ?H ?A"
    unfolding dev_rel_def vault_id_def
    using assms(1,4) ch(2) H' clk rel' tb(2) next_cmd_power [OF pw assms(2)] vid
    by (simp add: dev_rel_def tr_def req_ready_def trace_line_def vault_after_def)
  ultimately show ?thesis using vv by blast
qed

text \<open>The serving statistics do not touch what \<open>dev_rel\<close> speaks of.\<close>

lemma set_serving_dev:
  assumes "dev_rel c H A" and "set_serving c ad delta = Inr c'"
  shows "dev_rel c' H A \<and> (\<exists>ch. c' = c\<lparr>vc_channel := ch\<rparr>) \<and> vault_id c' = vault_id c"
proof -
  obtain ch where ch: "update_serving_requests (vc_spec c) (vc_channel c) ad delta (vc_clk c) = Inr ch"
    "c' = c\<lparr>vc_channel := ch\<rparr>" using assms(2) by (auto simp: set_serving_def)
  have t: "tview ch = tview (vc_channel c)" and s: "sview ch = sview (vc_channel c)"
    using update_serving_tview [OF ch(1)] update_serving_sview [OF ch(1)] .
  have "dn_id (dinfo ch) = vault_id c" using t by (cases ch; cases "vc_channel c") (simp add: vault_id_def)
  moreover have "tree_inv (vc_spec c) H [vault_id c] ch"
    using tree_inv_tview [OF t] assms(1) by (simp add: dev_rel_def)
  moreover have "vault_rel (vc_org c) ch A"
    using vault_rel_sview [OF s [symmetric]] assms(1) by (simp add: dev_rel_def)
  ultimately have "dev_rel c' H A \<and> vault_id c' = vault_id c"
    using assms(1) ch(2) by (simp add: dev_rel_def vault_id_def)
  with ch(2) show ?thesis by blast
qed

end
