(* ===== verification/HMC_Ctrl_Inv.thy ===== *)
theory HMC_Ctrl_Inv
  imports HMC_Ctrl_Device "HOL-Library.Multiset"
begin

text \<open>
  The invariant of the vault controller and the proof that a cycle keeps it.  Under the invariant
  no assertion of the controller, the device, the row table or the statistics fails, every
  command that is issued is legal, requests are neither lost nor duplicated, and a refresh is
  done long before the next one is due.
\<close>

lemma core_in_update [simp]:
  "core_in n (r\<lparr>rq_is_first_command := b\<rparr>) = core_in n r" "core_in n (r\<lparr>rq_burst_count := i\<rparr>) = core_in n r"
  "core_in n (r\<lparr>rq_arrive := i\<rparr>) = core_in n r" "core_in n (r\<lparr>rq_depart := i\<rparr>) = core_in n r"
  "core_in n (r\<lparr>rq_arrive_hmc := i\<rparr>) = core_in n r" "core_in n (r\<lparr>rq_depart_hmc := i\<rparr>) = core_in n r"
  "core_in n (r\<lparr>rq_transaction_bytes := i\<rparr>) = core_in n r"
  by (simp_all add: core_in_def)

section \<open>Requests in service\<close>

text \<open>\<open>served M pre\<close>: how many of the addresses in \<open>M\<close> lie below the node with path \<open>pre\<close>.\<close>

definition served :: "int list multiset \<Rightarrow> int list \<Rightarrow> int" where
  "served M pre = int (size (filter_mset (\<lambda>a. take (length pre) a = pre) M))"

lemma served_add: "served (add_mset ad M) = bump_path ad 1 (served M)"
  by (rule ext) (simp add: served_def bump_path_def)

lemma served_remove:
  assumes "ad \<in># M"
  shows "served (M - {#ad#}) = bump_path ad (-1) (served M)"
proof -
  obtain N where "M = add_mset ad N" using assms by (blast dest: multi_member_split)
  then show ?thesis by (simp add: fun_eq_iff served_def bump_path_def)
qed

lemma served_pos:
  assumes "ad \<in># M" and "take (length q) ad = q"
  shows "0 < served M q"
proof -
  obtain N where "M = add_mset ad N" using assms(1) by (blast dest: multi_member_split)
  then show ?thesis using assms(2) by (simp add: served_def)
qed

definition dev_ok :: "vault_ctrl \<Rightarrow> command history \<Rightarrow> vault_abs \<Rightarrow> int list multiset \<Rightarrow> bool" where
  "dev_ok c H A M \<longleftrightarrow> dev_rel c H A \<and> serve_tree (served M) [vault_id c] (vc_channel c)"

lemma bank_addr_full: "bank_addr org ad \<Longrightarrow> full_addr (hmc_spec org speed) ad"
  using nbg_pos [of org] nbank_pos [of org]
  by (auto simp: bank_addr_def full_addr_def nbg_def nbank_def less_Suc_eq numeral_3_eq_3 numeral_2_eq_2)

lemma set_serving_step:
  assumes "dev_ok c H A M" and "bank_addr (vc_org c) ad" and "ad ! 0 = vault_id c"
    and "delta = 1 \<and> M' = add_mset ad M \<or> delta = -1 \<and> ad \<in># M \<and> M' = M - {#ad#}"
  shows "\<exists>ch. set_serving c ad delta = Inr (c\<lparr>vc_channel := ch\<rparr>)
    \<and> dev_ok (c\<lparr>vc_channel := ch\<rparr>) H A M' \<and> dn_id (dinfo ch) = vault_id c"
proof -
  have rel: "dev_rel c H A" and sv: "serve_tree (served M) [vault_id c] (vc_channel c)"
    using assms(1) by (auto simp: dev_ok_def)
  have M': "served M' = bump_path ad delta (served M)"
    using assms(4) by (auto simp: served_add served_remove)
  have "take (length [vault_id c]) ad = [vault_id c]"
    using assms(2,3) by (cases ad) (auto simp: bank_addr_def)
  moreover have "tree_inv (vc_spec c) H [vault_id c] (vc_channel c)" "0 \<le> vc_clk c"
    using rel by (auto simp: dev_rel_def)
  ultimately have "\<exists>ch. update_serving_requests (vc_spec c) (vc_channel c) ad delta (vc_clk c) = Inr ch
    \<and> serve_tree (served M') [vault_id c] ch"
    unfolding M' using assms(4) served_pos bank_addr_full [OF assms(2)]
    by (intro update_serving_total [OF sv]) auto
  then obtain ch where ch: "update_serving_requests (vc_spec c) (vc_channel c) ad delta (vc_clk c) = Inr ch"
    "serve_tree (served M') [vault_id c] ch" by blast
  then have run: "set_serving c ad delta = Inr (c\<lparr>vc_channel := ch\<rparr>)" by (simp add: set_serving_def)
  note dev = set_serving_dev [OF rel run]
  then have "dn_id (dinfo ch) = vault_id c" by (simp add: vault_id_def)
  with run dev ch(2) show ?thesis by (auto simp: dev_ok_def vault_id_def)
qed

section \<open>Packets waiting for their answer\<close>

text \<open>The header fields of a request packet are valid and it names one of the \<open>n\<close> host links.\<close>

definition fields_ok :: "int \<Rightarrow> packet \<Rightarrow> bool" where
  "fields_ok n p \<longleftrightarrow>
     0 \<le> pk_tail_SLID p \<and> pk_tail_SLID p < n \<and>
     field_valid (pk_CUB p) cub_bits \<and> field_valid (pk_TAG p) tag_bits
     \<and> field_valid (pk_tail_SLID p) slid_bits"

definition resp_ok :: "int \<Rightarrow> int \<Rightarrow> packet \<Rightarrow> bool" where
  "resp_ok n k p \<longleftrightarrow>
     pk_type p = RESPONSE \<and> \<not> pk_flow_control p \<and> 0 \<le> pk_SLID p \<and> pk_SLID p < n
     \<and> field_valid (pk_TAG p) tag_bits \<and> core_in k (pk_req p)"

definition packets_ok :: "int \<Rightarrow> int multiset \<Rightarrow> (int, packet) omap \<Rightarrow> bool" where
  "packets_ok n I tb \<longleftrightarrow>
     om_ok tb \<and> (\<forall>x. count I x \<le> 1) \<and> (\<forall>x\<in>#I. \<exists>p. map_of tb x = Some p \<and> fields_ok n p)"

lemma packets_erase:
  assumes "packets_ok n I tb" and "x \<in># I"
  shows "packets_ok n (I - {#x#}) (om_erase x tb)"
proof -
  have "count I x = 1" using assms by (metis One_nat_def count_greater_zero_iff le_antisym less_eq_Suc_le packets_ok_def)
  then have "x \<notin># I - {#x#}" by (simp add: not_in_iff)
  then have "y \<noteq> x \<and> y \<in># I" if "y \<in># I - {#x#}" for y using that by (auto dest: in_diffD)
  with assms(1) show ?thesis
    by (auto simp: packets_ok_def om.find_erase om.ok_erase intro: le_trans [OF diff_le_self])
qed

lemma form_response_step:
  assumes "packets_ok n I (vc_incoming_packets c)" and "rq_reqid r \<in># I" and "core_in k r"
  shows "\<exists>p. form_response_packet c r
      = Inr (p, c\<lparr>vc_incoming_packets := om_erase (rq_reqid r) (vc_incoming_packets c)\<rparr>)
    \<and> pk_req p = r \<and> resp_ok n k p \<and> packets_ok n (I - {#rq_reqid r#}) (om_erase (rq_reqid r) (vc_incoming_packets c))"
proof -
  obtain rp where "map_of (vc_incoming_packets c) (rq_reqid r) = Some rp" "fields_ok n rp"
    using assms by (auto simp: packets_ok_def)
  with packets_erase [OF assms(1,2)] assms(3) show ?thesis
    by (simp add: form_response_packet_def fields_ok_def resp_ok_def mk_response_packet_def Let_def)
qed

section \<open>The invariant\<close>

definition live :: "vault_ctrl \<Rightarrow> request multiset" where
  "live c = mset (qu_q (vc_readq c)) + mset (qu_q (vc_writeq c)) + mset (vc_pending c)"

definition ids :: "vault_ctrl \<Rightarrow> int multiset" where
  "ids c = image_mset rq_reqid (live c)"

definition answered :: "vault_ctrl \<Rightarrow> int multiset" where
  "answered c = image_mset (\<lambda>p. rq_reqid (pk_req p)) (mset (vc_response_packets c))
     + image_mset rq_reqid (mset (vc_done c))"

definition in_service :: "vault_ctrl \<Rightarrow> int list multiset" where
  "in_service c = image_mset rq_addr_vec
     (filter_mset (\<lambda>r. \<not> rq_is_first_command r) (mset (qu_q (vc_readq c)) + mset (qu_q (vc_writeq c)))
      + filter_mset (\<lambda>r. 1 < rq_depart r - rq_arrive r) (mset (vc_pending c)))"

fun queue_pred :: "hmc_org \<Rightarrow> int \<Rightarrow> int \<Rightarrow> int \<Rightarrow> qsel \<Rightarrow> request \<Rightarrow> bool" where
  "queue_pred org n v clk ReadQ r \<longleftrightarrow> rq_type r = READ \<and> access_req org n v r \<and> rq_arrive r \<le> clk"
| "queue_pred org n v clk WriteQ r \<longleftrightarrow> rq_type r = WRITE \<and> access_req org n v r"
| "queue_pred org n v clk OtherQ r \<longleftrightarrow> refresh_req v r \<and> rq_burst_count r = 0"

definition queues_ok :: "vault_ctrl \<Rightarrow> bool" where
  "queues_ok c \<longleftrightarrow>
     (\<forall>qs. \<forall>r\<in>set (qu_q (sel_queue qs c)). queue_pred (vc_org c) (vc_core_num c) (vault_id c) (vc_clk c) qs r)
     \<and> (\<forall>r\<in>set (vc_pending c). rq_type r = READ \<and> access_req (vc_org c) (vc_core_num c) (vault_id c) r)
     \<and> (\<not> vc_pim_mode_enabled c \<longrightarrow> (\<forall>qs. length (qu_q (sel_queue qs c)) \<le> qu_max (sel_queue qs c)))"

definition config_ok :: "vault_ctrl \<Rightarrow> bool" where
  "config_ok c \<longleftrightarrow>
     \<not> vc_no_DRAM_latency c \<and> vc_policy_type c = OpenedRow \<and> vc_sched_type c \<noteq> FRFCFS_Cap"

abbreviation vc_links :: "vault_ctrl \<Rightarrow> int" where
  "vc_links c \<equiv> hm_source_links (vc_hmc c)"

definition base_inv :: "vault_ctrl \<Rightarrow> command history \<Rightarrow> vault_abs \<Rightarrow> bool" where
  "base_inv c H A \<longleftrightarrow>
     dev_ok c H A (in_service c) \<and> queues_ok c \<and> config_ok c
     \<and> packets_ok (vc_links c) (ids c) (vc_incoming_packets c)
     \<and> (\<forall>p\<in>set (vc_response_packets c). resp_ok (vc_links c) (vc_core_num c) p)
     \<and> (\<forall>r\<in>set (vc_done c). core_in (vc_core_num c) r)"

text \<open>What the steps of a cycle outside the refresh scheduler leave alone.\<close>

definition frame :: "vault_ctrl \<Rightarrow> vault_ctrl \<Rightarrow> bool" where
  "frame c c' \<longleftrightarrow>
     vc_hmc c' = vc_hmc c \<and> vc_core_num c' = vc_core_num c \<and> vc_clk c' = vc_clk c \<and> vc_refresh c' = vc_refresh c
     \<and> vc_pim_mode_enabled c' = vc_pim_mode_enabled c \<and> vault_id c' = vault_id c
     \<and> qu_max (vc_otherq c') = qu_max (vc_otherq c)"

lemma sel_set_queue [simp]:
  "sel_queue qs' (set_queue qs q c)
    = (if qs' = qs then (sel_queue qs c)\<lparr>qu_q := q\<rparr> else sel_queue qs' c)"
  by (cases qs; cases qs') simp_all

lemma set_queue_sel [simp]:
  "vc_hmc (set_queue qs q c) = vc_hmc c" "vc_core_num (set_queue qs q c) = vc_core_num c"
  "vc_issued (set_queue qs q c) = vc_issued c" "vc_clk (set_queue qs q c) = vc_clk c"
  "vc_channel (set_queue qs q c) = vc_channel c" "vc_rowtable (set_queue qs q c) = vc_rowtable c"
  "vc_record_cmd_trace (set_queue qs q c) = vc_record_cmd_trace c" "vc_trace (set_queue qs q c) = vc_trace c"
  "vc_pim_mode_enabled (set_queue qs q c) = vc_pim_mode_enabled c" "vc_pending (set_queue qs q c) = vc_pending c"
  "vc_refresh (set_queue qs q c) = vc_refresh c" "vc_no_DRAM_latency (set_queue qs q c) = vc_no_DRAM_latency c"
  "vc_policy_type (set_queue qs q c) = vc_policy_type c" "vc_sched_type (set_queue qs q c) = vc_sched_type c"
  "vc_incoming_packets (set_queue qs q c) = vc_incoming_packets c"
  "vc_response_packets (set_queue qs q c) = vc_response_packets c" "vc_done (set_queue qs q c) = vc_done c"
  "vault_id (set_queue qs q c) = vault_id c" "qu_max (vc_otherq (set_queue qs q c)) = qu_max (vc_otherq c)"
  by (cases qs; simp add: vault_id_def)+

lemma all_qsel: "(\<forall>qs. P qs) \<longleftrightarrow> P ReadQ \<and> P WriteQ \<and> P OtherQ"
  by (metis qsel.exhaust)

lemma queues_ok_queue:
  "queues_ok c \<Longrightarrow> r \<in> set (qu_q (sel_queue qs c)) \<Longrightarrow> queue_pred (vc_org c) (vc_core_num c) (vault_id c) (vc_clk c) qs r"
  by (simp add: queues_ok_def)

lemma set_queue_ok:
  assumes "queues_ok c" and "vc_hmc c' = vc_hmc c \<and> vc_core_num c' = vc_core_num c" "vc_clk c' = vc_clk c" "vault_id c' = vault_id c"
    "vc_pim_mode_enabled c' = vc_pim_mode_enabled c" "vc_readq c' = vc_readq c" "vc_writeq c' = vc_writeq c"
    "vc_otherq c' = vc_otherq c"
    and "\<forall>r\<in>set (vc_pending c'). r \<in> set (vc_pending c) \<or> rq_type r = READ \<and> access_req (vc_org c) (vc_core_num c) (vault_id c) r"
    and "\<forall>r\<in>set q. r \<in> set (qu_q (sel_queue qs c)) \<or> queue_pred (vc_org c) (vc_core_num c) (vault_id c) (vc_clk c) qs r"
    and "length q \<le> length (qu_q (sel_queue qs c))"
  shows "queues_ok (set_queue qs q c')"
proof -
  have s: "sel_queue qs' c' = sel_queue qs' c" for qs' using assms(6-8) by (cases qs') simp_all
  show ?thesis using assms(1,9-) unfolding queues_ok_def
    by (simp add: assms(2-5) s) (meson dual_order.trans)
qed

lemmas inv_defs = base_inv_def queues_ok_def config_ok_def in_service_def ids_def live_def

lemma dev_ok_cong:
  assumes "vc_hmc c' = vc_hmc c" "vc_clk c' = vc_clk c" "vc_channel c' = vc_channel c"
    "vc_rowtable c' = vc_rowtable c" "vc_record_cmd_trace c' = vc_record_cmd_trace c"
    "vc_trace c' = vc_trace c" "vc_issued c' = vc_issued c"
  shows "dev_ok c' H A M = dev_ok c H A M"
  using assms by (simp add: dev_ok_def dev_rel_def vault_id_def)

section \<open>Completed requests\<close>

lemma retire_step:
  assumes "base_inv c H A" and "vc_pending c = r # rest"
  shows "\<exists>ch. (if rq_depart r - rq_arrive r > 1 then set_serving c (rq_addr_vec r) (-1) else Inr c)
      = Inr (c\<lparr>vc_channel := ch\<rparr>)
    \<and> dev_ok (c\<lparr>vc_channel := ch\<rparr>) H A (in_service (c\<lparr>vc_pending := rest\<rparr>)) \<and> dn_id (dinfo ch) = vault_id c"
proof (cases "rq_depart r - rq_arrive r > 1")
  case True
  have "bank_addr (vc_org c) (rq_addr_vec r)" "rq_addr_vec r ! 0 = vault_id c"
    using assms by (auto simp: base_inv_def queues_ok_def all_qsel access_req_def)
  moreover have "rq_addr_vec r \<in># in_service c"
    "in_service (c\<lparr>vc_pending := rest\<rparr>) = in_service c - {#rq_addr_vec r#}"
    using True assms(2) by (auto simp: in_service_def)
  ultimately show ?thesis
    using set_serving_step [of c H A "in_service c" "rq_addr_vec r" "-1"] assms(1) True
    by (auto simp: base_inv_def)
next
  case False
  then have "in_service (c\<lparr>vc_pending := rest\<rparr>) = in_service c" using assms(2) by (simp add: in_service_def)
  with False assms(1) show ?thesis
    by (intro exI [of _ "vc_channel c"]) (simp add: base_inv_def vault_id_def)
qed

lemma retired_inv:
  assumes "base_inv c H A" and "vc_pending c = r # rest"
    and "dev_ok (c\<lparr>vc_channel := ch\<rparr>) H A (in_service (c\<lparr>vc_pending := rest\<rparr>))"
    and "dn_id (dinfo ch) = vault_id c"
    and c': "vc_hmc c' = vc_hmc c" "vc_core_num c' = vc_core_num c" "vc_issued c' = vc_issued c" "vc_clk c' = vc_clk c" "vc_channel c' = ch"
    "vc_rowtable c' = vc_rowtable c" "vc_record_cmd_trace c' = vc_record_cmd_trace c" "vc_trace c' = vc_trace c"
    "vc_readq c' = vc_readq c" "vc_writeq c' = vc_writeq c" "vc_otherq c' = vc_otherq c"
    "vc_pending c' = rest" "vc_pim_mode_enabled c' = vc_pim_mode_enabled c"
    "vc_no_DRAM_latency c' = vc_no_DRAM_latency c" "vc_policy_type c' = vc_policy_type c"
    "vc_sched_type c' = vc_sched_type c"
    "vc_incoming_packets c' = om_erase (rq_reqid r) (vc_incoming_packets c)"
    "\<forall>p\<in>set (vc_response_packets c'). resp_ok (vc_links c) (vc_core_num c) p"
    "\<forall>r\<in>set (vc_done c'). core_in (vc_core_num c) r"
  shows "base_inv c' H A"
proof -
  have M: "in_service c' = in_service (c\<lparr>vc_pending := rest\<rparr>)" by (simp add: in_service_def c')
  have "dev_ok c' H A (in_service c')" unfolding M
    using assms(3) dev_ok_cong [of c' "c\<lparr>vc_channel := ch\<rparr>" H A] by (simp add: c')
  moreover have "vault_id c' = vault_id c" using assms(4) c' by (simp add: vault_id_def)
  then have "queues_ok c'" using assms(1,2) by (simp add: base_inv_def queues_ok_def all_qsel c')
  moreover have "ids c' = ids c - {#rq_reqid r#}" and "rq_reqid r \<in># ids c"
    using assms(2) by (simp_all add: ids_def live_def c')
  then have "packets_ok (vc_links c') (ids c') (vc_incoming_packets c')"
    using packets_erase assms(1) by (simp add: base_inv_def c')
  ultimately show ?thesis using assms(1) by (simp add: base_inv_def config_ok_def c')
qed

lemma serve_completed_step:
  assumes "base_inv c H A"
  shows "\<exists>c'. serve_completed c = Inr c' \<and> base_inv c' H A \<and> ids c' + answered c' = ids c + answered c
    \<and> frame c c' \<and> vc_otherq c' = vc_otherq c"
proof (cases "\<exists>r rest. vc_pending c = r # rest \<and> rq_depart r \<le> vc_clk c")
  case False
  then show ?thesis using assms by (auto simp: serve_completed_def frame_def split: list.split)
next
  case True
  then obtain r rest where p: "vc_pending c = r # rest" "rq_depart r \<le> vc_clk c" by blast
  obtain ch where ch: "(if rq_depart r - rq_arrive r > 1 then set_serving c (rq_addr_vec r) (-1) else Inr c)
      = Inr (c\<lparr>vc_channel := ch\<rparr>)"
    "dev_ok (c\<lparr>vc_channel := ch\<rparr>) H A (in_service (c\<lparr>vc_pending := rest\<rparr>))" "dn_id (dinfo ch) = vault_id c"
    using retire_step [OF assms p(1)] by blast
  note inv = retired_inv [OF assms p(1) ch(2,3)]
  let ?c1 = "c\<lparr>vc_channel := ch\<rparr>" and ?inc = "om_erase (rq_reqid r) (vc_incoming_packets c)"
  have r: "rq_type r = READ" "rq_reqid r \<in># ids c" and pk: "packets_ok (vc_links c) (ids c) (vc_incoming_packets ?c1)"
    and rs: "\<forall>p\<in>set (vc_response_packets c). resp_ok (vc_links c) (vc_core_num c) p"
      "\<forall>r\<in>set (vc_done c). core_in (vc_core_num c) r" and ci: "core_in (vc_core_num c) r"
    using assms p(1) by (auto simp: base_inv_def queues_ok_def all_qsel ids_def live_def access_req_def)
  show ?thesis
  proof (cases "vc_pim_mode_enabled c")
    case True
    let ?r = "r\<lparr>rq_depart_hmc := vc_clk c\<rparr>"
    let ?c = "?c1\<lparr>vc_incoming_packets := ?inc, vc_done := vc_done c @ [?r], vc_pending := rest\<rparr>"
    have "map_of (vc_incoming_packets c) (rq_reqid r) \<noteq> None" using pk r(2) by (auto simp: packets_ok_def)
    then have "serve_completed c = Inr ?c"
      using True p r(1) ch(1) by (simp add: serve_completed_def Let_def)
    moreover have "base_inv ?c H A" by (rule inv) (use rs ci in \<open>auto simp: core_in_def\<close>)
    ultimately show ?thesis using p(1) ch(3)
      by (auto simp: frame_def ids_def live_def answered_def vault_id_def)
  next
    case False
    obtain q where q: "form_response_packet ?c1 r = Inr (q, ?c1\<lparr>vc_incoming_packets := ?inc\<rparr>)" "pk_req q = r"
      "resp_ok (vc_links c) (vc_core_num c) q"
      using form_response_step [OF pk r(2) ci] by auto
    let ?c = "?c1\<lparr>vc_incoming_packets := ?inc, vc_response_packets := vc_response_packets c @ [q],
      vc_pending := rest\<rparr>"
    have "serve_completed c = Inr ?c"
      using False p q(1) ch(1) by (simp add: serve_completed_def)
    moreover have "base_inv ?c H A" by (rule inv) (use rs q(3) in auto)
    ultimately show ?thesis using p(1) ch(3) q(2)
      by (auto simp: frame_def ids_def live_def answered_def vault_id_def)
  qed
qed

section \<open>Serving the chosen request\<close>

lemma mset_nth:
  assumes "i < length q"
  obtains N where "mset q = add_mset (q ! i) N" "\<And>x. mset (q[i := x]) = add_mset x N"
    "mset (remove_nth i q) = N"
proof
  let ?N = "mset (take i q) + mset (drop (Suc i) q)"
  have q: "q = take i q @ q ! i # drop (Suc i) q" using assms by (rule id_take_nth_drop)
  show "mset q = add_mset (q ! i) ?N" by (subst q) simp
  show "mset (q[i := x]) = add_mset x ?N" for x using assms by (simp add: upd_conv_take_nth_drop)
  show "mset (remove_nth i q) = ?N" by (simp add: remove_nth_def)
qed

text \<open>The request after its first command; \<open>same_req\<close> relates the versions of a request.\<close>

definition same_req :: "request \<Rightarrow> request \<Rightarrow> bool" where
  "same_req r r' \<longleftrightarrow>
     rq_type r' = rq_type r \<and> rq_coreid r' = rq_coreid r \<and> rq_addr_vec r' = rq_addr_vec r \<and> rq_reqid r' = rq_reqid r
     \<and> rq_arrive r' = rq_arrive r \<and> (rq_type r = REFRESH \<longrightarrow> rq_burst_count r' = rq_burst_count r)"

lemma same_req_access: "same_req r r' \<Longrightarrow> access_req org n v r' = access_req org n v r"
  and same_req_refresh: "same_req r r' \<Longrightarrow> refresh_req v r' = refresh_req v r"
  and same_req_vault: "same_req r r' \<Longrightarrow> vault_req org n v r' = vault_req org n v r"
  and same_req_ready: "same_req r r' \<Longrightarrow> req_ready c H A r' = req_ready c H A r"
  by (simp_all add: same_req_def access_req_def refresh_req_def vault_req_def core_in_def req_ready_def next_cmd_def)

lemma same_req_queue:
  "same_req r r' \<Longrightarrow> queue_pred org n v clk qs r \<Longrightarrow> queue_pred org n v clk qs r'"
  using same_req_access [of r r'] same_req_refresh [of r r']
  by (cases qs) (auto simp: same_req_def refresh_req_def)

lemma in_service_same:
  assumes "i < length (qu_q (sel_queue qs c))" and "same_req r r'"
    and "rq_is_first_command r' = rq_is_first_command r"
  shows "in_service (set_queue qs ((qu_q (sel_queue qs c))[i := r']) c)
    = in_service (set_queue qs ((qu_q (sel_queue qs c))[i := r]) c)"
proof -
  obtain N where "\<And>x. mset ((qu_q (sel_queue qs c))[i := x]) = add_mset x N"
    using mset_nth [OF assms(1)] by blast
  with assms(2,3) show ?thesis by (cases qs) (auto simp: in_service_def same_req_def)
qed

lemma sel_queue_ok:
  assumes "queues_ok c" and "r \<in> set (qu_q (sel_queue qs c))"
  shows "vault_req (vc_org c) (vc_core_num c) (vault_id c) r"
  using assms by (cases qs) (auto simp: queues_ok_def all_qsel vault_req_def)

lemma sel_nth_ok:
  assumes "base_inv c H A" and "i < length (qu_q (sel_queue qs c))"
  shows "vault_req (vc_org c) (vc_core_num c) (vault_id c) (qu_q (sel_queue qs c) ! i)"
  using assms sel_queue_ok [of c _ qs] by (simp add: base_inv_def)

lemma first_serving_step:
  assumes "base_inv c H A" and "i < length (qu_q (sel_queue qs c))"
    and r: "r = qu_q (sel_queue qs c) ! i" "rq_is_first_command r"
  shows "\<exists>ch. (if rq_type r = READ \<or> rq_type r = WRITE then set_serving c (rq_addr_vec r) 1 else Inr c)
      = Inr (c\<lparr>vc_channel := ch\<rparr>)
    \<and> dev_ok (c\<lparr>vc_channel := ch\<rparr>) H A
        (in_service (set_queue qs ((qu_q (sel_queue qs c))[i := r\<lparr>rq_is_first_command := False\<rparr>]) c))
    \<and> dn_id (dinfo ch) = vault_id c"
proof -
  let ?r = "r\<lparr>rq_is_first_command := False\<rparr>"
  obtain N where N: "mset (qu_q (sel_queue qs c)) = add_mset r N"
    "mset ((qu_q (sel_queue qs c))[i := ?r]) = add_mset ?r N"
    using mset_nth [OF assms(2)] r(1) by metis
  have rs: "r \<in> set (qu_q (sel_queue qs c))" using assms(2) r(1) by simp
  show ?thesis
  proof (cases "rq_type r = READ \<or> rq_type r = WRITE")
    case True
    with rs assms(1) have a: "access_req (vc_org c) (vc_core_num c) (vault_id c) r"
      by (cases qs) (auto simp: base_inv_def queues_ok_def all_qsel refresh_req_def)
    have qs: "qs \<noteq> OtherQ" using True rs assms(1) by (auto simp: base_inv_def queues_ok_def all_qsel refresh_req_def)
    then have "in_service (set_queue qs ((qu_q (sel_queue qs c))[i := ?r]) c)
      = add_mset (rq_addr_vec r) (in_service c)"
      using N r(2) by (cases qs) (auto simp: in_service_def)
    then show ?thesis
      using set_serving_step [of c H A "in_service c" "rq_addr_vec r" 1] assms(1) True a
      by (auto simp: base_inv_def access_req_def)
  next
    case False
    then have "qs = OtherQ" using rs assms(1) by (cases qs) (auto simp: base_inv_def queues_ok_def all_qsel)
    then have "in_service (set_queue qs ((qu_q (sel_queue qs c))[i := ?r]) c) = in_service c"
      by (simp add: in_service_def)
    with False assms(1) show ?thesis
      by (intro exI [of _ "vc_channel c"]) (simp add: base_inv_def vault_id_def)
  qed
qed

lemma row_status_total:
  assumes "dev_rel c H A" and "vault_req (vc_org c) (vc_core_num c) (vault_id c) r"
  shows "\<exists>h w. row_status c r = Inr (h, w)"
proof -
  obtain h w where "is_row_hit (vc_env c) r = Inr h" "is_row_open (vc_env c) r = Inr w"
    using check_row_dev [OF assms] by blast
  then show ?thesis by (cases h) (simp_all add: row_status_def ex_bool_eq)
qed

lemma count_step:
  assumes "core_in n r"
  shows "\<exists>st. count_read n r clk h w s = Inr st" "\<exists>st. count_write n r h w s = Inr st"
  using assms by (simp_all add: count_read_def count_write_def bump_def core_in_def Let_def)

lemma first_command_step:
  assumes "base_inv c H A" and "i < length (qu_q (sel_queue qs c))" and r: "r = qu_q (sel_queue qs c) ! i"
  shows "\<exists>ch st. first_command c r
      = Inr (r\<lparr>rq_is_first_command := False\<rparr>, c\<lparr>vc_channel := ch, vc_stats := st\<rparr>)
    \<and> dev_ok (c\<lparr>vc_channel := ch, vc_stats := st\<rparr>) H A
        (in_service (set_queue qs ((qu_q (sel_queue qs c))[i := r\<lparr>rq_is_first_command := False\<rparr>]) c))
    \<and> dn_id (dinfo ch) = vault_id c"
proof (cases "rq_is_first_command r")
  case False
  then have e: "r\<lparr>rq_is_first_command := False\<rparr> = r" by simp
  have "set_queue qs ((qu_q (sel_queue qs c))[i := r]) c = c" using r by (cases qs) simp_all
  then show ?thesis using False assms(1) unfolding e
    by (intro exI [of _ "vc_channel c"] exI [of _ "vc_stats c"])
      (simp add: first_command_def base_inv_def vault_id_def)
next
  case True
  let ?r = "r\<lparr>rq_is_first_command := False\<rparr>"
  obtain ch where ch: "(if rq_type r = READ \<or> rq_type r = WRITE then set_serving c (rq_addr_vec r) 1 else Inr c)
      = Inr (c\<lparr>vc_channel := ch\<rparr>)"
    "dev_ok (c\<lparr>vc_channel := ch\<rparr>) H A (in_service (set_queue qs ((qu_q (sel_queue qs c))[i := ?r]) c))"
    "dn_id (dinfo ch) = vault_id c"
    using first_serving_step [OF assms True] by blast
  have "vault_req (vc_org c) (vc_core_num c) (vault_id c) r" using sel_nth_ok [OF assms(1,2)] r by simp
  then have "vault_req (vc_org c) (vc_core_num c) (vault_id c) ?r"
    by (simp add: vault_req_def access_req_def refresh_req_def)
  then obtain h w where st: "row_status (c\<lparr>vc_channel := ch\<rparr>) ?r = Inr (h, w)"
    using row_status_total [of "c\<lparr>vc_channel := ch\<rparr>" H A ?r] ch(2,3) by (auto simp: dev_ok_def vault_id_def)
  have "\<exists>st. first_command c r = Inr (?r, c\<lparr>vc_channel := ch, vc_stats := st\<rparr>)"
  proof (cases "rq_type r = READ \<or> rq_type r = WRITE")
    case ty: True
    then have "core_in (vc_core_num c) ?r"
      using sel_nth_ok [OF assms(1,2)] r by (auto simp: vault_req_def access_req_def refresh_req_def)
    from count_step(1) [OF this] count_step(2) [OF this] obtain s1 s2 where
      "count_read (vc_core_num c) ?r (vc_clk c) h w (vc_stats c) = Inr s1"
      "count_write (vc_core_num c) ?r h w (vc_stats c) = Inr s2" by metis
    with True ch(1) st ty show ?thesis by (elim disjE) (simp_all add: first_command_def Let_def, blast+)
  next
    case False
    with True ch(1) show ?thesis
      by (intro exI [of _ "vc_stats c"]) (cases "rq_type r", simp_all add: first_command_def Let_def)
  qed
  then obtain st where "first_command c r = Inr (?r, c\<lparr>vc_channel := ch, vc_stats := st\<rparr>)" ..
  with ch(2,3) show ?thesis
    using dev_ok_cong [of "c\<lparr>vc_channel := ch, vc_stats := st\<rparr>" "c\<lparr>vc_channel := ch\<rparr>" H A] by auto
qed

text \<open>The request in the queue is replaced by a later version of itself.\<close>

lemma put_back_inv:
  assumes "base_inv c H A" and i: "i < length (qu_q (sel_queue qs c))"
    and r: "same_req (qu_q (sel_queue qs c) ! i) r" "\<not> rq_is_first_command r"
    and c2: "c2 = c\<lparr>vc_channel := ch, vc_stats := st, vc_rowtable := tb, vc_trace := tr, vc_issued := hs\<rparr>"
    and dev: "dev_ok c2 H' A' (in_service (set_queue qs ((qu_q (sel_queue qs c))[i := r]) c))"
      "dn_id (dinfo ch) = vault_id c"
  shows "base_inv (set_queue qs ((qu_q (sel_queue qs c))[i := r]) c2) H' A'
    \<and> ids (set_queue qs ((qu_q (sel_queue qs c))[i := r]) c2) = ids c"
proof -
  let ?q = "qu_q (sel_queue qs c)"
  let ?c = "set_queue qs (?q[i := r]) c2"
  obtain N where N: "mset ?q = add_mset (?q ! i) N" "mset (?q[i := r]) = add_mset r N"
    using mset_nth [OF i] by metis
  have id: "ids ?c = ids c" using N r(1) c2 by (cases qs) (auto simp: ids_def live_def same_req_def)
  have "in_service ?c = in_service (set_queue qs (?q[i := r]) c)"
    by (cases qs) (simp_all add: in_service_def c2)
  then have "dev_ok ?c H' A' (in_service ?c)"
    using dev(1) dev_ok_cong [of ?c c2 H' A'] by (cases qs) simp_all
  moreover have "queues_ok ?c"
  proof (rule set_queue_ok)
    have ok: "queues_ok c" using assms(1) by (simp add: base_inv_def)
    then show "queues_ok c" .
    have "queue_pred (vc_org c) (vc_core_num c) (vault_id c) (vc_clk c) qs r"
      using queues_ok_queue [OF ok nth_mem [OF i]] by (rule same_req_queue [OF r(1)])
    then show "\<forall>r\<in>set (?q[i := r]). r \<in> set ?q \<or> queue_pred (vc_org c) (vc_core_num c) (vault_id c) (vc_clk c) qs r"
      using set_update_subset_insert [of ?q i r] by auto
  qed (use dev(2) in \<open>simp_all add: c2 vault_id_def\<close>)
  ultimately show ?thesis
    using assms(1) id by (simp add: base_inv_def config_ok_def c2)
qed

lemma prepare_step:
  assumes "base_inv c H A" and "i < length (qu_q (sel_queue qs c))"
    and r: "r = (qu_q (sel_queue qs c) ! i)\<lparr>rq_is_first_command := False\<rparr>" and "req_ready c H A r"
    and cmd: "cmd = next_cmd c A r"
  shows "\<exists>ch st tb tr hs c2. c2 = c\<lparr>vc_channel := ch, vc_stats := st, vc_rowtable := tb, vc_trace := tr, vc_issued := hs\<rparr>
    \<and> serve_head c qs i =
        (if cmd \<noteq> translate (rq_type r) then Inr (set_queue qs ((qu_q (sel_queue qs c))[i := r]) c2)
         else bindR (complete c2 r) (\<lambda>(req', c3).
           Inr (set_queue qs (if rq_burst_count req' = 0 then remove_nth i (qu_q (sel_queue qs c3))
                               else (qu_q (sel_queue qs c3))[i := req']) c3)))
    \<and> dev_ok c2 ((cmd, rq_addr_vec r, vc_clk c) # H) (abs_step (vc_org c) cmd (rq_addr_vec r) A)
        (in_service (set_queue qs ((qu_q (sel_queue qs c))[i := r]) c))
    \<and> dn_id (dinfo ch) = vault_id c"
proof -
  let ?M = "in_service (set_queue qs ((qu_q (sel_queue qs c))[i := r]) c)"
  obtain ch st where f: "first_command c (qu_q (sel_queue qs c) ! i) = Inr (r, c\<lparr>vc_channel := ch, vc_stats := st\<rparr>)"
    "dev_ok (c\<lparr>vc_channel := ch, vc_stats := st\<rparr>) H A ?M" "dn_id (dinfo ch) = vault_id c"
    using first_command_step [OF assms(1,2) refl] r by blast
  let ?c1 = "c\<lparr>vc_channel := ch, vc_stats := st\<rparr>"
  have vr: "vault_req (vc_org ?c1) (vc_core_num ?c1) (vault_id ?c1) r"
    using f(3) sel_nth_ok [OF assms(1,2)] by (simp add: r vault_id_def vault_req_def access_req_def refresh_req_def)
  have rel: "dev_rel ?c1 H A" and sv: "serve_tree (served ?M) [vault_id c] ch"
    using f(2,3) by (auto simp: dev_ok_def vault_id_def)
  have nl: "\<not> vc_no_DRAM_latency ?c1" using assms(1) by (simp add: base_inv_def config_ok_def)
  have nx: "next_cmd ?c1 A r = cmd" "req_ready ?c1 H A r" using assms(4) by (simp_all add: cmd next_cmd_def req_ready_def)
  obtain ch2 tb tr hs where i2: "issue_cmd ?c1 cmd (rq_addr_vec r)
      = Inr (?c1\<lparr>vc_channel := ch2, vc_rowtable := tb, vc_trace := tr, vc_issued := hs\<rparr>)" "vview ch2 = vview ch"
    "dev_rel (?c1\<lparr>vc_channel := ch2, vc_rowtable := tb, vc_trace := tr, vc_issued := hs\<rparr>)
        ((cmd, rq_addr_vec r, vc_clk c) # H) (abs_step (vc_org c) cmd (rq_addr_vec r) A)"
    using issue_dev [OF rel vr nl nx(2)] nx(1) by auto
  define c2 where "c2 = c\<lparr>vc_channel := ch2, vc_stats := st, vc_rowtable := tb, vc_trace := tr, vc_issued := hs\<rparr>"
  have e: "?c1\<lparr>vc_channel := ch2, vc_rowtable := tb, vc_trace := tr, vc_issued := hs\<rparr> = c2" by (simp add: c2_def)
  have id: "dn_id (dinfo ch2) = vault_id c" using i2(2) f(3) by (cases ch; cases ch2) simp
  have "serve_tree (served ?M) [vault_id c] ch2"
    using serve_tree_view [OF i2(2)] sv by blast
  then have "dev_ok c2 ((cmd, rq_addr_vec r, vc_clk c) # H) (abs_step (vc_org c) cmd (rq_addr_vec r) A) ?M"
    using i2(3) id unfolding e by (simp add: dev_ok_def vault_id_def c2_def)
  moreover have "sel_queue qs c2 = sel_queue qs c" by (cases qs) (simp_all add: c2_def)
  ultimately show ?thesis
    using f(1) get_first_cmd_dev [OF rel vr nl] nx(1) i2(1) id unfolding e
    by (intro exI [of _ ch2] exI [of _ st] exI [of _ tb] exI [of _ tr] exI [of _ hs] exI [of _ c2])
      (simp add: serve_head_def c2_def)
qed

lemma set_remove_nth: "set (remove_nth i xs) \<subseteq> set xs"
  by (auto simp: remove_nth_def dest: in_set_takeD in_set_dropD)

lemma length_remove_nth: "length (remove_nth i xs) \<le> length xs"
  by (auto simp: remove_nth_def)

text \<open>The last read of a burst: the request moves to the pending requests.\<close>

lemma read_done_inv:
  assumes "base_inv c H A" and i: "i < length (qu_q (vc_readq c))"
    and r: "same_req (qu_q (vc_readq c) ! i) r" "\<not> rq_is_first_command r"
    and r2: "same_req r r2" "rq_depart r2 = vc_clk c + sp_read_latency (vc_spec c)"
    and c2: "c2 = c\<lparr>vc_channel := ch, vc_stats := st, vc_rowtable := tb, vc_trace := tr, vc_issued := hs\<rparr>"
    and dev: "dev_ok c2 H' A' (in_service (set_queue ReadQ ((qu_q (vc_readq c))[i := r]) c))"
      "dn_id (dinfo ch) = vault_id c"
    and c': "c' = set_queue ReadQ (remove_nth i (qu_q (vc_readq c))) (c2\<lparr>vc_pending := vc_pending c @ [r2]\<rparr>)"
  shows "base_inv c' H' A' \<and> ids c' = ids c"
proof -
  let ?q = "qu_q (vc_readq c)"
  obtain N where N: "mset ?q = add_mset (?q ! i) N" "mset (?q[i := r]) = add_mset r N"
    "mset (remove_nth i ?q) = N"
    using mset_nth [OF i] by metis
  have iq: "?q ! i \<in> set ?q" using i by simp
  have "rq_arrive (?q ! i) \<le> vc_clk c" using assms(1) iq by (simp add: base_inv_def queues_ok_def all_qsel)
  then have late: "1 < rq_depart r2 - rq_arrive r2"
    using r(1) r2 by (cases "hm_speed (vc_hmc c)") (simp_all add: same_req_def hmc_spec_def hmc_speed.defs)
  have id: "ids c' = ids c" using N r r2 c2 c' by (auto simp: ids_def live_def same_req_def)
  have "in_service c' = in_service (set_queue ReadQ (?q[i := r]) c)"
    using N late r(2) r2(1) c' by (simp add: in_service_def c2 same_req_def)
  then have "dev_ok c' H' A' (in_service c')"
    using dev(1) dev_ok_cong [of c' c2 H' A'] by (simp add: c')
  moreover have "rq_type (?q ! i) = READ \<and> access_req (vc_org c) (vc_core_num c) (vault_id c) (?q ! i)"
    using assms(1) iq by (simp add: base_inv_def queues_ok_def all_qsel)
  then have "rq_type r2 = READ \<and> access_req (vc_org c) (vc_core_num c) (vault_id c) r2"
    using same_req_access [OF r(1)] same_req_access [OF r2(1)] r(1) r2(1) by (simp add: same_req_def)
  then have "queues_ok c'" unfolding c'
    by (intro set_queue_ok [of c])
      (use assms(1) dev(2) set_remove_nth [of i ?q] length_remove_nth [of i ?q] in
        \<open>auto simp: base_inv_def c2 vault_id_def\<close>)
  ultimately show ?thesis using assms(1) id by (simp add: base_inv_def config_ok_def c2 c')
qed

text \<open>The last write of a burst is answered at once.\<close>

lemma write_done_step:
  assumes "base_inv c H A" and i: "i < length (qu_q (vc_writeq c))"
    and r: "same_req (qu_q (vc_writeq c) ! i) r" "\<not> rq_is_first_command r"
    and c2: "c2 = c\<lparr>vc_channel := ch, vc_stats := st, vc_rowtable := tb, vc_trace := tr, vc_issued := hs\<rparr>"
    and dev: "dev_ok c2 H' A' (in_service (set_queue WriteQ ((qu_q (vc_writeq c))[i := r]) c))"
      "dn_id (dinfo ch) = vault_id c"
    and b: "rq_burst_count r = 1"
  shows "\<exists>r' c3. complete c2 r = Inr (r', c3) \<and> rq_burst_count r' = 0
    \<and> base_inv (set_queue WriteQ (remove_nth i (qu_q (vc_writeq c3))) c3) H' A'
    \<and> ids (set_queue WriteQ (remove_nth i (qu_q (vc_writeq c3))) c3) + answered c3 = ids c + answered c
    \<and> frame c (set_queue WriteQ (remove_nth i (qu_q (vc_writeq c3))) c3) \<and> vc_otherq c3 = vc_otherq c"
proof -
  let ?q = "qu_q (vc_writeq c)" and ?r = "r\<lparr>rq_burst_count := 0\<rparr>"
  let ?M = "in_service (set_queue WriteQ (?q[i := r]) c)"
  let ?inc = "om_erase (rq_reqid r) (vc_incoming_packets c)"
  obtain N where N: "mset ?q = add_mset (?q ! i) N" "mset (?q[i := r]) = add_mset r N"
    "mset (remove_nth i ?q) = N"
    using mset_nth [OF i] by metis
  have iq: "?q ! i \<in> set ?q" using i by simp
  then have ty: "rq_type r = WRITE" and a: "access_req (vc_org c) (vc_core_num c) (vault_id c) r"
    using assms(1) r(1) same_req_access [OF r(1)] by (auto simp: base_inv_def queues_ok_def all_qsel same_req_def)
  have rid: "rq_reqid r \<in># ids c" using N(1) r(1) by (simp add: ids_def live_def same_req_def)
  have pk: "packets_ok (vc_links c) (ids c) (vc_incoming_packets c2)" using assms(1) c2 by (simp add: base_inv_def)
  obtain p where p: "form_response_packet c2 ?r = Inr (p, c2\<lparr>vc_incoming_packets := ?inc\<rparr>)" "pk_req p = ?r"
    "packets_ok (vc_links c) (ids c - {#rq_reqid r#}) ?inc" "resp_ok (vc_links c) (vc_core_num c) p"
    using form_response_step [OF pk, of ?r] rid a c2 by (auto simp: access_req_def core_in_def)
  define c3 where "c3 = c2\<lparr>vc_incoming_packets := ?inc, vc_response_packets := vc_response_packets c @ [p]\<rparr>"
  have d3: "dev_ok c3 H' A' ?M" using dev(1) dev_ok_cong [of c3 c2 H' A'] by (simp add: c3_def)
  have v3: "vault_id c3 = vault_id c" using dev(2) by (simp add: c3_def c2 vault_id_def)
  have M: "?M = add_mset (rq_addr_vec r) (in_service (set_queue WriteQ (remove_nth i ?q) c))"
    using N r(2) by (simp add: in_service_def)
  obtain ch4 where s: "set_serving c3 (rq_addr_vec r) (-1) = Inr (c3\<lparr>vc_channel := ch4\<rparr>)"
    "dev_ok (c3\<lparr>vc_channel := ch4\<rparr>) H' A' (in_service (set_queue WriteQ (remove_nth i ?q) c))"
    "dn_id (dinfo ch4) = vault_id c"
    using set_serving_step [OF d3, of "rq_addr_vec r" "-1"] a v3 M by (auto simp: access_req_def c3_def c2)
  let ?c4 = "c3\<lparr>vc_channel := ch4\<rparr>"
  let ?c5 = "set_queue WriteQ (remove_nth i ?q) ?c4"
  have run: "complete c2 r = Inr (?r, ?c4)"
    using ty b p(1) s(1) by (simp add: complete_def Let_def c3_def c2)
  have q4: "vc_writeq ?c4 = vc_writeq c" "vc_otherq ?c4 = vc_otherq c" by (simp_all add: c3_def c2)
  have id: "ids ?c5 = ids c - {#rq_reqid r#}" using N r(1) by (simp add: ids_def live_def c3_def c2 same_req_def)
  have ms: "in_service ?c5 = in_service (set_queue WriteQ (remove_nth i ?q) c)"
    by (simp add: in_service_def c3_def c2)
  have "dev_ok ?c5 H' A' (in_service ?c5)" unfolding ms
    using s(2) dev_ok_cong [of ?c5 ?c4 H' A'] by simp
  moreover have "vault_id ?c5 = vault_id c" using s(3) by (simp add: vault_id_def)
  moreover have "packets_ok (vc_links ?c5) (ids ?c5) (vc_incoming_packets ?c5)" using p(3) id by (simp add: c3_def c2)
  moreover have "queues_ok ?c5"
    by (intro set_queue_ok [of c])
      (use assms(1) s(3) set_remove_nth [of i ?q] length_remove_nth [of i ?q] in
        \<open>auto simp: base_inv_def c2 c3_def vault_id_def\<close>)
  ultimately have "base_inv ?c5 H' A'"
    using assms(1) p(4) by (auto simp: base_inv_def config_ok_def c3_def c2)
  moreover have "ids ?c5 + answered ?c4 = ids c + answered c"
    using rid p(2) unfolding id by (simp add: answered_def c3_def c2)
  moreover have "frame c ?c5" using s(3) by (simp add: frame_def vault_id_def c3_def c2)
  ultimately show ?thesis using run q4 by (intro exI [of _ ?r] exI [of _ ?c4]) simp
qed

lemma refresh_done_inv:
  assumes "base_inv c H A"
    and c2: "c2 = c\<lparr>vc_channel := ch, vc_stats := st, vc_rowtable := tb, vc_trace := tr, vc_issued := hs\<rparr>"
    and dev: "dev_ok c2 H' A' (in_service c)" "dn_id (dinfo ch) = vault_id c"
  shows "base_inv (set_queue OtherQ (remove_nth i (qu_q (vc_otherq c))) c2) H' A'"
proof -
  let ?c = "set_queue OtherQ (remove_nth i (qu_q (vc_otherq c))) c2"
  have "in_service ?c = in_service c" "ids ?c = ids c" by (simp_all add: in_service_def ids_def live_def c2)
  moreover have "dev_ok ?c H' A' (in_service c)" using dev(1) dev_ok_cong [of ?c c2 H' A'] by simp
  moreover have "queues_ok ?c"
    by (intro set_queue_ok [of c])
      (use assms(1) dev(2) set_remove_nth [of i "qu_q (vc_otherq c)"]
          length_remove_nth [of i "qu_q (vc_otherq c)"] in \<open>auto simp: base_inv_def c2 vault_id_def\<close>)
  ultimately show ?thesis using assms(1) by (simp add: base_inv_def config_ok_def c2)
qed

text \<open>One request is served: its next command is issued and the bookkeeping follows.\<close>

lemma serve_head_step:
  assumes inv: "base_inv c H A" and i: "i < length (qu_q (sel_queue qs c))"
    and q: "q = qu_q (sel_queue qs c)" and "req_ready c H A (q ! i)" and cmd: "cmd = next_cmd c A (q ! i)"
  shows "\<exists>c'. serve_head c qs i = Inr c'
    \<and> base_inv c' ((cmd, rq_addr_vec (q ! i), vc_clk c) # H) (abs_step (vc_org c) cmd (rq_addr_vec (q ! i)) A)
    \<and> ids c' + answered c' = ids c + answered c \<and> frame c c'
    \<and> qu_q (vc_otherq c') =
        (if qs \<noteq> OtherQ then qu_q (vc_otherq c) else if cmd = REF then remove_nth i q
         else q[i := (q ! i)\<lparr>rq_is_first_command := False\<rparr>])"
proof -
  define r where "r = (q ! i)\<lparr>rq_is_first_command := False\<rparr>"
  have same: "same_req (q ! i) r" and nf: "\<not> rq_is_first_command r" by (simp_all add: r_def same_req_def)
  have cmd': "cmd = next_cmd c A r" and rdy: "req_ready c H A r"
    using assms(4) same_req_ready [OF same] by (simp_all add: cmd r_def next_cmd_def)
  let ?H = "(cmd, rq_addr_vec r, vc_clk c) # H" and ?A = "abs_step (vc_org c) cmd (rq_addr_vec r) A"
  have ad: "rq_addr_vec (q ! i) = rq_addr_vec r" by (simp add: r_def)
  obtain ch st tb tr hs c2 where c2: "c2 = c\<lparr>vc_channel := ch, vc_stats := st, vc_rowtable := tb, vc_trace := tr, vc_issued := hs\<rparr>"
    and run: "serve_head c qs i =
        (if cmd \<noteq> translate (rq_type r) then Inr (set_queue qs (q[i := r]) c2)
         else bindR (complete c2 r) (\<lambda>(req', c3).
           Inr (set_queue qs (if rq_burst_count req' = 0 then remove_nth i (qu_q (sel_queue qs c3))
                               else (qu_q (sel_queue qs c3))[i := req']) c3)))"
    and dev: "dev_ok c2 ?H ?A (in_service (set_queue qs (q[i := r]) c))" and id: "dn_id (dinfo ch) = vault_id c"
    using prepare_step [OF inv i _ rdy cmd'] unfolding q r_def by blast
  have sel2: "sel_queue qs' c2 = sel_queue qs' c" for qs' by (cases qs') (simp_all add: c2)
  have keep: "base_inv (set_queue qs (q[i := r']) c2) ?H ?A \<and> ids (set_queue qs (q[i := r']) c2) = ids c"
    if "same_req r r'" "\<not> rq_is_first_command r'" for r'
  proof -
    have "same_req (q ! i) r'" using same that(1) by (simp add: same_req_def)
    moreover have "dev_ok c2 ?H ?A (in_service (set_queue qs (q[i := r']) c))"
      using dev in_service_same [OF i that(1)] that(2) nf by (simp add: q)
    ultimately show ?thesis using put_back_inv [OF inv i _ that(2) c2 _ id] by (simp add: q)
  qed
  have fr: "frame c (set_queue qs q' c2)" for q' using id by (simp add: frame_def vault_id_def c2)
  have an: "answered (set_queue qs q' c2) = answered c" for q' by (simp add: answered_def c2)
  have pw: "va_power A = PowerUp" using inv by (simp add: base_inv_def dev_ok_def dev_rel_def)
  have other: "qs \<noteq> OtherQ \<Longrightarrow> vc_otherq (set_queue qs q' c2) = vc_otherq c" for q'
    by (cases qs) (simp_all add: c2)
  have pred: "queue_pred (vc_org c) (vc_core_num c) (vault_id c) (vc_clk c) qs r"
    using queues_ok_queue [of c "q ! i" qs] inv i same_req_queue [OF same] by (simp add: base_inv_def q)
  show ?thesis
  proof (cases "cmd = translate (rq_type r)")
    case False
    have "qs = OtherQ \<Longrightarrow> cmd \<noteq> REF" using False pred by (auto simp: refresh_req_def)
    then show ?thesis
      unfolding ad using run False keep [of r] nf fr an other
      by (cases "qs = OtherQ") (simp_all add: same_req_def r_def)
  next
    case True
    have put: ?thesis if r': "same_req r r'" "\<not> rq_is_first_command r'" "rq_burst_count r' \<noteq> 0"
      and com: "complete c2 r = Inr (r', c2)" and nq: "qs \<noteq> OtherQ" for r'
      unfolding ad using run True keep [OF r'(1,2)] r'(3) com fr an other nq by (simp add: q sel2)
    show ?thesis
    proof (cases qs)
      case ReadQ
      then have ty: "rq_type r = READ" using pred by simp
      let ?r = "r\<lparr>rq_burst_count := rq_burst_count r - 1\<rparr>"
      show ?thesis
      proof (cases "rq_burst_count r - 1 = 0")
        case False
        then show ?thesis using ty ReadQ nf
          by (intro put [of ?r]) (simp_all add: complete_def Let_def same_req_def)
      next
        case z: True
        let ?r2 = "?r\<lparr>rq_depart := vc_clk c + sp_read_latency (vc_spec c)\<rparr>"
        let ?c' = "set_queue ReadQ (remove_nth i q) (c2\<lparr>vc_pending := vc_pending c @ [?r2]\<rparr>)"
        have "complete c2 r = Inr (?r2, c2\<lparr>vc_pending := vc_pending c @ [?r2]\<rparr>)"
          using z ty by (simp add: complete_def Let_def c2)
        then have "serve_head c qs i = Inr ?c'" using run True z ReadQ by (simp add: q c2)
        moreover have "base_inv ?c' ?H ?A \<and> ids ?c' = ids c"
          by (rule read_done_inv [OF inv, of i r ?r2 c2])
            (use i dev same nf ReadQ id ty c2 in \<open>simp_all add: q same_req_def\<close>)
        ultimately show ?thesis unfolding ad using ReadQ id
          by (simp add: answered_def frame_def vault_id_def c2)
      qed
    next
      case WriteQ
      then have ty: "rq_type r = WRITE" using pred by simp
      let ?r = "r\<lparr>rq_burst_count := rq_burst_count r - 1\<rparr>"
      show ?thesis
      proof (cases "rq_burst_count r = 1")
        case False
        then show ?thesis using ty WriteQ nf
          by (intro put [of ?r]) (simp_all add: complete_def Let_def same_req_def)
      next
        case one: True
        obtain r' c3 where w: "complete c2 r = Inr (r', c3)" "rq_burst_count r' = 0"
          "base_inv (set_queue WriteQ (remove_nth i (qu_q (vc_writeq c3))) c3) ?H ?A"
          "ids (set_queue WriteQ (remove_nth i (qu_q (vc_writeq c3))) c3) + answered c3 = ids c + answered c"
          "frame c (set_queue WriteQ (remove_nth i (qu_q (vc_writeq c3))) c3)" "vc_otherq c3 = vc_otherq c"
          using write_done_step [OF inv _ _ nf c2 _ id one] i dev same WriteQ unfolding q by fastforce
        then show ?thesis unfolding ad using run True WriteQ by (simp add: answered_def)
      qed
    next
      case OtherQ
      then have ty: "rq_type r = REFRESH" "rq_burst_count r = 0" using pred by (auto simp: refresh_req_def)
      then have "serve_head c qs i = Inr (set_queue OtherQ (remove_nth i q) c2)"
        using run True OtherQ by (simp add: complete_def q c2)
      moreover have "in_service (set_queue qs (q[i := r]) c) = in_service c"
        using OtherQ by (simp add: in_service_def)
      then have "base_inv (set_queue OtherQ (remove_nth i q) c2) ?H ?A"
        using refresh_done_inv [OF inv c2 _ id] dev by (simp add: q OtherQ)
      moreover have "ids (set_queue OtherQ (remove_nth i q) c2) = ids c" by (simp add: ids_def live_def c2)
      ultimately show ?thesis unfolding ad
        using fr [of "remove_nth i q"] an [of "remove_nth i q"] OtherQ True ty(1) by simp
    qed
  qed
qed

section \<open>Refresh\<close>

text \<open>No timing value of the standard exceeds 200 cycles (\<open>nRFC\<close>).\<close>

lemma hmc_timing_le:
  assumes "e \<in> set (hmc_timing (hmc_speed_table speed) lv c)"
  shows "te_val e \<le> 200"
proof -
  have "list_all (\<lambda>p. te_val (snd p) \<le> 200) (hmc_timing_Vault (hmc_speed_table speed))"
    "list_all (\<lambda>p. te_val (snd p) \<le> 200) (hmc_timing_BankGroup (hmc_speed_table speed))"
    "list_all (\<lambda>p. te_val (snd p) \<le> 200) (hmc_timing_Bank (hmc_speed_table speed))"
    by (cases speed; simp add: hmc_timing_Vault_def hmc_timing_BankGroup_def hmc_timing_Bank_def push_def
        push_sib_def hmc_speed.defs)+
  with assms show ?thesis
    by (auto simp: hmc_timing_def entries_for_set list_all_iff split: if_splits)
qed

lemma hist_member: "k \<in> set (hist H pre c) \<Longrightarrow> \<exists>x\<in>set H. k = snd (snd x)"
  and sib_hist_member: "k \<in> set (sib_hist H pre c) \<Longrightarrow> \<exists>x\<in>set H. k = snd (snd x)"
  by (auto simp: hist_def sib_hist_def split: if_splits) force+

lemma legal_late:
  assumes "\<forall>x\<in>set H. snd (snd x) + 200 \<le> clk"
  shows "legal (hmc_spec org speed) H cmd ad clk"
  unfolding legal_from_def
proof (intro allI impI, elim conjE)
  fix lv f assume "constraint (hmc_spec org speed) H (take (Suc lv) ad) cmd f"
  then obtain c0 e where e: "te_val e \<le> 200" "te_dist e > 0"
    "entry_deadline H (take (Suc lv) ad) c0 e = Some f"
    using hmc_timing_le hmc_timing_ok(1) by (fastforce simp: constraint_def)
  obtain k where "k \<in> set (hist H (take (Suc lv) ad) c0) \<or> k \<in> set (sib_hist H (take (Suc lv) ad) c0)"
    "f = k + te_val e"
    using e(2,3) by (force simp: entry_deadline_def split: if_splits list.splits)
  with e(1) assms show "f \<le> clk" using hist_member sib_hist_member by fastforce
qed

definition since_refresh :: "vault_ctrl \<Rightarrow> int" where
  "since_refresh c = rf_clk (vc_refresh c) - rf_refreshed (vc_refresh c)"

text \<open>
  \<open>issued_by H k\<close>: nothing was issued after clock \<open>k\<close>.  While a refresh is waiting only its own
  commands are issued: the precharge within 200 cycles of its arrival, the refresh itself within
  200 cycles of that.  The scheduler has asked for as many refreshes as were issued or are waiting,
  one per interval.  \<open>refresh_due\<close> holds inside a cycle, \<open>refresh_inv\<close> between two cycles.
\<close>

definition issued_by :: "command history \<Rightarrow> int \<Rightarrow> bool" where
  "issued_by H k \<longleftrightarrow> (\<forall>x\<in>set H. snd (snd x) \<le> k)"

definition refreshes :: "command history \<Rightarrow> int" where
  "refreshes H = int (length (filter (\<lambda>x. fst x = REF) H))"

definition refresh_due :: "vault_ctrl \<Rightarrow> command history \<Rightarrow> vault_abs \<Rightarrow> bool" where
  "refresh_due c H A \<longleftrightarrow>
     0 < qu_max (vc_otherq c) \<and> rf_clk (vc_refresh c) = vc_clk c
     \<and> rf_refreshed (vc_refresh c) = sp_nREFI (vc_spec c) * (refreshes H + int (length (qu_q (vc_otherq c))))
     \<and> (qu_q (vc_otherq c) \<noteq> [] \<longrightarrow>
          length (qu_q (vc_otherq c)) = 1 \<and> issued_by H (vc_clk c - since_refresh c + 200)
          \<and> (any_open (vc_org c) A \<longrightarrow>
               issued_by H (vc_clk c - since_refresh c) \<and> since_refresh c \<le> 200))"

lemma refresh_due_cong:
  assumes "vc_otherq c' = vc_otherq c" "vc_clk c' = vc_clk c" "vc_refresh c' = vc_refresh c" "vc_hmc c' = vc_hmc c"
  shows "refresh_due c' H A = refresh_due c H A"
  unfolding refresh_due_def since_refresh_def assms ..

definition refresh_inv :: "vault_ctrl \<Rightarrow> command history \<Rightarrow> vault_abs \<Rightarrow> bool" where
  "refresh_inv c H A \<longleftrightarrow>
     refresh_due c H A
     \<and> (qu_q (vc_otherq c) \<noteq> [] \<longrightarrow>
          since_refresh c < 400 \<and> (any_open (vc_org c) A \<longrightarrow> since_refresh c < 200))"

definition ctrl_inv :: "vault_ctrl \<Rightarrow> command history \<Rightarrow> vault_abs \<Rightarrow> bool" where
  "ctrl_inv c H A \<longleftrightarrow>
     base_inv c H A \<and> refresh_inv c H A \<and> 0 \<le> since_refresh c \<and> since_refresh c < sp_nREFI (vc_spec c)"

lemma get_head_single:
  assumes "is_ready ev r = Inr rdy" "is_row_hit ev r = Inr False" "is_row_open ev r = Inr False"
  shows "get_head ev ty cap [r] tb = Inr (Some 0, tb)"
  using assms by (cases rdy) (simp_all add: get_head_def andR_def violates_hit_def)

lemma refresh_rows:
  assumes "refresh_req v r" and "dn_level (dinfo (vc_channel c)) = 0"
  shows "is_row_hit (vc_env c) r = Inr False" "is_row_open (vc_env c) r = Inr False"
  using assms by (cases "vc_channel c"; simp add: refresh_req_def is_row_hit_def is_row_open_def
      nthR_lt hmc_rowhit_def hmc_rowopen_def)+

lemma base_queries:
  assumes "base_inv c H A" and "r \<in> set (qu_q (sel_queue qs c))"
  shows "is_ready (vc_env c) r = Inr (req_ready c H A r)"
    "\<exists>h. is_row_hit (vc_env c) r = Inr h" "\<exists>w. is_row_open (vc_env c) r = Inr w"
proof -
  have "dev_rel c H A" "vault_req (vc_org c) (vc_core_num c) (vault_id c) r" "\<not> vc_no_DRAM_latency c"
    using assms sel_queue_ok [of c r qs] by (auto simp: base_inv_def dev_ok_def config_ok_def)
  then show "is_ready (vc_env c) r = Inr (req_ready c H A r)"
    "\<exists>h. is_row_hit (vc_env c) r = Inr h" "\<exists>w. is_row_open (vc_env c) r = Inr w"
    using is_ready_dev check_row_dev by blast+
qed

lemma speculate_open: "config_ok c \<Longrightarrow> speculate c = Inr c"
  by (simp add: speculate_def config_ok_def)

text \<open>What one cycle may do to the history of commands.\<close>

definition hist_step :: "int \<Rightarrow> command history \<Rightarrow> command history \<Rightarrow> bool" where
  "hist_step clk H H' \<longleftrightarrow> H' = H \<or> (\<exists>cmd ad. H' = (cmd, ad, clk) # H)"

lemma schedule_idle_refresh:
  assumes inv: "base_inv c H A" "refresh_due c H A" and o: "qu_q (vc_otherq c) = []"
    and sn: "0 \<le> since_refresh c" "since_refresh c < sp_nREFI (vc_spec c)"
  shows "\<exists>c' H' A'. schedule c = Inr c' \<and> ctrl_inv c' H' A' \<and> ids c' + answered c' = ids c + answered c
    \<and> frame c c' \<and> hist_step (vc_clk c) H H'"
proof -
  let ?qs = "choose_queue c"
  let ?q = "qu_q (sel_queue ?qs c)"
  have qs: "?qs \<noteq> OtherQ" using o by (simp add: choose_queue_def)
  have cfg: "config_ok c" using inv(1) by (simp add: base_inv_def)
  have stay: "ctrl_inv c H A" using inv o sn by (simp add: ctrl_inv_def refresh_inv_def)
  have "\<forall>r\<in>set ?q. \<exists>h. is_row_hit (vc_env c) r = Inr h" "\<forall>r\<in>set ?q. \<exists>w. is_row_open (vc_env c) r = Inr w"
    using base_queries [OF inv(1)] by blast+
  then obtain hit opn where "\<forall>r\<in>set ?q. is_row_hit (vc_env c) r = Inr (hit r)"
    "\<forall>r\<in>set ?q. is_row_open (vc_env c) r = Inr (opn r)" by metis
  then have "\<exists>h. get_head (vc_env c) (vc_sched_type c) (vc_cap c) ?q (vc_rowtable c) = Inr (h, vc_rowtable c)
      \<and> (\<forall>j. h = Some j \<longrightarrow> j < length ?q)"
    using base_queries(1) [OF inv(1)] cfg
    by (intro get_head_total [of _ _ "req_ready c H A" hit opn]) (simp_all add: config_ok_def)
  then obtain h where h: "get_head (vc_env c) (vc_sched_type c) (vc_cap c) ?q (vc_rowtable c) = Inr (h, vc_rowtable c)"
    "\<And>j. h = Some j \<Longrightarrow> j < length ?q" by blast
  show ?thesis
  proof (cases "\<exists>j. h = Some j \<and> req_ready c H A (?q ! j)")
    case True
    then obtain j where j: "h = Some j" "j < length ?q" "req_ready c H A (?q ! j)" using h(2) by blast
    then have run: "schedule c = serve_head c ?qs j"
      using h(1) base_queries(1) [OF inv(1) nth_mem [OF j(2)]] by (simp add: schedule_def Let_def)
    obtain c' where c': "serve_head c ?qs j = Inr c'"
      "base_inv c' ((next_cmd c A (?q ! j), rq_addr_vec (?q ! j), vc_clk c) # H)
        (abs_step (vc_org c) (next_cmd c A (?q ! j)) (rq_addr_vec (?q ! j)) A)"
      "ids c' + answered c' = ids c + answered c" "frame c c'" "qu_q (vc_otherq c') = []"
      using serve_head_step [OF inv(1) j(2) refl j(3) refl] qs o by auto
    have "queue_pred (vc_org c) (vc_core_num c) (vault_id c) (vc_clk c) ?qs (?q ! j)"
      using queues_ok_queue [of c "?q ! j" ?qs] inv(1) j(2) by (simp add: base_inv_def)
    then have "vault_req (vc_org c) (vc_core_num c) (vault_id c) (?q ! j)" "\<not> refresh_req (vault_id c) (?q ! j)"
      using qs by (cases ?qs; auto simp: vault_req_def access_req_def refresh_req_def)+
    then have "next_cmd c A (?q ! j) \<noteq> REF"
      using inv(1) next_cmd_cases [of A c "vault_id c" "?q ! j"]
      by (auto simp: base_inv_def dev_ok_def dev_rel_def access_req_def)
    then have "refresh_inv c' ((next_cmd c A (?q ! j), ad, k) # H) A'" for ad k A'
      using c'(4,5) inv(2) o by (simp add: refresh_inv_def refresh_due_def frame_def refreshes_def)
    moreover have "schedule c = Inr c'" using run c'(1) by simp
    moreover have "0 \<le> since_refresh c'" "since_refresh c' < sp_nREFI (vc_spec c')"
      using sn c'(4) by (simp_all add: frame_def since_refresh_def)
    ultimately show ?thesis using c'(2-4) unfolding ctrl_inv_def hist_step_def by blast
  next
    case False
    have "schedule c = speculate c"
    proof (cases h)
      case None
      with h(1) show ?thesis by (simp add: schedule_def Let_def)
    next
      case (Some j)
      with False have "is_ready (vc_env c) (?q ! j) = Inr False"
        using base_queries(1) [OF inv(1) nth_mem [OF h(2) [OF Some]]] by simp
      with h(1) Some show ?thesis by (simp add: schedule_def Let_def)
    qed
    then have "schedule c = Inr c" using speculate_open [OF cfg] by simp
    with stay show ?thesis
      by (intro exI [of _ c] exI [of _ H] exI [of _ A]) (simp add: hist_step_def frame_def)
  qed
qed

lemma schedule_refresh:
  assumes inv: "base_inv c H A" "refresh_due c H A" and o: "qu_q (vc_otherq c) \<noteq> []"
    and sn: "0 \<le> since_refresh c" "since_refresh c < sp_nREFI (vc_spec c)"
  shows "\<exists>c' H' A'. schedule c = Inr c' \<and> ctrl_inv c' H' A' \<and> ids c' + answered c' = ids c + answered c
    \<and> frame c c' \<and> hist_step (vc_clk c) H H'"
proof -
  obtain r where r: "qu_q (vc_otherq c) = [r]"
    using inv(2) o by (auto simp: refresh_due_def length_Suc_conv)
  let ?t = "vc_clk c - since_refresh c"
  have due: "issued_by H (?t + 200)" "any_open (vc_org c) A \<Longrightarrow> issued_by H ?t \<and> since_refresh c \<le> 200"
    "0 < qu_max (vc_otherq c)" using inv(2) o by (auto simp: refresh_due_def)
  have rr: "refresh_req (vault_id c) r"
    using inv(1) r queues_ok_queue [of c r OtherQ] by (simp add: base_inv_def)
  have rel: "dev_rel c H A" and cfg: "config_ok c" using inv(1) by (auto simp: base_inv_def dev_ok_def)
  have lv: "dn_level (dinfo (vc_channel c)) = 0" using rel by (simp add: dev_rel_def vault_rel_def)
  have rd: "is_ready (vc_env c) r = Inr (req_ready c H A r)"
    using base_queries(1) [OF inv(1), of r OtherQ] r by simp
  have run: "schedule c = (if req_ready c H A r then serve_head c OtherQ 0 else Inr c)"
    using get_head_single [OF rd refresh_rows [OF rr lv]] rd r speculate_open [OF cfg]
    by (simp add: schedule_def choose_queue_def Let_def)
  have nx: "next_cmd c A r = (if any_open (vc_org c) A then PREA else REF)"
    using rr by (simp add: next_cmd_def abs_decode_def refresh_req_def)
  show ?thesis
  proof (cases "req_ready c H A r")
    case False
    have "\<not> (\<forall>x\<in>set H. snd (snd x) + 200 \<le> vc_clk c)"
      using False legal_late unfolding req_ready_def by blast
    then obtain x where x: "x \<in> set H" "vc_clk c < snd (snd x) + 200" by force
    have "since_refresh c < 400" using x due(1) by (auto simp: issued_by_def)
    moreover have "any_open (vc_org c) A \<Longrightarrow> since_refresh c < 200" using x due(2) by (auto simp: issued_by_def)
    ultimately have "ctrl_inv c H A" using inv sn by (simp add: ctrl_inv_def refresh_inv_def)
    with run False show ?thesis
      by (intro exI [of _ c] exI [of _ H] exI [of _ A]) (simp add: hist_step_def frame_def)
  next
    case True
    let ?A = "abs_step (vc_org c) (next_cmd c A r) (rq_addr_vec r) A"
    let ?H = "(next_cmd c A r, rq_addr_vec r, vc_clk c) # H"
    obtain c' where c': "serve_head c OtherQ 0 = Inr c'" "base_inv c' ?H ?A"
      "ids c' + answered c' = ids c + answered c" "frame c c'"
      "qu_q (vc_otherq c') = (if next_cmd c A r = REF then [] else [r\<lparr>rq_is_first_command := False\<rparr>])"
    proof -
      have "0 < length (qu_q (sel_queue OtherQ c))" "[r] = qu_q (sel_queue OtherQ c)"
        "req_ready c H A ([r] ! 0)" using r True by simp_all
      from serve_head_step [OF inv(1) this refl] show ?thesis
        by (elim exE conjE) (rule that, simp_all add: remove_nth_def split: if_splits)
    qed
    have fr: "since_refresh c' = since_refresh c" "vc_clk c' = vc_clk c" "vc_hmc c' = vc_hmc c"
      "qu_max (vc_otherq c') = qu_max (vc_otherq c)" "vc_refresh c' = vc_refresh c"
      using c'(4) by (auto simp: frame_def since_refresh_def)
    have cnt: "rf_clk (vc_refresh c') = vc_clk c'"
      "rf_refreshed (vc_refresh c') = sp_nREFI (vc_spec c') * (refreshes ?H + int (length (qu_q (vc_otherq c'))))"
      using inv(2) fr r c'(5) nx by (simp_all add: refresh_due_def refreshes_def)
    have "refresh_inv c' ?H ?A"
    proof (cases "any_open (vc_org c) A")
      case True
      then have "\<not> any_open (vc_org c) ?A" using nx by (simp add: abs_step_def any_open_def)
      moreover have "issued_by ?H (?t + 200)" using due(2) [OF True] by (auto simp: issued_by_def)
      ultimately show ?thesis using due(2,3) True c'(5) fr nx cnt by (simp add: refresh_inv_def refresh_due_def)
    next
      case False
      then show ?thesis using due(3) c'(5) fr nx cnt by (simp add: refresh_inv_def refresh_due_def)
    qed
    with c' run True fr sn show ?thesis
      by (intro exI [of _ c'] exI [of _ ?H] exI [of _ ?A]) (simp add: ctrl_inv_def hist_step_def)
  qed
qed

section \<open>One cycle\<close>

lemma base_inv_cong:
  assumes "base_inv c H A"
    and "vc_hmc c' = vc_hmc c" "vc_core_num c' = vc_core_num c" "vc_issued c' = vc_issued c"
    "vc_clk c' = vc_clk c" "vc_channel c' = vc_channel c" "vc_rowtable c' = vc_rowtable c" "vc_record_cmd_trace c' = vc_record_cmd_trace c" "vc_trace c' = vc_trace c"
    "vc_readq c' = vc_readq c" "vc_writeq c' = vc_writeq c" "vc_pending c' = vc_pending c"
    "vc_pim_mode_enabled c' = vc_pim_mode_enabled c" "vc_no_DRAM_latency c' = vc_no_DRAM_latency c"
    "vc_policy_type c' = vc_policy_type c" "vc_sched_type c' = vc_sched_type c"
    "vc_incoming_packets c' = vc_incoming_packets c" "set (vc_response_packets c') \<subseteq> set (vc_response_packets c)"
    "vc_done c' = vc_done c"
    and "\<forall>r\<in>set (qu_q (vc_otherq c')). refresh_req (vault_id c) r \<and> rq_burst_count r = 0"
    and "\<not> vc_pim_mode_enabled c \<longrightarrow> length (qu_q (vc_otherq c')) \<le> qu_max (vc_otherq c')"
  shows "base_inv c' H A"
proof -
  have "in_service c' = in_service c" "ids c' = ids c" "vault_id c' = vault_id c"
    using assms by (simp_all add: in_service_def ids_def live_def vault_id_def)
  then show ?thesis
    using assms dev_ok_cong [of c' c H A] by (auto simp: base_inv_def queues_ok_def config_ok_def all_qsel)
qed

lemma dev_ok_clock:
  assumes "dev_ok c H A M"
  shows "dev_ok (c\<lparr>vc_clk := vc_clk c + 1\<rparr>) H A M"
  using assms by (auto simp: dev_ok_def dev_rel_def vault_id_def)

lemma base_inv_clock:
  assumes "base_inv c H A"
  shows "base_inv (count_queues (c\<lparr>vc_clk := vc_clk c + 1\<rparr>)) H A"
proof -
  let ?c = "c\<lparr>vc_clk := vc_clk c + 1\<rparr>"
  have "in_service ?c = in_service c" "ids ?c = ids c" "vault_id ?c = vault_id c"
    by (simp_all add: in_service_def ids_def live_def vault_id_def)
  with assms have i: "base_inv ?c H A"
    using dev_ok_clock [of c H A "in_service c"]
    by (auto simp: base_inv_def queues_ok_def config_ok_def all_qsel)
  then show ?thesis
    by (rule base_inv_cong) (use i in \<open>auto simp: count_queues_def Let_def base_inv_def queues_ok_def all_qsel\<close>)
qed

lemma hmc_nREFI: "sp_nREFI (hmc_spec org speed) = 9750"
  by (cases speed) (simp_all add: hmc_spec_def hmc_speed.defs)

lemma enqueue_refresh:
  assumes "qu_q (vc_otherq c) = []" and "0 < qu_max (vc_otherq c)"
  shows "refresh_target c v =
    Inr (set_queue OtherQ [(mk_request_vec [v, -1, -1, -1, -1] REFRESH 0)\<lparr>rq_arrive := vc_clk c\<rparr>] c)"
  using assms by (simp add: refresh_target_def enqueue_def mk_request_vec_def mk_request_def Let_def)

lemma tick_ref_step:
  assumes inv: "base_inv c H A"
    and due: "refresh_due (c\<lparr>vc_refresh := (vc_refresh c)\<lparr>rf_clk := rf_clk (vc_refresh c) + 1\<rparr>\<rparr>) H A"
    and lt: "qu_q (vc_otherq c) \<noteq> [] \<Longrightarrow> since_refresh c < 400"
    and sn: "0 \<le> since_refresh c" "since_refresh c < sp_nREFI (vc_spec c)"
  shows "\<exists>c'. tick_ref c = Inr c' \<and> base_inv c' H A \<and> refresh_due c' H A
    \<and> vc_clk c' = vc_clk c \<and> ids c' = ids c \<and> answered c' = answered c
    \<and> vault_id c' = vault_id c \<and> vc_hmc c' = vc_hmc c \<and> vc_core_num c' = vc_core_num c \<and> vc_pim_mode_enabled c' = vc_pim_mode_enabled c
    \<and> 0 \<le> since_refresh c' \<and> since_refresh c' < sp_nREFI (vc_spec c')"
proof -
  let ?c1 = "c\<lparr>vc_refresh := (vc_refresh c)\<lparr>rf_clk := rf_clk (vc_refresh c) + 1\<rparr>\<rparr>"
  have i1: "base_inv ?c1 H A"
    by (rule base_inv_cong [OF inv]) (use inv in \<open>simp_all add: base_inv_def queues_ok_def all_qsel\<close>)
  show ?thesis
  proof (cases "9750 \<le> since_refresh ?c1")
    case False
    then have "tick_ref c = Inr ?c1" by (simp add: tick_ref_def hmc_nREFI since_refresh_def Let_def)
    with i1 due sn False show ?thesis
      by (simp add: ids_def live_def answered_def vault_id_def since_refresh_def hmc_nREFI)
  next
    case True
    then have o: "qu_q (vc_otherq c) = []" using lt by (force simp: since_refresh_def)
    have m: "0 < qu_max (vc_otherq ?c1)" using due by (simp add: refresh_due_def)
    let ?r = "(mk_request_vec [vault_id c, -1, -1, -1, -1] REFRESH 0)\<lparr>rq_arrive := vc_clk c\<rparr>"
    let ?c2 = "set_queue OtherQ [?r] ?c1"
    let ?c3 = "?c2\<lparr>vc_refresh := (vc_refresh ?c2)\<lparr>rf_refreshed := rf_clk (vc_refresh ?c2)\<rparr>\<rparr>"
    have "refresh_target ?c1 (vault_id c) = Inr ?c2" using enqueue_refresh [of ?c1] o m by simp
    then have "tick_ref c = Inr ?c3"
      using True by (simp add: tick_ref_def inject_refresh_def hmc_nREFI since_refresh_def vault_id_def Let_def)
    moreover have "base_inv ?c3 H A"
      by (rule base_inv_cong [OF i1])
        (use m in \<open>simp_all add: refresh_req_def mk_request_vec_def mk_request_def vault_id_def\<close>)
    moreover have "refresh_due ?c3 H A"
    proof -
      have "rf_clk (vc_refresh c) + 1 = rf_refreshed (vc_refresh c) + 9750"
        using True sn(2) by (simp add: since_refresh_def hmc_nREFI)
      moreover have "rf_clk (vc_refresh c) + 1 = vc_clk c" "rf_refreshed (vc_refresh c) = 9750 * refreshes H"
        using due o by (simp_all add: refresh_due_def hmc_nREFI)
      moreover have "issued_by H (vc_clk c)" "issued_by H (vc_clk c + 200)"
        using i1 by (force simp: issued_by_def base_inv_def dev_ok_def dev_rel_def)+
      ultimately show ?thesis using m by (simp add: refresh_due_def since_refresh_def hmc_nREFI)
    qed
    ultimately show ?thesis
      by (simp add: ids_def live_def answered_def vault_id_def since_refresh_def hmc_nREFI)
  qed
qed

lemma choose_mode_fields:
  "\<exists>m. choose_mode c = c\<lparr>vc_write_mode := m\<rparr>"
  by (rule exI [of _ "vc_write_mode (choose_mode c)"]) (simp add: choose_mode_def Let_def)

lemma ctrl_tick_step:
  assumes "ctrl_inv c H A"
  shows "\<exists>c' H' A'. ctrl_tick c = Inr c' \<and> ctrl_inv c' H' A' \<and> ids c' + answered c' = ids c + answered c
    \<and> vc_clk c' = vc_clk c + 1 \<and> vault_id c' = vault_id c \<and> vc_hmc c' = vc_hmc c
    \<and> vc_core_num c' = vc_core_num c \<and> vc_pim_mode_enabled c' = vc_pim_mode_enabled c \<and> hist_step (vc_clk c + 1) H H'"
proof -
  let ?c0 = "count_queues (c\<lparr>vc_clk := vc_clk c + 1\<rparr>)"
  have f0: "vc_clk ?c0 = vc_clk c + 1" "vc_otherq ?c0 = vc_otherq c" "vc_refresh ?c0 = vc_refresh c"
    "vc_hmc ?c0 = vc_hmc c" "vault_id ?c0 = vault_id c" "ids ?c0 = ids c" "answered ?c0 = answered c"
    "vc_pim_mode_enabled ?c0 = vc_pim_mode_enabled c" "vc_core_num ?c0 = vc_core_num c"
    by (simp_all add: count_queues_def Let_def vault_id_def ids_def live_def answered_def)
  have "base_inv ?c0 H A" using assms base_inv_clock by (simp add: ctrl_inv_def)
  from serve_completed_step [OF this] obtain c1 where c1: "serve_completed ?c0 = Inr c1" "base_inv c1 H A"
    "ids c1 + answered c1 = ids ?c0 + answered ?c0" "frame ?c0 c1" "vc_otherq c1 = vc_otherq ?c0" by blast
  have f1: "vc_clk c1 = vc_clk c + 1" "vc_otherq c1 = vc_otherq c" "vc_refresh c1 = vc_refresh c"
    "vc_hmc c1 = vc_hmc c" "vault_id c1 = vault_id c" "vc_pim_mode_enabled c1 = vc_pim_mode_enabled c"
    "vc_core_num c1 = vc_core_num c"
    using c1(4,5) f0 by (auto simp: frame_def)
  have ri: "refresh_inv c H A" using assms by (simp add: ctrl_inv_def)
  then have "refresh_due (c1\<lparr>vc_refresh := (vc_refresh c1)\<lparr>rf_clk := rf_clk (vc_refresh c1) + 1\<rparr>\<rparr>) H A"
    by (auto simp: refresh_inv_def refresh_due_def since_refresh_def f1 algebra_simps)
  moreover have "qu_q (vc_otherq c1) \<noteq> [] \<Longrightarrow> since_refresh c1 < 400"
    using ri by (simp add: refresh_inv_def since_refresh_def f1)
  moreover have "0 \<le> since_refresh c1" "since_refresh c1 < sp_nREFI (vc_spec c1)"
    using assms by (simp_all add: ctrl_inv_def since_refresh_def f1)
  ultimately obtain c2 where c2: "tick_ref c1 = Inr c2" "base_inv c2 H A" "refresh_due c2 H A"
    "vc_clk c2 = vc_clk c1" "ids c2 = ids c1" "answered c2 = answered c1" "vault_id c2 = vault_id c1"
    "vc_hmc c2 = vc_hmc c1" "vc_pim_mode_enabled c2 = vc_pim_mode_enabled c1"
    "0 \<le> since_refresh c2" "since_refresh c2 < sp_nREFI (vc_spec c2)" "vc_core_num c2 = vc_core_num c1"
    using tick_ref_step [OF c1(2)] by blast
  obtain m where m: "choose_mode c2 = c2\<lparr>vc_write_mode := m\<rparr>" using choose_mode_fields by blast
  let ?c3 = "c2\<lparr>vc_write_mode := m\<rparr>"
  have i3: "base_inv ?c3 H A" by (rule base_inv_cong [OF c2(2)]) (use c2(2) in \<open>simp_all add: base_inv_def queues_ok_def all_qsel\<close>)
  have d3: "refresh_due ?c3 H A" using c2(3) refresh_due_cong [of ?c3 c2] by simp
  obtain c' H' A' where c': "schedule ?c3 = Inr c'" "ctrl_inv c' H' A'"
    "ids c' + answered c' = ids ?c3 + answered ?c3" "frame ?c3 c'" "hist_step (vc_clk ?c3) H H'"
    using schedule_idle_refresh [OF i3 d3] schedule_refresh [OF i3 d3] c2(10,11)
    by (auto simp: since_refresh_def)
  have "ids ?c3 + answered ?c3 = ids c + answered c"
    using c2(5,6) c1(3) f0 by (simp add: ids_def live_def answered_def)
  moreover have "ctrl_tick c = Inr c'" using c1(1) c2(1) m c'(1) by (simp add: ctrl_tick_def)
  moreover have "vc_clk c' = vc_clk c + 1" "vault_id c' = vault_id c" "vc_hmc c' = vc_hmc c"
    "vc_core_num c' = vc_core_num c" "vc_pim_mode_enabled c' = vc_pim_mode_enabled c" "hist_step (vc_clk c + 1) H H'"
    using c'(4,5) c2(4,7-9,12) f1 by (simp_all add: frame_def vault_id_def)
  ultimately show ?thesis using c'(2,3) by (intro exI [of _ c'] exI [of _ H'] exI [of _ A']) simp
qed

end
