(* ===== verification/HMC_Ctrl_Run.thy ===== *)
theory HMC_Ctrl_Run
  imports HMC_Ctrl_Inv
begin

text \<open>
  The vault controller in operation: the states it can reach from its constructor by cycles, by
  packets from the logic layer and by the removal of answered packets, and the properties of
  those states.
\<close>

section \<open>Packets from the logic layer\<close>

text \<open>
  What the logic layer delivers: a request packet of a read or a write for a bank of this vault,
  sent by one of the cores, with valid header fields, that carries the identifier of no request the
  vault still works on.
\<close>

definition packet_for :: "vault_ctrl \<Rightarrow> packet \<Rightarrow> bool" where
  "packet_for c pkt \<longleftrightarrow>
     pk_type pkt = REQUEST \<and> fields_ok (vc_links c) pkt \<and> access_req (vc_org c) (vc_core_num c) (vault_id c) (pk_req pkt)
     \<and> rq_is_first_command (pk_req pkt) \<and> rq_reqid (pk_req pkt) \<notin># ids c"

definition queue_full :: "vault_ctrl \<Rightarrow> req_type \<Rightarrow> bool" where
  "queue_full c ty \<longleftrightarrow>
     \<not> vc_pim_mode_enabled c
     \<and> length (qu_q (sel_queue (get_queue ty) c)) = qu_max (sel_queue (get_queue ty) c)"

lemma packets_add:
  assumes "packets_ok n I tb" and "x \<notin># I" and "fields_ok n p"
  shows "packets_ok n I (om_put x p tb)" "packets_ok n (add_mset x I) (om_put x p tb)"
  using assms by (auto simp: packets_ok_def om.find_put om.ok_put not_in_iff)

lemma append_queue_inv:
  assumes "base_inv c H A" and "\<not> queue_full c (rq_type r)"
    and r: "access_req (vc_org c) (vc_core_num c) (vault_id c) r" "rq_is_first_command r" "rq_arrive r \<le> vc_clk c"
    and p: "packets_ok (vc_links c) (add_mset (rq_reqid r) (ids c)) tb"
    and c': "c' = set_queue (get_queue (rq_type r)) (qu_q (sel_queue (get_queue (rq_type r)) c) @ [r])
      (c\<lparr>vc_incoming_packets := tb\<rparr>)"
  shows "base_inv c' H A \<and> ids c' = add_mset (rq_reqid r) (ids c)"
proof -
  let ?qs = "get_queue (rq_type r)"
  have ty: "rq_type r = READ \<or> rq_type r = WRITE" using r(1) by (simp add: access_req_def)
  have qs: "?qs = ReadQ \<and> rq_type r = READ \<or> ?qs = WriteQ \<and> rq_type r = WRITE" using ty by auto
  have id: "ids c' = add_mset (rq_reqid r) (ids c)" using qs by (auto simp: c' ids_def live_def)
  have "in_service c' = in_service c" using qs r(2) by (auto simp: c' in_service_def)
  moreover have "dev_ok c' H A (in_service c)"
    using assms(1) dev_ok_cong [of c' c H A] by (simp add: c' base_inv_def)
  moreover have "queues_ok c'"
    using assms(1,2) r qs unfolding base_inv_def queues_ok_def all_qsel c' queue_full_def
    by (auto simp: vault_id_def)
  ultimately show ?thesis using assms(1) p id by (simp add: base_inv_def config_ok_def c')
qed

lemma forward_inv:
  assumes "base_inv c H A"
    and r: "rq_type r = READ" "access_req (vc_org c) (vc_core_num c) (vault_id c) r" "rq_depart r - rq_arrive r \<le> 1"
    and p: "packets_ok (vc_links c) (add_mset (rq_reqid r) (ids c)) tb"
    and c': "c' = c\<lparr>vc_incoming_packets := tb, vc_pending := vc_pending c @ [r]\<rparr>"
  shows "base_inv c' H A \<and> ids c' = add_mset (rq_reqid r) (ids c)"
proof -
  have id: "ids c' = add_mset (rq_reqid r) (ids c)" by (simp add: c' ids_def live_def)
  have "in_service c' = in_service c" using r(3) by (simp add: c' in_service_def)
  moreover have "dev_ok c' H A (in_service c)"
    using assms(1) dev_ok_cong [of c' c H A] by (simp add: c' base_inv_def)
  moreover have "queues_ok c'"
    using assms(1) r unfolding base_inv_def queues_ok_def all_qsel c' by (auto simp: vault_id_def)
  ultimately show ?thesis using assms(1) p id by (simp add: base_inv_def config_ok_def c')
qed

text \<open>The three ways an access leaves \<open>enqueue\<close>.\<close>

lemma enqueue_full: "queue_full c (rq_type r) \<Longrightarrow> enqueue c r = (False, r, c)"
  by (simp add: enqueue_def queue_full_def Let_def)

lemma enqueue_forward:
  assumes "\<not> queue_full c (rq_type r)" and "rq_type r = READ"
    and "w \<in> set (qu_q (vc_writeq c))" "rq_addr w = rq_addr r"
  shows "enqueue c r = (True, r\<lparr>rq_arrive := vc_clk c, rq_depart := vc_clk c + 1\<rparr>,
    c\<lparr>vc_pending := vc_pending c @ [r\<lparr>rq_arrive := vc_clk c, rq_depart := vc_clk c + 1\<rparr>]\<rparr>)"
  using assms by (auto simp: enqueue_def queue_full_def Let_def)

lemma enqueue_append:
  assumes "\<not> queue_full c (rq_type r)"
    and "rq_type r = READ \<Longrightarrow> \<forall>w\<in>set (qu_q (vc_writeq c)). rq_addr w \<noteq> rq_addr r"
  shows "enqueue c r = (True, r\<lparr>rq_arrive := vc_clk c\<rparr>,
    set_queue (get_queue (rq_type r)) (qu_q (sel_queue (get_queue (rq_type r)) c) @ [r\<lparr>rq_arrive := vc_clk c\<rparr>]) c)"
  using assms by (cases "rq_type r") (auto simp: enqueue_def queue_full_def Let_def)

text \<open>\<open>receive\<close> may set fields of the request, but not those that identify it.\<close>

definition same_packet :: "packet \<Rightarrow> packet \<Rightarrow> bool" where
  "same_packet p p' \<longleftrightarrow>
     (\<exists>r. p' = p\<lparr>pk_req := r\<rparr> \<and> rq_type r = rq_type (pk_req p) \<and> rq_addr_vec r = rq_addr_vec (pk_req p)
        \<and> rq_coreid r = rq_coreid (pk_req p) \<and> rq_reqid r = rq_reqid (pk_req p) \<and> rq_is_first_command r = rq_is_first_command (pk_req p))"

lemma same_packetI:
  "rq_type r = rq_type (pk_req p) \<Longrightarrow> rq_addr_vec r = rq_addr_vec (pk_req p) \<Longrightarrow>
   rq_coreid r = rq_coreid (pk_req p) \<Longrightarrow> rq_reqid r = rq_reqid (pk_req p) \<Longrightarrow> rq_is_first_command r = rq_is_first_command (pk_req p) \<Longrightarrow>
   same_packet p (p\<lparr>pk_req := r\<rparr>)"
  unfolding same_packet_def by blast

lemma receive_step:
  assumes inv: "ctrl_inv c H A" and pf: "packet_for c pkt"
  shows "\<exists>pkt' c'. receive c pkt = Inr (\<not> queue_full c (rq_type (pk_req pkt)), pkt', c') \<and> ctrl_inv c' H A
    \<and> ids c' = (if queue_full c (rq_type (pk_req pkt)) then ids c else add_mset (rq_reqid (pk_req pkt)) (ids c))
    \<and> answered c' = answered c \<and> vc_response_packets c' = vc_response_packets c
    \<and> vault_id c' = vault_id c \<and> vc_hmc c' = vc_hmc c \<and> vc_core_num c' = vc_core_num c
    \<and> vc_pim_mode_enabled c' = vc_pim_mode_enabled c \<and> same_packet pkt pkt'"
proof -
  let ?req = "(pk_req pkt)\<lparr>rq_burst_count := burst_count (vc_hmc c),
                            rq_transaction_bytes := hm_payload_flits (vc_hmc c) * 16\<rparr>"
  let ?tb = "om_put (rq_reqid (pk_req pkt)) (pkt\<lparr>pk_req := ?req\<rparr>) (vc_incoming_packets c)"
  let ?c1 = "c\<lparr>vc_incoming_packets := ?tb\<rparr>" and ?ty = "rq_type (pk_req pkt)"
  have b: "base_inv c H A" "refresh_inv c H A" "0 \<le> since_refresh c" "since_refresh c < sp_nREFI (vc_spec c)"
    using inv by (auto simp: ctrl_inv_def)
  have "fields_ok (vc_links c) (pkt\<lparr>pk_req := ?req\<rparr>)" using pf by (simp add: packet_for_def fields_ok_def)
  then have p: "packets_ok (vc_links c) (ids c) ?tb"
    "packets_ok (vc_links c) (add_mset (rq_reqid (pk_req pkt)) (ids c)) ?tb"
    using packets_add b(1) pf by (auto simp: packet_for_def base_inv_def)
  have a: "access_req (vc_org c) (vc_core_num c) (vault_id c) (pk_req pkt)" "?ty = READ \<or> ?ty = WRITE" "pk_type pkt = REQUEST"
    using pf by (auto simp: packet_for_def access_req_def)
  have full: "queue_full ?c1 ?ty = queue_full c ?ty" by (cases "get_queue ?ty") (simp_all add: queue_full_def)
  have run: "receive c pkt = (case enqueue ?c1 ?req of (ok, req', c2) \<Rightarrow> Inr (ok, pkt\<lparr>pk_req := req'\<rparr>, c2))"
    using a(3) by (simp add: receive_def Let_def split: prod.split)
  have rf: "refresh_inv c' H A \<and> 0 \<le> since_refresh c' \<and> since_refresh c' < sp_nREFI (vc_spec c')" if "vc_otherq c' = vc_otherq c" "vc_clk c' = vc_clk c"
    "vc_refresh c' = vc_refresh c" "vc_hmc c' = vc_hmc c" for c'
    using b(2-4) that refresh_due_cong [OF that] by (simp add: refresh_inv_def since_refresh_def)
  consider (full) "queue_full c ?ty"
    | (fwd) w where "\<not> queue_full c ?ty" "?ty = READ" "w \<in> set (qu_q (vc_writeq c))" "rq_addr w = rq_addr (pk_req pkt)"
    | (app) "\<not> queue_full c ?ty" "?ty = READ \<Longrightarrow> \<forall>w\<in>set (qu_q (vc_writeq c)). rq_addr w \<noteq> rq_addr (pk_req pkt)"
    by blast
  then show ?thesis
  proof cases
    case full
    have "base_inv ?c1 H A"
      using b(1) p(1) dev_ok_cong [of ?c1 c H A]
      by (simp add: base_inv_def queues_ok_def all_qsel config_ok_def in_service_def ids_def live_def vault_id_def)
    then show ?thesis
      using run enqueue_full [of ?c1 ?req] full \<open>queue_full ?c1 ?ty = _\<close> rf [of ?c1]
      by (simp add: ctrl_inv_def ids_def live_def answered_def vault_id_def same_packetI)
  next
    case fwd
    let ?r = "?req\<lparr>rq_arrive := vc_clk c, rq_depart := vc_clk c + 1\<rparr>"
    let ?c2 = "c\<lparr>vc_incoming_packets := ?tb, vc_pending := vc_pending c @ [?r]\<rparr>"
    have "base_inv ?c2 H A \<and> ids ?c2 = add_mset (rq_reqid ?r) (ids c)"
      by (rule forward_inv [OF b(1)]) (use fwd(2) a(1) p(2) in \<open>simp_all add: access_req_def\<close>)
    then show ?thesis
      using run enqueue_forward [of ?c1 ?req w] fwd full rf [of ?c2]
      by (simp add: ctrl_inv_def answered_def vault_id_def same_packetI)
  next
    case app
    let ?r = "?req\<lparr>rq_arrive := vc_clk c\<rparr>" and ?qs = "get_queue ?ty"
    let ?c2 = "set_queue ?qs (qu_q (sel_queue ?qs c) @ [?r]) ?c1"
    have "base_inv ?c2 H A \<and> ids ?c2 = add_mset (rq_reqid ?r) (ids c)"
      by (rule append_queue_inv [OF b(1)])
        (use app(1) a(1) p(2) pf in \<open>simp_all add: access_req_def packet_for_def\<close>)
    moreover have "vc_otherq ?c2 = vc_otherq c" using a(2) by auto
    moreover have "sel_queue ?qs ?c1 = sel_queue ?qs c" by (cases ?qs) simp_all
    ultimately show ?thesis
      using run enqueue_append [of ?c1 ?req] app full rf [of ?c2]
      by (simp add: ctrl_inv_def answered_def vault_id_def same_packetI)
  qed
qed

section \<open>Reachable states\<close>

text \<open>
  The option \<open>no_DRAM_latency\<close> is off.  \<open>Take\<close>: the switch of the logic layer removes the packet at the
  front of the response buffer.
\<close>

inductive ctrl_reach :: "vault_ctrl \<Rightarrow> bool" where
  Construct: "new_vault_ctrl h (new_dram (hm_spec h) 0 v) rec False unlimited pim n = Inr c \<Longrightarrow> ctrl_reach c"
| Tick: "ctrl_reach c \<Longrightarrow> ctrl_tick c = Inr c' \<Longrightarrow> ctrl_reach c'"
| Receive: "ctrl_reach c \<Longrightarrow> packet_for c pkt \<Longrightarrow> receive c pkt = Inr (ok, pkt', c') \<Longrightarrow> ctrl_reach c'"
| Take: "ctrl_reach c \<Longrightarrow> vc_response_packets c = p # ps \<Longrightarrow> ctrl_reach (c\<lparr>vc_response_packets := ps\<rparr>)"

lemma vault_id_new: "dn_id (dinfo (new_dram sp lv v)) = v"
  by (subst new_dram.simps) (simp add: init_dnode_def)

lemma new_vault_ctrl_inv:
  assumes "new_vault_ctrl h (new_dram (hm_spec h) 0 v) rec False unlimited pim n = Inr c"
  shows "ctrl_inv c [] \<lparr>va_power = PowerUp, va_rows = (\<lambda>_ _. None)\<rparr>"
proof -
  let ?t = "new_dram (hm_spec h) 0 v" and ?A = "\<lparr>va_power = PowerUp, va_rows = (\<lambda>_ _. None)\<rparr>"
  have c: "vc_hmc c = h" "vc_channel c = ?t" "vc_clk c = 0" "vc_rowtable c = []" "vc_trace c = []"
    "vc_readq c = \<lparr>qu_q = [], qu_max = 32\<rparr>" "vc_writeq c = \<lparr>qu_q = [], qu_max = 32\<rparr>"
    "vc_otherq c = \<lparr>qu_q = [], qu_max = 32\<rparr>" "vc_pending c = []" "vc_incoming_packets c = []"
    "vc_no_DRAM_latency c = False" "vc_policy_type c = OpenedRow" "vc_sched_type c = FRFCFS_PriorHit"
    "vc_refresh c = new_refresh h" "vc_response_packets c = []" "vc_issued c = []" "vc_done c = []"
    using assms by (auto simp: new_vault_ctrl_def Let_def)
  have v: "vault_id c = v" by (simp add: vault_id_def c vault_id_new)
  have "key_row org v' ?A k = None" for org v' k by (induction org v' ?A k rule: key_row.induct) auto
  then have "rowtab_rel (vc_org c) v ?A []" by (simp add: rowtab_rel_def om_ok_def)
  then have "dev_rel c [] ?A"
    using hmc.tree_inv_new [of "[]" 0 "hm_org h" "hm_speed h" v] vault_rel_new [of "hm_org h" "hm_speed h" v]
    by (simp add: dev_rel_def v c hist_ok_def vault_after_def)
  moreover have "served {#} = (\<lambda>_. 0)" by (simp add: fun_eq_iff served_def)
  ultimately have "dev_ok c [] ?A (in_service c)"
    using serve_tree_new [of "[]" 0 v "hm_spec h"] by (simp add: dev_ok_def in_service_def v c)
  then show ?thesis
    by (simp add: ctrl_inv_def base_inv_def queues_ok_def all_qsel config_ok_def packets_ok_def ids_def live_def
        refresh_inv_def refresh_due_def since_refresh_def hmc_nREFI c om_ok_def refreshes_def
        new_refresh_def)
qed

lemma take_inv:
  assumes "ctrl_inv c H A" and "vc_response_packets c = p # ps"
  shows "ctrl_inv (c\<lparr>vc_response_packets := ps\<rparr>) H A"
proof -
  let ?c = "c\<lparr>vc_response_packets := ps\<rparr>"
  have "base_inv ?c H A"
    by (rule base_inv_cong [of c]) (use assms in \<open>auto simp: ctrl_inv_def base_inv_def queues_ok_def all_qsel\<close>)
  then show ?thesis
    using assms refresh_due_cong [of ?c c H A] by (simp add: ctrl_inv_def refresh_inv_def since_refresh_def)
qed

lemma ctrl_reach_inv: "ctrl_reach c \<Longrightarrow> \<exists>H A. ctrl_inv c H A"
proof (induction rule: ctrl_reach.induct)
  case (Construct h v rec unlimited pim n c)
  then show ?case using new_vault_ctrl_inv by blast
next
  case (Tick c c')
  then show ?case using ctrl_tick_step by fastforce
next
  case (Receive c pkt ok pkt' c')
  then show ?case using receive_step by fastforce
next
  case (Take c p ps)
  then show ?case using take_inv by blast
qed

section \<open>What holds in every reachable state\<close>

text \<open>
  C5.  In every state the vault controller can reach (with \<open>no_DRAM_latency\<close> off), a cycle succeeds and
  so does the delivery of a packet of one of the cores: no assertion of the controller, the refresh
  scheduler, the row table, the device or the statistics fails, and no index is out of range.
\<close>

theorem ctrl_never_fails:
  assumes "ctrl_reach c"
  shows "(\<exists>c'. ctrl_tick c = Inr c') \<and> (\<forall>pkt. packet_for c pkt \<longrightarrow> (\<exists>res. receive c pkt = Inr res))"
proof -
  obtain H A where "ctrl_inv c H A" using ctrl_reach_inv [OF assms] by blast
  then show ?thesis using ctrl_tick_step receive_step by blast
qed

text \<open>
  C4.  The commands a vault controller has given to its device are a legal schedule.  The history of
  these commands, with their addresses and clocks, is ordered in time and not in the future; every
  command in it was allowed by all timing constraints of the standard against the commands before
  it.  The device is the one this history leads to: its timing bookkeeping represents exactly these
  commands, and its banks are those left by replaying them on the abstract vault.  If the command
  trace is recorded it reports exactly this history.
\<close>

theorem ctrl_trace_legal:
  assumes "ctrl_reach c"
  shows "legal_hist (vc_spec c) (vc_issued c) \<and> hist_ok (vc_issued c)
    \<and> (\<forall>x\<in>set (vc_issued c). snd (snd x) \<le> vc_clk c)
    \<and> tree_inv (vc_spec c) (vc_issued c) [vault_id c] (vc_channel c)
    \<and> vault_rel (vc_org c) (vc_channel c) (vault_after (vc_org c) (vc_issued c))
    \<and> (vc_record_cmd_trace c \<longrightarrow> vc_trace c = rev (map (trace_line (vc_spec c)) (vc_issued c)))"
proof -
  obtain H A where "ctrl_inv c H A" using ctrl_reach_inv [OF assms] by blast
  then show ?thesis by (auto simp: ctrl_inv_def base_inv_def dev_ok_def dev_rel_def)
qed

text \<open>
  C7.  Requests are neither lost nor duplicated: a cycle only moves request identifiers from the
  queues and the pending requests to the answers (response packets, and completed requests in
  processing-in-memory mode).
\<close>

theorem ctrl_tick_conserves:
  assumes "ctrl_reach c" and "ctrl_tick c = Inr c'"
  shows "ids c' + answered c' = ids c + answered c"
proof -
  obtain H A where "ctrl_inv c H A" using ctrl_reach_inv [OF assms(1)] by blast
  from ctrl_tick_step [OF this] assms(2) show ?thesis by auto
qed

text \<open>
  C6.  Refreshes are on time.  One refresh is due per interval of \<open>nREFI\<close> cycles: the refresh commands
  issued to the vault so far, and the refresh request that may be waiting, are together as many as
  intervals have passed.  At most one request waits, it is a refresh of this vault, and it waits less
  than 400 cycles; so the refresh command of an interval is issued in its first 400 cycles.
\<close>

theorem ctrl_refresh_on_time:
  assumes "ctrl_reach c"
  shows "refreshes (vc_issued c) + int (length (qu_q (vc_otherq c))) = vc_clk c div sp_nREFI (vc_spec c)
    \<and> length (qu_q (vc_otherq c)) \<le> 1 \<and> (\<forall>r\<in>set (qu_q (vc_otherq c)). refresh_req (vault_id c) r)
    \<and> (qu_q (vc_otherq c) = [] \<or> vc_clk c mod sp_nREFI (vc_spec c) < 400)
    \<and> since_refresh c = vc_clk c mod sp_nREFI (vc_spec c)"
proof -
  obtain H A where inv: "ctrl_inv c H A" using ctrl_reach_inv [OF assms] by blast
  define k where "k = refreshes (vc_issued c) + int (length (qu_q (vc_otherq c)))"
  let ?n = "sp_nREFI (vc_spec c)"
  have H: "H = vc_issued c" and q: "\<forall>r\<in>set (qu_q (vc_otherq c)). refresh_req (vault_id c) r"
    using inv by (auto simp: ctrl_inv_def base_inv_def dev_ok_def dev_rel_def queues_ok_def all_qsel)
  have "since_refresh c = vc_clk c - ?n * k" and s: "0 \<le> since_refresh c" "since_refresh c < ?n"
    using inv by (auto simp: ctrl_inv_def refresh_inv_def refresh_due_def since_refresh_def H k_def)
  then have "vc_clk c = ?n * k + since_refresh c" by simp
  then have "vc_clk c div ?n = k" "vc_clk c mod ?n = since_refresh c"
    using s div_pos_pos_trivial [OF s] mod_pos_pos_trivial [OF s] by (simp_all add: hmc_nREFI)
  with q show ?thesis using inv
    by (cases "qu_q (vc_otherq c) = []") (auto simp: ctrl_inv_def refresh_inv_def refresh_due_def H k_def)
qed

text \<open>C24.  Outside processing-in-memory mode no queue exceeds its capacity.\<close>

theorem ctrl_queue_bounds:
  assumes "ctrl_reach c" and "\<not> vc_pim_mode_enabled c"
  shows "length (qu_q (sel_queue qs c)) \<le> qu_max (sel_queue qs c)"
proof -
  obtain H A where "ctrl_inv c H A" using ctrl_reach_inv [OF assms(1)] by blast
  then show ?thesis using assms(2) by (simp add: ctrl_inv_def base_inv_def queues_ok_def)
qed

section \<open>A run\<close>

definition sample_hmc :: hmc where
  "sample_hmc = mk_hmc ''HMC_4GB'' ''HMC_2500'' ''HMC_32B'' ''HMC_Full_Width'' ''HMC_30_Gbps'' 4 4"

definition sample_ctrl :: "vault_ctrl res" where
  "sample_ctrl = new_vault_ctrl sample_hmc (new_dram (hm_spec sample_hmc) 0 3) True False False False 1"

definition sample_packet :: packet where
  "sample_packet = mk_request_packet 0 4096 5 1 0 RD16
     ((mk_request 4096 READ 0)\<lparr>rq_addr_vec := [3, 1, 1, 7, 0], rq_reqid := 77\<rparr>)"

definition sample_run :: "vault_ctrl res" where
  "sample_run =
     bindR sample_ctrl (\<lambda>c. bindR (receive c sample_packet) (\<lambda>(ok, pkt, c1). ctrl_tick c1))"

lemma sample_run_reach:
  assumes "sample_run = Inr c"
  shows "ctrl_reach c"
proof -
  obtain c0 ok pkt c1 where run: "sample_ctrl = Inr c0" "receive c0 sample_packet = Inr (ok, pkt, c1)"
    "ctrl_tick c1 = Inr c"
    using assms [unfolded sample_run_def bindR_eq_Inr] by auto
  have "ctrl_reach c0" using run(1) unfolding sample_ctrl_def by (rule ctrl_reach.Construct)
  moreover have "packet_for c0 sample_packet"
    using run(1)
    by (auto simp: sample_ctrl_def new_vault_ctrl_def packet_for_def sample_packet_def mk_request_packet_def
        mk_request_def fields_ok_def field_valid_def access_req_def bank_addr_def vault_id_def vault_id_new
        ids_def live_def sample_hmc_def mk_hmc_def hmc_org_of_def nbg_def nbank_def org_entry.defs
        cub_bits_def tag_bits_def slid_bits_def core_in_def)
  ultimately show ?thesis using run ctrl_reach.Receive ctrl_reach.Tick by blast
qed

lemma sample_run_ok:
  "\<exists>c. sample_run = Inr c \<and> vc_record_cmd_trace c \<and> \<not> vc_pim_mode_enabled c \<and> length (vc_trace c) = 1"
proof -
  have "case sample_run of Inl e \<Rightarrow> False
    | Inr c \<Rightarrow> vc_record_cmd_trace c \<and> \<not> vc_pim_mode_enabled c \<and> length (vc_trace c) = 1"
    by code_simp
  then show ?thesis by (auto split: sum.splits)
qed

theorem ctrl_never_fails_witness: "\<exists>c. sample_run = Inr c \<and> (\<exists>c'. ctrl_tick c = Inr c')"
  using sample_run_ok ctrl_never_fails [OF sample_run_reach] by blast

theorem ctrl_trace_legal_witness:
  "\<exists>c x. sample_run = Inr c \<and> vc_issued c = [x] \<and> legal_hist (vc_spec c) (vc_issued c)
     \<and> vc_trace c = [trace_line (vc_spec c) x]"
proof -
  obtain c where c: "sample_run = Inr c" "vc_record_cmd_trace c" "length (vc_trace c) = 1"
    using sample_run_ok by blast
  note l = ctrl_trace_legal [OF sample_run_reach [OF c(1)]]
  then have t: "vc_trace c = rev (map (trace_line (vc_spec c)) (vc_issued c))" using c(2) by blast
  then have "length (vc_issued c) = 1" using c(3) by simp
  then obtain x where "vc_issued c = [x]" by (auto simp: length_Suc_conv)
  with c(1) l t show ?thesis by (intro exI [of _ c] exI [of _ x]) simp
qed

theorem ctrl_tick_conserves_witness:
  "\<exists>c c'. sample_run = Inr c \<and> ctrl_tick c = Inr c' \<and> ids c' + answered c' = ids c + answered c"
proof -
  obtain c where c: "sample_run = Inr c" using sample_run_ok by blast
  obtain H A where "ctrl_inv c H A" using ctrl_reach_inv [OF sample_run_reach [OF c]] by blast
  then obtain c' where "ctrl_tick c = Inr c'" using ctrl_tick_step by blast
  with c ctrl_tick_conserves [OF sample_run_reach [OF c]] show ?thesis by blast
qed

text \<open>After 20000 cycles without requests two refreshes have been issued.\<close>

lemma idle_run: "\<exists>c. ctrl_reach c \<and> vc_clk c = int n \<and> vc_hmc c = sample_hmc"
proof (induction n)
  case 0
  obtain c where c: "sample_ctrl = Inr c" "vc_clk c = 0" "vc_hmc c = sample_hmc"
    by (simp add: sample_ctrl_def new_vault_ctrl_def Let_def)
  then have "ctrl_reach c" unfolding sample_ctrl_def by (blast intro: ctrl_reach.Construct)
  with c show ?case by auto
next
  case (Suc n)
  then obtain c where c: "ctrl_reach c" "vc_clk c = int n" "vc_hmc c = sample_hmc" by blast
  obtain H A where "ctrl_inv c H A" using ctrl_reach_inv [OF c(1)] by blast
  from ctrl_tick_step [OF this] obtain c' where "ctrl_tick c = Inr c'" "vc_clk c' = vc_clk c + 1" "vc_hmc c' = vc_hmc c"
    by blast
  with c show ?case using ctrl_reach.Tick [OF c(1)] by (intro exI [of _ c']) simp
qed

theorem ctrl_refresh_on_time_witness:
  "\<exists>c. ctrl_reach c \<and> vc_clk c = 20000 \<and> refreshes (vc_issued c) = 2"
proof -
  obtain c where c: "ctrl_reach c" "vc_clk c = 20000" using idle_run [of 20000] by auto
  from ctrl_refresh_on_time [OF c(1)] have "refreshes (vc_issued c) = 2" by (auto simp: c(2) hmc_nREFI)
  with c show ?thesis by blast
qed

theorem ctrl_queue_bounds_witness:
  "\<exists>c. sample_run = Inr c \<and> length (qu_q (sel_queue ReadQ c)) \<le> qu_max (sel_queue ReadQ c)"
  using sample_run_ok ctrl_queue_bounds [OF sample_run_reach] by blast

end
