(* ===== verification/HMC_Layer_Inv.thy ===== *)
theory HMC_Layer_Inv
  imports HMC_Ctrl_Run HMC_Memory
begin

text \<open>
  The logic layer at work: links, switch and vaults keep their invariants, no step fails, and every
  packet that enters the layer is in exactly one place until the host receives it.
\<close>

section \<open>Sums over lists\<close>

lemma sum_list_update_mset:
  fixes f :: "'a \<Rightarrow> 'b multiset"
  assumes "i < length xs"
  shows "sum_list (map f (xs[i := x])) + f (xs ! i) = sum_list (map f xs) + f x"
  using assms
proof (induction xs arbitrary: i)
  case (Cons a xs)
  then show ?case by (cases i) (auto simp: ac_simps)
qed simp

lemma sum_list_mset_member:
  fixes f :: "'a \<Rightarrow> 'b multiset"
  assumes "i < length xs"
  shows "f (xs ! i) \<subseteq># sum_list (map f xs)"
  using assms
proof (induction xs arbitrary: i)
  case (Cons a xs)
  show ?case
  proof (cases i)
    case (Suc j)
    with Cons have "f (xs ! j) \<subseteq># sum_list (map f xs)" by simp
    then show ?thesis using Suc by (simp add: subset_mset.add_increasing)
  qed simp
qed simp

lemma account_chain:
  fixes a a' s s' p q c c1 c2 :: "'a multiset"
  assumes "p + a' + c1 = a + c" and "q + s' + c2 = s + c1"
  shows "(p + q) + (a' + s') + c2 = (a + s) + c"
proof -
  have "(p + q) + (a' + s') + c2 = p + a' + (q + s' + c2)" by (simp only: ac_simps)
  also have "\<dots> = (p + a' + c1) + s" unfolding assms(2) by (simp only: ac_simps)
  finally show ?thesis unfolding assms(1) by (simp only: ac_simps)
qed

abbreviation once :: "'a multiset \<Rightarrow> bool" where
  "once M \<equiv> \<forall>x. count M x \<le> 1"

lemma once_disjoint: "once (M + N) \<Longrightarrow> x \<in># M \<Longrightarrow> x \<notin># N"
  by (metis One_nat_def add_le_same_cancel2 count_eq_zero_iff count_greater_zero_iff count_union not_less_eq_eq
      le_antisym less_eq_Suc_le linorder_not_less add.commute add_leD2 add_is_1)

lemma once_subset: "once M \<Longrightarrow> N \<subseteq># M \<Longrightarrow> once N"
  by (meson le_trans mset_subset_eq_count)

section \<open>Links\<close>

definition packet_ids :: "packet list \<Rightarrow> int multiset" where
  "packet_ids ps = image_mset (\<lambda>p. rq_reqid (pk_req p)) (mset ps)"

lemma packet_ids_simps [simp]:
  "packet_ids [] = {#}" "packet_ids (p # ps) = add_mset (rq_reqid (pk_req p)) (packet_ids ps)"
  "packet_ids (ps @ qs) = packet_ids ps + packet_ids qs"
  by (simp_all add: packet_ids_def)

text \<open>A packet on its way to a vault of a memory \<open>h\<close> with \<open>nv\<close> vaults, for a machine with \<open>k\<close> cores.\<close>

definition request_ok :: "hmc \<Rightarrow> int \<Rightarrow> nat \<Rightarrow> packet \<Rightarrow> bool" where
  "request_ok h k nv p \<longleftrightarrow>
     pk_type p = REQUEST \<and> fields_ok (hm_source_links h) p \<and> 0 \<le> pk_total_flits p
     \<and> rq_is_first_command (pk_req p)
     \<and> (\<exists>v<nv. access_req (hm_org h) k (int v) (pk_req p))"

definition link_ok :: "hmc \<Rightarrow> int \<Rightarrow> nat \<Rightarrow> link \<Rightarrow> bool" where
  "link_ok h k nv l \<longleftrightarrow>
     lk_type l = HOST_SOURCE_MODE \<and> 0 \<le> lk_extracted_token_count l
     \<and> (\<forall>p\<in>set (lk_input_buffer l). request_ok h k nv p)
     \<and> (\<forall>p\<in>set (lk_output_buffer l). resp_ok (hm_source_links h) k p)"

definition data_packets :: "packet list \<Rightarrow> packet list" where
  "data_packets = filter (\<lambda>p. \<not> pk_flow_control p)"

lemma send_flow_step:
  assumes "link_ok h k nv l"
  shows "\<exists>ps l'. send_flow ofc l = Inr (ps, l') \<and> link_ok h k nv l' \<and> lk_input_buffer l' = lk_input_buffer l
    \<and> lk_output_buffer l' = lk_output_buffer l \<and> data_packets ps = []"
proof (cases "lk_extracted_token_count l > 0")
  case True
  then obtain r where "leftmostbit (lk_extracted_token_count l) = Some r" "r \<le> lk_extracted_token_count l"
    using leftmostbit_total [of "lk_extracted_token_count l"] by auto
  with True assms show ?thesis
    by (simp add: send_flow_def link_ok_def data_packets_def mk_tret_packet_def Let_def)
next
  case False
  with assms show ?thesis by (simp add: send_flow_def link_ok_def data_packets_def)
qed

lemma master_tick_step:
  assumes "link_ok h k nv l"
  shows "\<exists>ps l'. master_tick ofc l = Inr (ps, l') \<and> link_ok h k nv l' \<and> lk_input_buffer l' = lk_input_buffer l
    \<and> (\<forall>p\<in>set (data_packets ps). resp_ok (hm_source_links h) k p)
    \<and> packet_ids (data_packets ps) + packet_ids (lk_output_buffer l') = packet_ids (lk_output_buffer l)"
proof -
  let ?l = "l\<lparr>lk_clk := lk_clk l + 1\<rparr>"
  have ok: "link_ok h k nv ?l" using assms by (simp add: link_ok_def)
  show ?thesis
  proof (cases "lk_clk ?l \<ge> lk_next_packet_clk ?l \<and>
      (\<exists>p ps. lk_output_buffer l = p # ps \<and> lk_available_token_count l \<ge> pk_total_flits p)")
    case True
    then obtain p ps where p: "lk_output_buffer l = p # ps" "lk_available_token_count l \<ge> pk_total_flits p"
      "lk_clk ?l \<ge> lk_next_packet_clk ?l" by blast
    obtain r where "leftmostbit (lk_extracted_token_count l) = Some r" "r \<le> lk_extracted_token_count l"
      using leftmostbit_total [of "lk_extracted_token_count l"] assms by (auto simp: link_ok_def)
    with p assms show ?thesis
      by (simp add: master_tick_def link_send_def link_ok_def data_packets_def resp_ok_def Let_def)
  next
    case False
    then have "master_tick ofc l = (if lk_clk ?l \<ge> lk_next_packet_clk ?l then send_flow ofc ?l else Inr ([], ?l))"
      by (auto simp: master_tick_def link_send_def Let_def split: list.splits)
    then show ?thesis using send_flow_step [OF ok, of ofc] ok
      by (auto simp: data_packets_def filter_empty_conv)
  qed
qed

abbreviation inputs :: "link list \<Rightarrow> int multiset" where
  "inputs ls \<equiv> \<Sum>l\<leftarrow>ls. packet_ids (lk_input_buffer l)"

abbreviation outputs :: "link list \<Rightarrow> int multiset" where
  "outputs ls \<equiv> \<Sum>l\<leftarrow>ls. packet_ids (lk_output_buffer l)"

lemma masters_tick_step:
  assumes "\<forall>l\<in>set ls. link_ok h k nv l"
  shows "\<exists>ps ls'. masters_tick ofc ls = Inr (ps, ls') \<and> (\<forall>l\<in>set ls'. link_ok h k nv l) \<and> length ls' = length ls
    \<and> inputs ls' = inputs ls \<and> (\<forall>p\<in>set (data_packets ps). resp_ok (hm_source_links h) k p)
    \<and> packet_ids (data_packets ps) + outputs ls' = outputs ls"
  using assms
proof (induction ls)
  case (Cons l ls)
  obtain ps ls' where 1: "masters_tick ofc ls = Inr (ps, ls')" "\<forall>l\<in>set ls'. link_ok h k nv l" "length ls' = length ls"
    "inputs ls' = inputs ls" "\<forall>p\<in>set (data_packets ps). resp_ok (hm_source_links h) k p"
    "packet_ids (data_packets ps) + outputs ls' = outputs ls" using Cons by fastforce
  obtain qs l' where 2: "master_tick ofc l = Inr (qs, l')" "link_ok h k nv l'" "lk_input_buffer l' = lk_input_buffer l"
    "\<forall>p\<in>set (data_packets qs). resp_ok (hm_source_links h) k p"
    "packet_ids (data_packets qs) + packet_ids (lk_output_buffer l') = packet_ids (lk_output_buffer l)"
    using master_tick_step [of h k nv l ofc] Cons.prems by auto
  have d: "data_packets (qs @ ps) = data_packets qs @ data_packets ps" by (simp add: data_packets_def)
  have "packet_ids (data_packets (qs @ ps)) + outputs (l' # ls') = outputs (l # ls)"
    unfolding d using 1(6) [symmetric] 2(5) [symmetric] by (simp add: ac_simps)
  with 1 2 d show ?case by auto
qed (simp add: data_packets_def)

section \<open>The switch\<close>

definition ctrls_ok :: "hmc \<Rightarrow> int \<Rightarrow> bool \<Rightarrow> vault_ctrl list \<Rightarrow> bool" where
  "ctrls_ok h k pm cs \<longleftrightarrow>
     (\<forall>i<length cs. vault_id (cs ! i) = int i \<and> vc_hmc (cs ! i) = h \<and> vc_core_num (cs ! i) = k
        \<and> vc_pim_mode_enabled (cs ! i) = pm \<and> (\<exists>H A. ctrl_inv (cs ! i) H A))"

abbreviation ctrl_ids :: "vault_ctrl list \<Rightarrow> int multiset" where
  "ctrl_ids cs \<equiv> \<Sum>c\<leftarrow>cs. ids c"

abbreviation ctrl_answered :: "vault_ctrl list \<Rightarrow> int multiset" where
  "ctrl_answered cs \<equiv> \<Sum>c\<leftarrow>cs. answered c"

lemma ctrls_ok_update:
  assumes "ctrls_ok h k pm cs" and "i < length cs" and "vault_id c = int i" "vc_hmc c = h" "vc_core_num c = k"
    "vc_pim_mode_enabled c = pm" "ctrl_inv c H A"
  shows "ctrls_ok h k pm (cs[i := c])"
  using assms unfolding ctrls_ok_def by (metis length_list_update nth_list_update_eq nth_list_update_neq)

lemma same_packet_ok: "same_packet p p' \<Longrightarrow> request_ok h k nv p \<Longrightarrow> request_ok h k nv p'"
  by (auto simp: same_packet_def request_ok_def fields_ok_def access_req_def core_in_def)

lemma same_packet_id: "same_packet p p' \<Longrightarrow> rq_reqid (pk_req p') = rq_reqid (pk_req p)"
  and same_packet_flits: "same_packet p p' \<Longrightarrow> pk_total_flits p' = pk_total_flits p"
  by (auto simp: same_packet_def)

text \<open>The delivery of the packet at the front of a link.\<close>

lemma deliver_step:
  assumes cs: "ctrls_ok h k pm cs" and p: "request_ok h k (length cs) p" and fresh: "rq_reqid (pk_req p) \<notin># ctrl_ids cs"
  shows "\<exists>v ok p' c'. nthR (rq_addr_vec (pk_req p)) 0 = Inr (int v) \<and> v < length cs
    \<and> receive (cs ! v) p = Inr (ok, p', c') \<and> same_packet p p' \<and> ctrls_ok h k pm (cs[v := c'])
    \<and> ctrl_ids (cs[v := c']) = (if ok then add_mset (rq_reqid (pk_req p)) (ctrl_ids cs) else ctrl_ids cs)
    \<and> ctrl_answered (cs[v := c']) = ctrl_answered cs \<and> (pm \<longrightarrow> ok) \<and> rq_addr_vec (pk_req p) ! 0 = int v"
proof -
  obtain v where v: "v < length cs" "access_req (hm_org h) k (int v) (pk_req p)" using p by (auto simp: request_ok_def)
  obtain H A where c: "vault_id (cs ! v) = int v" "vc_hmc (cs ! v) = h" "ctrl_inv (cs ! v) H A"
    "vc_core_num (cs ! v) = k" "vc_pim_mode_enabled (cs ! v) = pm"
    using cs v(1) by (auto simp: ctrls_ok_def)
  have "rq_reqid (pk_req p) \<notin># ids (cs ! v)"
    using fresh sum_list_mset_member [OF v(1), of ids] by (meson mset_subset_eqD)
  then have "packet_for (cs ! v) p" using p v(2) c by (simp add: packet_for_def request_ok_def)
  from receive_step [OF c(3) this] obtain ok p' c' where r: "receive (cs ! v) p = Inr (ok, p', c')"
    "ctrl_inv c' H A" "ids c' = (if ok then add_mset (rq_reqid (pk_req p)) (ids (cs ! v)) else ids (cs ! v))"
    "answered c' = answered (cs ! v)" "vault_id c' = int v" "vc_hmc c' = h" "same_packet p p'"
    "vc_core_num c' = k" "vc_pim_mode_enabled c' = pm" "pm \<Longrightarrow> ok"
    using c by (auto simp: queue_full_def)
  have "nthR (rq_addr_vec (pk_req p)) 0 = Inr (int v)"
    using v(2) by (auto simp: access_req_def bank_addr_def)
  moreover have "ctrls_ok h k pm (cs[v := c'])" by (rule ctrls_ok_update [OF cs v(1) r(5,6,8,9,2)])
  moreover have "ctrl_ids (cs[v := c']) = (if ok then add_mset (rq_reqid (pk_req p)) (ctrl_ids cs) else ctrl_ids cs)"
    using sum_list_update_mset [OF v(1), of ids c'] r(3) by (auto split: if_splits)
  moreover have "ctrl_answered (cs[v := c']) = ctrl_answered cs"
    using sum_list_update_mset [OF v(1), of answered c'] r(4) by simp
  moreover have "rq_addr_vec (pk_req p) ! 0 = int v" using v(2) by (simp add: access_req_def)
  ultimately show ?thesis using v(1) r(1,7,10) by blast
qed

lemma to_vaults_step:
  assumes "ctrls_ok h k pm cs" and "\<forall>l\<in>set ls. link_ok h k (length cs) l" and "once (inputs ls + ctrl_ids cs)"
  shows "\<exists>ls' cs'. to_vaults cub ls used cs = Inr (ls', cs') \<and> ctrls_ok h k pm cs' \<and> length cs' = length cs
    \<and> (\<forall>l\<in>set ls'. link_ok h k (length cs) l) \<and> length ls' = length ls
    \<and> inputs ls' + ctrl_ids cs' = inputs ls + ctrl_ids cs
    \<and> ctrl_answered cs' = ctrl_answered cs \<and> outputs ls' = outputs ls"
  using assms
proof (induction ls arbitrary: used cs)
  case (Cons l ls)
  have l: "link_ok h k (length cs) l" using Cons.prems(2) by simp
  have on: "once (inputs ls + ctrl_ids cs)"
    by (rule once_subset [OF Cons.prems(3)]) (simp add: subset_mset.add_increasing)
  have skip: "\<exists>ls' cs'. bindR (to_vaults cub ls used cs) (\<lambda>(ls', cs'). Inr (l # ls', cs')) = Inr (ls', cs')
    \<and> ctrls_ok h k pm cs' \<and> length cs' = length cs \<and> (\<forall>l\<in>set ls'. link_ok h k (length cs) l)
    \<and> length ls' = length (l # ls) \<and> inputs ls' + ctrl_ids cs' = inputs (l # ls) + ctrl_ids cs
    \<and> ctrl_answered cs' = ctrl_answered cs \<and> outputs ls' = outputs (l # ls)"
  proof -
    obtain ls' cs' where "to_vaults cub ls used cs = Inr (ls', cs')" "ctrls_ok h k pm cs'" "length cs' = length cs"
      "\<forall>l\<in>set ls'. link_ok h k (length cs) l" "length ls' = length ls"
      "inputs ls' + ctrl_ids cs' = inputs ls + ctrl_ids cs"
      "ctrl_answered cs' = ctrl_answered cs" "outputs ls' = outputs ls"
      using Cons.IH [OF Cons.prems(1) _ on, of used] Cons.prems(2) by auto
    then show ?thesis using l by (simp add: add.assoc)
  qed
  show ?case
  proof (cases "lk_input_buffer l")
    case Nil
    then show ?thesis using skip by simp
  next
    case (Cons p rest)
    have rp: "request_ok h k (length cs) p" using l Cons by (simp add: link_ok_def)
    have "rq_reqid (pk_req p) \<notin># ctrl_ids cs"
      using once_disjoint [OF Cons.prems(3)] Cons by simp
    then obtain v ok p' c' where v: "nthR (rq_addr_vec (pk_req p)) 0 = Inr (int v)" "v < length cs"
      "receive (cs ! v) p = Inr (ok, p', c')" "same_packet p p'" "ctrls_ok h k pm (cs[v := c'])"
      "ctrl_ids (cs[v := c']) = (if ok then add_mset (rq_reqid (pk_req p)) (ctrl_ids cs) else ctrl_ids cs)"
      "ctrl_answered (cs[v := c']) = ctrl_answered cs"
      using deliver_step [OF Cons.prems(1) rp] by blast
    show ?thesis
    proof (cases "pk_CUB p = cub \<and> int v \<notin> set used")
      case False
      then have "to_vaults cub (l # ls) used cs
        = bindR (to_vaults cub ls used cs) (\<lambda>(ls', cs'). Inr (l # ls', cs'))"
        using v(1) Cons by (cases "pk_CUB p = cub") (simp_all add: nthR_def Let_def)
      then show ?thesis using skip by simp
    next
      case True
      define l' where "l' = (if ok then l\<lparr>lk_extracted_token_count := lk_extracted_token_count l + pk_total_flits p',
          lk_input_buffer := rest\<rparr> else l\<lparr>lk_input_buffer := p' # rest\<rparr>)"
      define used' where "used' = (if ok then int v # used else used)"
      have l': "link_ok h k (length cs) l'" "lk_output_buffer l' = lk_output_buffer l"
        using l Cons rp same_packet_ok [OF v(4) rp] same_packet_flits [OF v(4)]
        by (auto simp: l'_def link_ok_def request_ok_def)
      have eq: "packet_ids (lk_input_buffer l') + ctrl_ids (cs[v := c']) = packet_ids (lk_input_buffer l) + ctrl_ids cs"
        using Cons v(6) same_packet_id [OF v(4)] by (simp add: l'_def)
      then have tot: "inputs ls + ctrl_ids (cs[v := c']) + packet_ids (lk_input_buffer l')
        = inputs (l # ls) + ctrl_ids cs" by (simp add: ac_simps)
      have "once (inputs ls + ctrl_ids (cs[v := c']))"
        by (rule once_subset [OF Cons.prems(3)]) (simp add: tot [symmetric] del: sum_list.Cons list.map)
      then obtain ls' cs' where r: "to_vaults cub ls used' (cs[v := c']) = Inr (ls', cs')" "ctrls_ok h k pm cs'"
        "length cs' = length cs" "\<forall>l\<in>set ls'. link_ok h k (length cs) l" "length ls' = length ls"
        "inputs ls' + ctrl_ids cs' = inputs ls + ctrl_ids (cs[v := c'])"
        "ctrl_answered cs' = ctrl_answered cs" "outputs ls' = outputs ls"
        using Cons.IH [OF v(5), of used'] Cons.prems(2) v(7) by auto
      have "to_vaults cub (l # ls) used cs = Inr (l' # ls', cs')"
        using True Cons v(1,2,3) r(1) by (simp add: indexR_lt l'_def used'_def Let_def)
      moreover have "inputs (l' # ls') + ctrl_ids cs' = inputs (l # ls) + ctrl_ids cs"
        using tot [symmetric] r(6) by (simp add: ac_simps)
      ultimately show ?thesis using r l' by simp
    qed
  qed
qed simp

text \<open>What the way back does to a vault controller.\<close>

definition taken :: "vault_ctrl \<Rightarrow> vault_ctrl \<Rightarrow> bool" where
  "taken c c' \<longleftrightarrow>
     vault_id c' = vault_id c \<and> vc_hmc c' = vc_hmc c \<and> vc_core_num c' = vc_core_num c \<and> vc_pim_mode_enabled c' = vc_pim_mode_enabled c
     \<and> ids c' = ids c \<and> (\<exists>H A. ctrl_inv c' H A)"

lemma ctrls_ok_all2:
  assumes "ctrls_ok h k pm cs" and "list_all2 taken cs cs'"
  shows "ctrls_ok h k pm cs' \<and> length cs' = length cs"
  using assms by (auto simp: ctrls_ok_def list_all2_conv_all_nth taken_def)

lemma taken_ids: "list_all2 taken cs cs' \<Longrightarrow> ctrl_ids cs' = ctrl_ids cs"
  by (induction rule: list_all2_induct) (simp_all add: taken_def)

lemma to_links_step:
  assumes "\<forall>c\<in>set cs. vc_hmc c = h \<and> vc_core_num c = k \<and> (\<exists>H A. ctrl_inv c H A)" and "\<forall>l\<in>set ls. link_ok h k nv l"
    and "int (length ls) = hm_source_links h"
  shows "\<exists>cs' ls'. to_links cs used ls = Inr (cs', ls') \<and> list_all2 taken cs cs'
    \<and> (\<forall>l\<in>set ls'. link_ok h k nv l) \<and> length ls' = length ls \<and> inputs ls' = inputs ls
    \<and> ctrl_answered cs' + outputs ls' = ctrl_answered cs + outputs ls"
  using assms
proof (induction cs arbitrary: used ls)
  case (Cons c cs)
  obtain H A where inv: "ctrl_inv c H A" and h: "vc_hmc c = h" "vc_core_num c = k" using Cons.prems(1) by auto
  have tc: "taken c c" using inv by (auto simp: taken_def)
  have skip: "\<exists>cs' ls'. bindR (to_links cs used ls) (\<lambda>(cs', ls'). Inr (c # cs', ls')) = Inr (cs', ls')
    \<and> list_all2 taken (c # cs) cs' \<and> (\<forall>l\<in>set ls'. link_ok h k nv l) \<and> length ls' = length ls
    \<and> inputs ls' = inputs ls \<and> ctrl_answered cs' + outputs ls' = ctrl_answered (c # cs) + outputs ls"
  proof -
    obtain cs' ls' where "to_links cs used ls = Inr (cs', ls')" "list_all2 taken cs cs'"
      "\<forall>l\<in>set ls'. link_ok h k nv l" "length ls' = length ls" "inputs ls' = inputs ls"
      "ctrl_answered cs' + outputs ls' = ctrl_answered cs + outputs ls"
      using Cons.IH [of ls used] Cons.prems by auto
    then show ?thesis using tc by (simp add: add.assoc)
  qed
  show ?case
  proof (cases "vc_response_packets c")
    case Nil
    then show ?thesis using skip by simp
  next
    case (Cons p rest)
    have rp: "resp_ok (hm_source_links h) k p" using inv h Cons by (simp add: ctrl_inv_def base_inv_def)
    let ?s = "nat (pk_SLID p)"
    have s: "0 \<le> pk_SLID p" "?s < length ls" using rp Cons.prems(3) by (auto simp: resp_ok_def nat_less_iff)
    let ?l = "ls ! ?s"
    have l: "link_ok h k nv ?l" "lk_type ?l = HOST_SOURCE_MODE" using Cons.prems(2) s by (auto simp: link_ok_def)
    show ?thesis
    proof (cases "pk_SLID p \<notin> set used \<and> pk_total_flits p \<le> master_available_space ?l")
      case False
      then have "to_links (c # cs) used ls = bindR (to_links cs used ls) (\<lambda>(cs', ls'). Inr (c # cs', ls'))"
        using Cons s l(2) by (cases "pk_SLID p \<in> set used") (simp_all add: indexR_lt Let_def)
      then show ?thesis using skip by simp
    next
      case True
      let ?l' = "?l\<lparr>lk_output_buffer := lk_output_buffer ?l @ [p]\<rparr>" and ?c = "c\<lparr>vc_response_packets := rest\<rparr>"
      let ?ls = "ls[?s := ?l']"
      have ok: "\<forall>l\<in>set ?ls. link_ok h k nv l"
        using Cons.prems(2) l(1) rp set_update_subset_insert [of ls ?s ?l'] by (fastforce simp: link_ok_def)
      have out: "outputs ?ls = outputs ls + {#rq_reqid (pk_req p)#}"
        using sum_list_update_mset [OF s(2), of "\<lambda>l. packet_ids (lk_output_buffer l)" ?l'] by (simp add: ac_simps)
      have inp: "inputs ?ls = inputs ls"
        using sum_list_update_mset [OF s(2), of "\<lambda>l. packet_ids (lk_input_buffer l)" ?l'] by simp
      obtain cs' ls' where r: "to_links cs (pk_SLID p # used) ?ls = Inr (cs', ls')" "list_all2 taken cs cs'"
        "\<forall>l\<in>set ls'. link_ok h k nv l" "length ls' = length ls" "inputs ls' = inputs ls"
        "ctrl_answered cs' + outputs ls' = ctrl_answered cs + outputs ?ls"
        using Cons.IH [of ?ls "pk_SLID p # used"] Cons.prems ok inp by auto
      have "to_links (c # cs) used ls = Inr (?c # cs', ls')"
        using True Cons s l(2) r(1) by (simp add: indexR_lt Let_def)
      moreover have "taken c ?c"
        using take_inv [OF inv Cons] by (auto simp: taken_def vault_id_def ids_def live_def)
      moreover have "ctrl_answered (?c # cs') + outputs ls' = ctrl_answered (c # cs) + outputs ls"
      proof -
        have "ctrl_answered (?c # cs') + outputs ls' = answered ?c + (ctrl_answered cs' + outputs ls')"
          by (simp add: add.assoc)
        also have "\<dots> = answered ?c + (ctrl_answered cs + (outputs ls + {#rq_reqid (pk_req p)#}))"
          unfolding r(6) out ..
        also have "\<dots> = (answered ?c + {#rq_reqid (pk_req p)#}) + (ctrl_answered cs + outputs ls)"
          by (simp add: ac_simps)
        also have "answered ?c + {#rq_reqid (pk_req p)#} = answered c" using Cons by (simp add: answered_def)
        finally show ?thesis by (simp add: add.assoc)
      qed
      ultimately show ?thesis using r(2-5) by (intro exI [of _ "?c # cs'"] exI [of _ ls']) simp
    qed
  qed
qed simp

section \<open>The layer\<close>

definition layer_ok :: "hmc \<Rightarrow> int \<Rightarrow> nat \<Rightarrow> logic_layer \<Rightarrow> bool" where
  "layer_ok h k nv ll \<longleftrightarrow>
     int (length (ll_host_links ll)) = hm_source_links h \<and> (\<forall>l\<in>set (ll_host_links ll). link_ok h k nv l)"

lemma logic_layer_tick_step:
  assumes "ctrls_ok h k pm cs" and "layer_ok h k (length cs) ll" and "once (inputs (ll_host_links ll) + ctrl_ids cs)"
  shows "\<exists>ps ll' cs'. logic_layer_tick ll cs = Inr (ps, ll', cs') \<and> ctrls_ok h k pm cs' \<and> length cs' = length cs
    \<and> layer_ok h k (length cs) ll' \<and> (\<forall>p\<in>set (data_packets ps). resp_ok (hm_source_links h) k p)
    \<and> inputs (ll_host_links ll') + ctrl_ids cs' = inputs (ll_host_links ll) + ctrl_ids cs
    \<and> packet_ids (data_packets ps) + outputs (ll_host_links ll') + ctrl_answered cs'
        = outputs (ll_host_links ll) + ctrl_answered cs"
proof -
  let ?ls = "ll_host_links ll"
  obtain ps ls1 where 1: "masters_tick (ll_one_flit_cycles ll) ?ls = Inr (ps, ls1)"
    "\<forall>l\<in>set ls1. link_ok h k (length cs) l" "length ls1 = length ?ls" "inputs ls1 = inputs ?ls"
    "\<forall>p\<in>set (data_packets ps). resp_ok (hm_source_links h) k p"
    "packet_ids (data_packets ps) + outputs ls1 = outputs ?ls"
    using masters_tick_step [of ?ls h k "length cs" "ll_one_flit_cycles ll"] assms(2) by (auto simp: layer_ok_def)
  obtain ls2 cs2 where 2: "to_vaults (ll_cub ll) ls1 [] cs = Inr (ls2, cs2)" "ctrls_ok h k pm cs2"
    "length cs2 = length cs" "\<forall>l\<in>set ls2. link_ok h k (length cs) l" "length ls2 = length ls1"
    "inputs ls2 + ctrl_ids cs2 = inputs ls1 + ctrl_ids cs" "ctrl_answered cs2 = ctrl_answered cs"
    "outputs ls2 = outputs ls1"
    using to_vaults_step [OF assms(1) 1(2), of "ll_cub ll" "[]"] assms(3) 1(4) by auto
  have "\<forall>c\<in>set cs2. vc_hmc c = h \<and> vc_core_num c = k \<and> (\<exists>H A. ctrl_inv c H A)"
    using 2(2) by (auto simp: ctrls_ok_def in_set_conv_nth)
  then obtain cs3 ls3 where 3: "to_links cs2 [] ls2 = Inr (cs3, ls3)" "list_all2 taken cs2 cs3"
    "\<forall>l\<in>set ls3. link_ok h k (length cs) l" "length ls3 = length ls2" "inputs ls3 = inputs ls2"
    "ctrl_answered cs3 + outputs ls3 = ctrl_answered cs2 + outputs ls2"
    using to_links_step [of cs2 h k ls2 "length cs" "[]"] 1(3) 2(4,5) assms(2) by (auto simp: layer_ok_def)
  let ?ll = "ll\<lparr>ll_host_links := ls3, ll_xbar_clk := ll_xbar_clk ll + 1\<rparr>"
  have "logic_layer_tick ll cs = Inr (ps, ?ll, cs3)"
    using 1(1) 2(1) 3(1) by (simp add: logic_layer_tick_def switch_tick_def)
  moreover have "layer_ok h k (length cs) ?ll" using assms(2) 1(3) 2(5) 3(3,4) by (simp add: layer_ok_def)
  moreover have "packet_ids (data_packets ps) + outputs ls3 + ctrl_answered cs3 = outputs ?ls + ctrl_answered cs"
    using 1(6) [symmetric] 2(7,8) 3(6) by (simp add: ac_simps)
  moreover have "inputs ls3 + ctrl_ids cs3 = inputs ?ls + ctrl_ids cs"
    using 1(4) 2(6) 3(5) taken_ids [OF 3(2)] by simp
  ultimately show ?thesis using ctrls_ok_all2 [OF 2(2) 3(2)] 2(3) 1(5)
    by (intro exI [of _ ps] exI [of _ ?ll] exI [of _ cs3]) simp
qed

lemma tick_layers_step:
  assumes "ctrls_ok h k pm cs" and "\<forall>ll\<in>set lls. layer_ok h k (length cs) ll"
    and "once ((\<Sum>ll\<leftarrow>lls. inputs (ll_host_links ll)) + ctrl_ids cs)"
  shows "\<exists>ps lls' cs'. tick_layers lls cs = Inr (ps, lls', cs') \<and> ctrls_ok h k pm cs' \<and> length cs' = length cs
    \<and> (\<forall>ll\<in>set lls'. layer_ok h k (length cs) ll) \<and> length lls' = length lls
    \<and> (\<forall>p\<in>set (data_packets ps). resp_ok (hm_source_links h) k p)
    \<and> (\<Sum>ll\<leftarrow>lls'. inputs (ll_host_links ll)) + ctrl_ids cs' = (\<Sum>ll\<leftarrow>lls. inputs (ll_host_links ll)) + ctrl_ids cs
    \<and> packet_ids (data_packets ps) + (\<Sum>ll\<leftarrow>lls'. outputs (ll_host_links ll)) + ctrl_answered cs'
        = (\<Sum>ll\<leftarrow>lls. outputs (ll_host_links ll)) + ctrl_answered cs"
  using assms
proof (induction lls arbitrary: cs)
  case (Cons ll lls)
  let ?in = "\<lambda>lls. \<Sum>ll\<leftarrow>lls. inputs (ll_host_links ll)" and ?out = "\<lambda>lls. \<Sum>ll\<leftarrow>lls. outputs (ll_host_links ll)"
  have on: "once (inputs (ll_host_links ll) + ctrl_ids cs)"
    by (rule once_subset [OF Cons.prems(3)]) (simp add: subset_mset.add_increasing)
  obtain ps ll' cs1 where 1: "logic_layer_tick ll cs = Inr (ps, ll', cs1)" "ctrls_ok h k pm cs1" "length cs1 = length cs"
    "layer_ok h k (length cs) ll'" "\<forall>p\<in>set (data_packets ps). resp_ok (hm_source_links h) k p"
    "inputs (ll_host_links ll') + ctrl_ids cs1 = inputs (ll_host_links ll) + ctrl_ids cs"
    "packet_ids (data_packets ps) + outputs (ll_host_links ll') + ctrl_answered cs1
        = outputs (ll_host_links ll) + ctrl_answered cs"
    using logic_layer_tick_step [OF Cons.prems(1) _ on] Cons.prems(2) by auto
  have "?in lls + ctrl_ids cs1 + inputs (ll_host_links ll') = ?in (ll # lls) + ctrl_ids cs"
    using arg_cong [OF 1(6), of "\<lambda>M. M + ?in lls"] by (simp add: ac_simps)
  then have "?in lls + ctrl_ids cs1 \<subseteq># ?in (ll # lls) + ctrl_ids cs" by (metis mset_subset_eq_add_left)
  then have on1: "once (?in lls + ctrl_ids cs1)" using once_subset [OF Cons.prems(3)] by blast
  obtain qs lls' cs2 where 2: "tick_layers lls cs1 = Inr (qs, lls', cs2)" "ctrls_ok h k pm cs2" "length cs2 = length cs"
    "\<forall>ll\<in>set lls'. layer_ok h k (length cs) ll" "length lls' = length lls"
    "\<forall>p\<in>set (data_packets qs). resp_ok (hm_source_links h) k p"
    "?in lls' + ctrl_ids cs2 = ?in lls + ctrl_ids cs1"
    "packet_ids (data_packets qs) + ?out lls' + ctrl_answered cs2 = ?out lls + ctrl_answered cs1"
    using Cons.IH [OF 1(2) _ on1] Cons.prems(2) 1(3) by auto
  have d: "data_packets (ps @ qs) = data_packets ps @ data_packets qs" by (simp add: data_packets_def)
  have i: "?in (ll' # lls') + ctrl_ids cs2 = ?in (ll # lls) + ctrl_ids cs"
    using account_chain [of "{#}" "inputs (ll_host_links ll')" "ctrl_ids cs1" _ _ "{#}"] 1(6) 2(7) by simp
  have o: "packet_ids (data_packets (ps @ qs)) + ?out (ll' # lls') + ctrl_answered cs2 = ?out (ll # lls) + ctrl_answered cs"
    using account_chain [OF 1(7) 2(8)] unfolding d by simp
  show ?case
    using 1 2 i o d by (intro exI [of _ "ps @ qs"] exI [of _ "ll' # lls'"] exI [of _ cs2]) auto
qed (simp add: data_packets_def)

end
