(* ===== verification/HMC_Mem_Map.thy ===== *)
theory HMC_Mem_Map
  imports HMC_Memory
begin

text \<open>
  The address mapping: every address is mapped into the ranges of the organisation, and the three
  mappings can be inverted, so that no two transactions share a location.
\<close>

section \<open>Composing an address\<close>

definition unmap_RoCoBaVa :: "nat list \<Rightarrow> nat \<Rightarrow> int list \<Rightarrow> int" where
  "unmap_RoCoBaVa bits cb v =
     v ! Column mod 2 ^ cb + 2 ^ cb * (v ! Vault + 2 ^ (bits ! Vault) * (v ! Bank + 2 ^ (bits ! Bank)
       * (v ! BankGroup + 2 ^ (bits ! BankGroup) * (v ! Column div 2 ^ cb
            + 2 ^ (bits ! Column - cb) * v ! Row))))"

definition unmap_RoBaCoVa :: "nat list \<Rightarrow> nat \<Rightarrow> int list \<Rightarrow> int" where
  "unmap_RoBaCoVa bits cb v =
     v ! Column mod 2 ^ cb + 2 ^ cb * (v ! Vault + 2 ^ (bits ! Vault) * (v ! Column div 2 ^ cb
       + 2 ^ (bits ! Column - cb) * (v ! Bank + 2 ^ (bits ! Bank)
            * (v ! BankGroup + 2 ^ (bits ! BankGroup) * v ! Row))))"

definition unmap_RoCoBaBgVa :: "nat list \<Rightarrow> nat \<Rightarrow> int list \<Rightarrow> int" where
  "unmap_RoCoBaBgVa bits cb v =
     v ! Column mod 2 ^ cb + 2 ^ cb * (v ! Vault + 2 ^ (bits ! Vault) * (v ! BankGroup
       + 2 ^ (bits ! BankGroup) * (v ! Bank + 2 ^ (bits ! Bank) * (v ! Column div 2 ^ cb
            + 2 ^ (bits ! Column - cb) * v ! Row))))"

fun unmap_address :: "addr_type \<Rightarrow> nat list \<Rightarrow> nat \<Rightarrow> int list \<Rightarrow> int" where
  "unmap_address RoCoBaVa = unmap_RoCoBaVa"
| "unmap_address RoBaCoVa = unmap_RoBaCoVa"
| "unmap_address RoCoBaBgVa = unmap_RoCoBaBgVa"

lemma split_low: "(a::int) mod 2 ^ (n + k) = a mod 2 ^ n + 2 ^ n * (a div 2 ^ n mod 2 ^ k)"
  by (simp add: power_add zmod_zmult2_eq)

lemma join_column:
  fixes c m :: int
  assumes "0 \<le> c" "c < 2 ^ cb"
  shows "(c OR push_bit cb m) mod 2 ^ cb = c" "(c OR push_bit cb m) div 2 ^ cb = m"
  using assms by (simp_all add: or_shifted div_add1_eq)

lemma join_column_bounds:
  fixes c m :: int
  assumes "0 \<le> c" "c < 2 ^ cb" "0 \<le> m" "m < 2 ^ k"
  shows "0 \<le> c OR push_bit cb m \<and> c OR push_bit cb m < 2 ^ (cb + k)"
proof -
  have "m + 1 \<le> 2 ^ k" using assms(4) by linarith
  then have "(m + 1) * 2 ^ cb \<le> 2 ^ k * 2 ^ cb" by (rule mult_right_mono) simp
  then show ?thesis using assms by (simp add: or_shifted power_add algebra_simps)
qed

definition total_bits :: "nat list \<Rightarrow> nat" where
  "total_bits bits = bits ! 0 + bits ! 1 + bits ! 2 + bits ! 3 + bits ! 4"

lemmas mapping_defs = map_RoCoBaVa_def map_RoBaCoVa_def map_RoCoBaBgVa_def
  unmap_RoCoBaVa_def unmap_RoBaCoVa_def unmap_RoCoBaBgVa_def

lemma unmap_map:
  assumes "cb \<le> bits ! 4"
  shows "unmap_address ty bits cb (map_address ty bits cb a) = a mod 2 ^ total_bits bits"
proof (cases ty)
  case RoCoBaVa
  have t: "total_bits bits = cb + (bits ! 0 + (bits ! 2 + (bits ! 1 + ((bits ! 4 - cb) + bits ! 3))))"
    using assms by (simp add: total_bits_def)
  show ?thesis unfolding t split_low
    by (simp add: RoCoBaVa mapping_defs slice_lower_bits_eq join_column)
next
  case RoBaCoVa
  have t: "total_bits bits = cb + (bits ! 0 + ((bits ! 4 - cb) + (bits ! 2 + (bits ! 1 + bits ! 3))))"
    using assms by (simp add: total_bits_def)
  show ?thesis unfolding t split_low
    by (simp add: RoBaCoVa mapping_defs slice_lower_bits_eq join_column)
next
  case RoCoBaBgVa
  have t: "total_bits bits = cb + (bits ! 0 + (bits ! 1 + (bits ! 2 + ((bits ! 4 - cb) + bits ! 3))))"
    using assms by (simp add: total_bits_def)
  show ?thesis unfolding t split_low
    by (simp add: RoCoBaBgVa mapping_defs slice_lower_bits_eq join_column)
qed

lemma map_address_fields:
  "\<exists>v g b r c k. map_address ty bits cb a = [v mod 2 ^ (bits ! 0), g mod 2 ^ (bits ! 1), b mod 2 ^ (bits ! 2),
     r mod 2 ^ (bits ! 3), c mod 2 ^ cb OR push_bit cb (k mod 2 ^ (bits ! 4 - cb))]"
  by (cases ty; simp only: map_address.simps; unfold mapping_defs slice_lower_bits_eq Let_def prod.case; blast)

lemma map_address_bounds:
  assumes "cb \<le> bits ! 4" and "lv < 5"
  shows "length (map_address ty bits cb a) = 5"
    "0 \<le> map_address ty bits cb a ! lv \<and> map_address ty bits cb a ! lv < 2 ^ (bits ! lv)"
proof -
  obtain v g b r c k where m: "map_address ty bits cb a = [v mod 2 ^ (bits ! 0), g mod 2 ^ (bits ! 1),
    b mod 2 ^ (bits ! 2), r mod 2 ^ (bits ! 3), c mod 2 ^ cb OR push_bit cb (k mod 2 ^ (bits ! 4 - cb))]"
    using map_address_fields by blast
  show "length (map_address ty bits cb a) = 5" by (simp add: m)
  have c: "0 \<le> map_address ty bits cb a ! 4 \<and> map_address ty bits cb a ! 4 < 2 ^ (bits ! 4)"
    using join_column_bounds [of "c mod 2 ^ cb" cb "k mod 2 ^ (bits ! 4 - cb)" "bits ! 4 - cb"] assms(1)
    by (simp add: m)
  have "lv = 0 \<or> lv = 1 \<or> lv = 2 \<or> lv = 3 \<or> lv = 4" using assms(2) by linarith
  then show "0 \<le> map_address ty bits cb a ! lv \<and> map_address ty bits cb a ! lv < 2 ^ (bits ! lv)"
    using c by (elim disjE) (simp_all add: m)
qed

section \<open>The geometry of the memory\<close>

text \<open>
  What the constructor computes from the organisation: the widths of the address fields add up to
  the size of a stack, in transactions of 32 bytes.
\<close>

definition geometry :: "hmc_mem \<Rightarrow> bool" where
  "geometry m \<longleftrightarrow>
     length (mm_addr_bits m) = 5
     \<and> (\<forall>lv<4. 2 ^ (mm_addr_bits m ! lv) = org_counts (mm_hmc m) ! lv)
     \<and> 8 * 2 ^ (mm_addr_bits m ! 4) = org_counts (mm_hmc m) ! 4
     \<and> mm_tx_bits m = 5 \<and> block_col_bits m \<le> mm_addr_bits m ! 4
     \<and> mm_capacity_per_stack m = 2 ^ (5 + total_bits (mm_addr_bits m))"

definition org_bits :: "hmc_org \<Rightarrow> nat list" where
  "org_bits org = (case org of
      HMC_4GB \<Rightarrow> [5, 2, 1, 16, 6] | HMC_8GB \<Rightarrow> [5, 3, 1, 16, 6] | HMC_4GB_bank16 \<Rightarrow> [5, 2, 2, 15, 6]
    | HMC_4GB_bank32 \<Rightarrow> [5, 2, 3, 14, 6] | HMC_4GB_bank64 \<Rightarrow> [5, 2, 4, 13, 6]
    | HMC_4GB_bank128 \<Rightarrow> [5, 2, 5, 12, 6] | HMC_4GB_bank256 \<Rightarrow> [5, 2, 6, 11, 6]
    | HMC_4GB_va64 \<Rightarrow> [6, 2, 1, 15, 6] | HMC_4GB_va128 \<Rightarrow> [7, 2, 1, 14, 6]
    | HMC_4GB_va256 \<Rightarrow> [8, 2, 1, 13, 6] | HMC_4GB_va512 \<Rightarrow> [9, 2, 1, 12, 6]
    | HMC_4GB_va1024 \<Rightarrow> [10, 2, 1, 11, 6])"

lemma org_counts_pow: "\<exists>a b c d. org_counts h = [2 ^ a, 2 ^ b, 2 ^ c, 2 ^ d, 2 ^ 6]"
proof -
  have "org_counts h = map ((^) 2) (org_bits (hm_org h))"
    by (cases "hm_org h") (simp_all add: org_counts_def org_entry.defs org_bits_def)
  moreover obtain a b c d where "org_bits (hm_org h) = [a, b, c, d, 6]"
    by (cases "hm_org h") (auto simp: org_bits_def)
  ultimately show ?thesis by auto
qed

lemma block_bits_le: "mb_flit_num_bits (maxblock_table mb) - 5 \<le> 3"
  by (cases mb) (simp_all add: maxblock_entry.defs)

lemma new_hmc_mem_geometry:
  assumes "new_hmc_mem h ctrls pim stacks transl addressing lays n = Inr m"
  shows "geometry m \<and> mm_hmc m = h \<and> mm_ctrls m = ctrls \<and> mm_logic_layers m = lays
    \<and> mm_max_address m = mm_capacity_per_stack m * stacks"
proof -
  obtain a b c d where o: "org_counts h = [2 ^ a, 2 ^ b, 2 ^ c, 2 ^ d, 2 ^ 6]" using org_counts_pow by blast
  have l: "calc_log2 32 = Some 5" "calc_log2 8 = Some 3" "calc_log2 64 = Some 6"
    using calc_log2_pow [of 5] calc_log2_pow [of 3] calc_log2_pow [of 6] by simp_all
  have sp: "sp_prefetch_size (hm_spec h) = 8" "sp_channel_width (hm_spec h) = 32" by (simp_all add: hmc_spec_def)
  show ?thesis
    using assms block_bits_le [of "hm_maxblock h"]
    by (auto simp: new_hmc_mem_def Let_def o l sp calc_log2_pow geometry_def total_bits_def block_col_bits_def
        less_Suc_eq numeral_eq_Suc power_add split: option.splits)
qed

section \<open>Locations\<close>

lemma locate_sel [simp]:
  "rq_type (locate m req) = rq_type req" "rq_coreid (locate m req) = rq_coreid req"
  "rq_is_first_command (locate m req) = rq_is_first_command req"
  "rq_reqid (locate m req) = mm_mem_req_count m"
  "rq_addr (locate m req) = clear_higher_bits (rq_addr req) (mm_max_address m - 1)"
  by (simp_all add: locate_def Let_def)

lemma locate_addr:
  assumes "geometry m" and "mm_max_address m = mm_capacity_per_stack m"
  shows "rq_addr (locate m req) = rq_addr req mod mm_capacity_per_stack m"
  using assms by (simp add: clear_higher_bits_pow geometry_def)

lemma locate_vec:
  assumes "geometry m" and "mm_max_address m = mm_capacity_per_stack m"
  shows "rq_addr_vec (locate m req)
    = map_address (mm_type m) (mm_addr_bits m) (block_col_bits m) (rq_addr req mod mm_capacity_per_stack m div 32)"
  using assms by (simp add: locate_def Let_def clear_higher_bits_pow clear_lower_bits_eq geometry_def)

lemma locate_range:
  assumes "geometry m"
  shows "length (rq_addr_vec (locate m req)) = 5
    \<and> (\<forall>lv<4. 0 \<le> rq_addr_vec (locate m req) ! lv
          \<and> rq_addr_vec (locate m req) ! lv < org_counts (mm_hmc m) ! lv)
    \<and> 0 \<le> rq_addr_vec (locate m req) ! 4
    \<and> 8 * rq_addr_vec (locate m req) ! 4 < org_counts (mm_hmc m) ! 4"
proof -
  have cb: "block_col_bits m \<le> mm_addr_bits m ! 4" using assms by (simp add: geometry_def)
  obtain a where v: "rq_addr_vec (locate m req)
    = map_address (mm_type m) (mm_addr_bits m) (block_col_bits m) a" by (simp add: locate_def Let_def)
  have n: "length (rq_addr_vec (locate m req)) = 5" unfolding v using map_address_bounds(1) [OF cb, of 0] by simp
  have b: "0 \<le> rq_addr_vec (locate m req) ! lv \<and> rq_addr_vec (locate m req) ! lv < 2 ^ (mm_addr_bits m ! lv)"
    if "lv < 5" for lv unfolding v by (rule map_address_bounds(2) [OF cb that])
  have "8 * rq_addr_vec (locate m req) ! 4 < 8 * 2 ^ (mm_addr_bits m ! 4)" using b [of 4] by simp
  moreover have "0 \<le> rq_addr_vec (locate m req) ! lv \<and> rq_addr_vec (locate m req) ! lv < org_counts (mm_hmc m) ! lv"
    if "lv < 4" for lv
    using b [of lv] that assms unfolding geometry_def by (metis less_SucI eval_nat_numeral(3) semiring_norm(26,27))
  moreover have "8 * 2 ^ (mm_addr_bits m ! 4) = org_counts (mm_hmc m) ! 4" using assms by (simp add: geometry_def)
  ultimately show ?thesis using n b [of 4] by simp
qed

text \<open>
  C21.  Whatever the address of a request, \<open>send\<close> maps it to a vault, bank group, bank, row and
  column that exist in the organisation of the memory.
\<close>

theorem locate_in_range:
  assumes "geometry m"
  shows "length (rq_addr_vec (locate m req)) = 5
    \<and> (\<forall>lv<4. 0 \<le> rq_addr_vec (locate m req) ! lv
          \<and> rq_addr_vec (locate m req) ! lv < org_counts (mm_hmc m) ! lv)
    \<and> 0 \<le> rq_addr_vec (locate m req) ! 4
    \<and> 8 * rq_addr_vec (locate m req) ! 4 < org_counts (mm_hmc m) ! 4"
  by (rule locate_range [OF assms])

text \<open>
  C20.  The address mapping loses nothing: two requests are mapped to the same location exactly if
  their addresses, modulo the capacity, fall into the same 32-byte transaction, and the address is
  recovered from the location and the offset in the transaction.
\<close>

theorem locate_invertible:
  assumes "geometry m" and "mm_max_address m = mm_capacity_per_stack m"
  shows "(rq_addr_vec (locate m r1) = rq_addr_vec (locate m r2)
      \<longleftrightarrow> rq_addr r1 mod mm_capacity_per_stack m div 32 = rq_addr r2 mod mm_capacity_per_stack m div 32)
    \<and> 32 * unmap_address (mm_type m) (mm_addr_bits m) (block_col_bits m) (rq_addr_vec (locate m r1))
        + rq_addr (locate m r1) mod 32 = rq_addr r1 mod mm_capacity_per_stack m"
proof -
  let ?un = "unmap_address (mm_type m) (mm_addr_bits m) (block_col_bits m)"
  let ?a = "\<lambda>r. rq_addr r mod mm_capacity_per_stack m"
  have cap: "mm_capacity_per_stack m = 32 * 2 ^ total_bits (mm_addr_bits m)"
    and cb: "block_col_bits m \<le> mm_addr_bits m ! 4" using assms(1) by (simp_all add: geometry_def power_add)
  have "?a r div 32 < 2 ^ total_bits (mm_addr_bits m)" for r
    by (simp add: cap div_less_iff_less_mult mult.commute zdiv_zmult2_eq zmod_zmult2_eq)
  moreover have "0 \<le> ?a r div 32" for r by (simp add: pos_imp_zdiv_nonneg_iff cap)
  ultimately have un: "?un (rq_addr_vec (locate m r)) = ?a r div 32" for r
    unfolding locate_vec [OF assms] unmap_map [OF cb] by (intro mod_pos_pos_trivial)
  have "rq_addr_vec (locate m r1) = rq_addr_vec (locate m r2) \<longleftrightarrow> ?a r1 div 32 = ?a r2 div 32"
    using un [of r1] un [of r2] locate_vec [OF assms, of r1] locate_vec [OF assms, of r2] by metis
  moreover have "32 * (?a r1 div 32) + ?a r1 mod 32 = ?a r1" by simp
  ultimately show ?thesis using un [of r1] locate_addr [OF assms, of r1] by simp
qed

definition sample_mem :: "hmc_mem res" where
  "sample_mem = new_hmc_mem (mk_hmc ''HMC_4GB'' ''HMC_2500'' ''HMC_64B'' ''HMC_Full_Width'' ''HMC_30_Gbps'' 4 4)
     [] False 1 (Some ''Random'') (Some ''RoBaCoVa'') [] 1"

lemma sample_mem_ok: "\<exists>m. sample_mem = Inr m \<and> geometry m \<and> mm_max_address m = mm_capacity_per_stack m"
proof -
  have pow: "pow2_count 32" "pow2_count 4" by (simp_all add: pow2_count_def)
  have l: "calc_log2 32 = Some 5" "calc_log2 8 = Some 3" "calc_log2 64 = Some 6" "calc_log2 4 = Some 2"
    "calc_log2 2 = Some 1" "calc_log2 65536 = Some 16"
    using calc_log2_pow [of 5] calc_log2_pow [of 3] calc_log2_pow [of 6] calc_log2_pow [of 2]
      calc_log2_pow [of 1] calc_log2_pow [of 16] by simp_all
  have "\<exists>m. sample_mem = Inr m"
    by (simp add: sample_mem_def new_hmc_mem_def mk_hmc_def hmc_org_of_def org_counts_def org_entry.defs Let_def
        hmc_spec_def pow l addr_type_of_def)
  then obtain m where "sample_mem = Inr m" ..
  with new_hmc_mem_geometry [OF this [unfolded sample_mem_def]] show ?thesis by auto
qed

theorem locate_in_range_witness:
  "\<exists>m. sample_mem = Inr m \<and> length (rq_addr_vec (locate m (mk_request 123456789 READ 0))) = 5"
  using sample_mem_ok locate_in_range by blast

theorem locate_invertible_witness:
  "\<exists>m. sample_mem = Inr m
     \<and> rq_addr_vec (locate m (mk_request 64 READ 0)) \<noteq> rq_addr_vec (locate m (mk_request 96 READ 0))"
proof -
  obtain m where m: "sample_mem = Inr m" "geometry m" "mm_max_address m = mm_capacity_per_stack m"
    using sample_mem_ok by blast
  have "mm_capacity_per_stack m = 2 ^ 32"
    using m(1) by (auto simp: sample_mem_def new_hmc_mem_def mk_hmc_def hmc_org_of_def org_counts_def
        org_entry.defs Let_def hmc_spec_def split: option.splits)
  with m(1) locate_invertible [OF m(2,3), of "mk_request 64 READ 0" "mk_request 96 READ 0"] show ?thesis
    by (intro exI [of _ m]) (simp add: mk_request_def)
qed

end
