(* ===== verification/HMC_Mem_Inv.thy ===== *)
theory HMC_Mem_Inv
  imports HMC_Layer_Inv HMC_Mem_Map
begin

text \<open>
  The whole HMC memory: host, links, switch and vaults.  The invariant says that every request that
  was accepted and not yet answered is in exactly one place; under it neither a cycle nor the
  sending of a request fails.
\<close>

section \<open>The invariant\<close>

abbreviation layer_inputs :: "hmc_mem \<Rightarrow> int multiset" where
  "layer_inputs m \<equiv> \<Sum>ll\<leftarrow>mm_logic_layers m. inputs (ll_host_links ll)"

abbreviation layer_outputs :: "hmc_mem \<Rightarrow> int multiset" where
  "layer_outputs m \<equiv> \<Sum>ll\<leftarrow>mm_logic_layers m. outputs (ll_host_links ll)"

text \<open>Identifiers of requests on the way to a vault, in a vault, and on the way back.\<close>

definition in_flight :: "hmc_mem \<Rightarrow> int multiset" where
  "in_flight m = (layer_inputs m + ctrl_ids (mm_ctrls m)) + (layer_outputs m + ctrl_answered (mm_ctrls m))"

definition host_ok :: "hmc_mem \<Rightarrow> bool" where
  "host_ok m \<longleftrightarrow>
     0 < hm_source_links (mm_hmc m) \<and> hm_source_links (mm_hmc m) \<le> 8 \<and> 0 \<le> hm_payload_flits (mm_hmc m)
     \<and> int (length (mm_tags_pools m)) = hm_source_links (mm_hmc m)
     \<and> (\<forall>pool\<in>set (mm_tags_pools m). \<forall>t\<in>set pool. field_valid t tag_bits)
     \<and> org_counts (mm_hmc m) ! 0 = int (length (mm_ctrls m))
     \<and> length (mm_ctrls m) \<le> length (mm_requests_per_vault m)
     \<and> geometry m \<and> mm_max_address m = mm_capacity_per_stack m \<and> mm_capacity_per_stack m \<le> 2 ^ 34"

definition mem_inv :: "hmc_mem \<Rightarrow> bool" where
  "mem_inv m \<longleftrightarrow>
     host_ok m \<and> ctrls_ok (mm_hmc m) (mm_core_num m) (mm_pim_mode_enabled m) (mm_ctrls m) \<and> mm_logic_layers m \<noteq> []
     \<and> (\<forall>ll\<in>set (mm_logic_layers m). layer_ok (mm_hmc m) (mm_core_num m) (length (mm_ctrls m)) ll)
     \<and> (\<forall>r\<in>set (mm_done m). core_in (mm_core_num m) r) \<and> once (in_flight m) \<and> (\<forall>x\<in>#in_flight m. x < mm_mem_req_count m)"

lemma geometry_cong:
  "mm_hmc m' = mm_hmc m \<Longrightarrow> mm_addr_bits m' = mm_addr_bits m \<Longrightarrow> mm_tx_bits m' = mm_tx_bits m \<Longrightarrow>
   mm_capacity_per_stack m' = mm_capacity_per_stack m \<Longrightarrow> geometry m' = geometry m"
  by (simp add: geometry_def block_col_bits_def)

lemma host_ok_cong:
  assumes "host_ok m" and "mm_hmc m' = mm_hmc m" "mm_addr_bits m' = mm_addr_bits m" "mm_tx_bits m' = mm_tx_bits m"
    "mm_capacity_per_stack m' = mm_capacity_per_stack m" "mm_max_address m' = mm_max_address m"
    "length (mm_ctrls m') = length (mm_ctrls m)"
    "length (mm_requests_per_vault m') = length (mm_requests_per_vault m)"
    "length (mm_tags_pools m') = length (mm_tags_pools m)"
    "\<forall>pool\<in>set (mm_tags_pools m'). \<forall>t\<in>set pool. field_valid t tag_bits"
  shows "host_ok m'"
  using assms geometry_cong [of m' m] by (simp add: host_ok_def)

section \<open>One cycle\<close>

lemma ctrls_tick_step:
  assumes "ctrls_ok h k pm cs"
  shows "\<exists>cs'. mapR ctrl_tick cs = Inr cs' \<and> ctrls_ok h k pm cs' \<and> length cs' = length cs
    \<and> ctrl_ids cs' + ctrl_answered cs' = ctrl_ids cs + ctrl_answered cs"
proof -
  have step: "\<exists>c'. ctrl_tick (cs ! i) = Inr c' \<and> vault_id c' = int i \<and> vc_hmc c' = h \<and> vc_core_num c' = k
    \<and> vc_pim_mode_enabled c' = pm \<and> (\<exists>H A. ctrl_inv c' H A) \<and> ids c' + answered c' = ids (cs ! i) + answered (cs ! i)"
    if i: "i < length cs" for i
  proof -
    obtain H A where c: "ctrl_inv (cs ! i) H A" "vault_id (cs ! i) = int i" "vc_hmc (cs ! i) = h"
      "vc_core_num (cs ! i) = k" "vc_pim_mode_enabled (cs ! i) = pm"
      using assms i by (auto simp: ctrls_ok_def)
    from ctrl_tick_step [OF c(1)] c(2-5) show ?thesis by auto
  qed
  then have "\<exists>y. ctrl_tick x = Inr y" if "x \<in> set cs" for x using that by (force simp: in_set_conv_nth)
  from mapR_total [of cs ctrl_tick, OF this] obtain cs' where cs': "mapR ctrl_tick cs = Inr cs'" by blast
  then have len: "length cs' = length cs" and nth: "\<And>i. i < length cs \<Longrightarrow> ctrl_tick (cs ! i) = Inr (cs' ! i)"
    using mapR_length mapR_nth by blast+
  then have each: "vault_id (cs' ! i) = int i \<and> vc_hmc (cs' ! i) = h \<and> vc_core_num (cs' ! i) = k \<and> vc_pim_mode_enabled (cs' ! i) = pm
      \<and> (\<exists>H A. ctrl_inv (cs' ! i) H A) \<and> ids (cs' ! i) + answered (cs' ! i) = ids (cs ! i) + answered (cs ! i)"
    if "i < length cs" for i using step [OF that] that by auto
  have "ctrl_ids cs' + ctrl_answered cs' = (\<Sum>c\<leftarrow>cs'. ids c + answered c)" by (simp add: sum_list_addf)
  also have "map (\<lambda>c. ids c + answered c) cs' = map (\<lambda>c. ids c + answered c) cs"
    using each len by (intro nth_equalityI) auto
  finally show ?thesis using cs' len each by (simp add: ctrls_ok_def sum_list_addf)
qed

text \<open>The requests whose callback the host calls for the packets it receives.\<close>

definition called_back :: "int \<Rightarrow> packet list \<Rightarrow> request list" where
  "called_back clk ps =
     map (\<lambda>p. (pk_req p)\<lparr>rq_depart_hmc := clk\<rparr>) (filter (\<lambda>p. rq_type (pk_req p) = READ) (data_packets ps))"

lemma receive_packets_step:
  assumes "host_ok m" and "pk_flow_control p \<or> resp_ok (hm_source_links (mm_hmc m)) k p"
  shows "\<exists>m'. receive_packets m p = Inr m' \<and> host_ok m' \<and> mm_ctrls m' = mm_ctrls m
    \<and> mm_logic_layers m' = mm_logic_layers m \<and> mm_hmc m' = mm_hmc m \<and> mm_clk m' = mm_clk m
    \<and> mm_mem_req_count m' = mm_mem_req_count m \<and> mm_pim_mode_enabled m' = mm_pim_mode_enabled m
    \<and> mm_core_num m' = mm_core_num m \<and> mm_done m' = mm_done m @ called_back (mm_clk m) [p]"
proof (cases "pk_flow_control p")
  case True
  then show ?thesis using assms(1) by (simp add: receive_packets_def called_back_def data_packets_def)
next
  case False
  with assms(2) have r: "resp_ok (hm_source_links (mm_hmc m)) k p" by simp
  let ?s = "nat (pk_SLID p)"
  have s: "0 \<le> pk_SLID p" "?s < length (mm_tags_pools m)"
    using r assms(1) by (auto simp: resp_ok_def host_ok_def nat_less_iff)
  let ?pools = "(mm_tags_pools m)[?s := mm_tags_pools m ! ?s @ [pk_TAG p]]"
  have "\<forall>pool\<in>set ?pools. \<forall>t\<in>set pool. field_valid t tag_bits"
  proof
    fix pool assume "pool \<in> set ?pools"
    then have "pool \<in> set (mm_tags_pools m) \<or> pool = mm_tags_pools m ! ?s @ [pk_TAG p]"
      using set_update_subset_insert by fastforce
    moreover have "mm_tags_pools m ! ?s \<in> set (mm_tags_pools m)" using s(2) by simp
    ultimately show "\<forall>t\<in>set pool. field_valid t tag_bits"
      using assms(1) r by (fastforce simp: host_ok_def resp_ok_def)
  qed
  then have h: "host_ok m'" if "mm_tags_pools m' = ?pools" "mm_hmc m' = mm_hmc m" "mm_addr_bits m' = mm_addr_bits m"
    "mm_tx_bits m' = mm_tx_bits m" "mm_capacity_per_stack m' = mm_capacity_per_stack m"
    "mm_max_address m' = mm_max_address m" "mm_ctrls m' = mm_ctrls m"
    "mm_requests_per_vault m' = mm_requests_per_vault m" for m'
    using that by (intro host_ok_cong [OF assms(1)]) simp_all
  show ?thesis
    using False r s
    by (auto simp: receive_packets_def resp_ok_def indexR_lt called_back_def data_packets_def Let_def intro!: h)
qed

lemma receive_all_step:
  assumes "host_ok m" and "\<forall>p\<in>set (data_packets ps). resp_ok (hm_source_links (mm_hmc m)) k p"
  shows "\<exists>m'. foldR (\<lambda>p m. receive_packets m p) ps m = Inr m' \<and> host_ok m' \<and> mm_ctrls m' = mm_ctrls m
    \<and> mm_logic_layers m' = mm_logic_layers m \<and> mm_hmc m' = mm_hmc m \<and> mm_clk m' = mm_clk m
    \<and> mm_mem_req_count m' = mm_mem_req_count m \<and> mm_pim_mode_enabled m' = mm_pim_mode_enabled m
    \<and> mm_core_num m' = mm_core_num m \<and> mm_done m' = mm_done m @ called_back (mm_clk m) ps"
  using assms
proof (induction ps arbitrary: m)
  case (Cons p ps)
  have p: "pk_flow_control p \<or> resp_ok (hm_source_links (mm_hmc m)) k p"
    using Cons.prems(2) by (cases "pk_flow_control p") (simp_all add: data_packets_def)
  obtain m1 where 1: "receive_packets m p = Inr m1" "host_ok m1" "mm_ctrls m1 = mm_ctrls m"
    "mm_logic_layers m1 = mm_logic_layers m" "mm_hmc m1 = mm_hmc m" "mm_clk m1 = mm_clk m"
    "mm_mem_req_count m1 = mm_mem_req_count m" "mm_pim_mode_enabled m1 = mm_pim_mode_enabled m"
    "mm_core_num m1 = mm_core_num m" "mm_done m1 = mm_done m @ called_back (mm_clk m) [p]"
    using receive_packets_step [OF Cons.prems(1) p] by blast
  have "\<forall>p\<in>set (data_packets ps). resp_ok (hm_source_links (mm_hmc m1)) k p"
    using Cons.prems(2) 1(5) by (auto simp: data_packets_def split: if_splits)
  from Cons.IH [OF 1(2) this] obtain m2 where 2: "foldR (\<lambda>p m. receive_packets m p) ps m1 = Inr m2" "host_ok m2"
    "mm_ctrls m2 = mm_ctrls m1" "mm_logic_layers m2 = mm_logic_layers m1" "mm_hmc m2 = mm_hmc m1"
    "mm_clk m2 = mm_clk m1" "mm_mem_req_count m2 = mm_mem_req_count m1"
    "mm_pim_mode_enabled m2 = mm_pim_mode_enabled m1" "mm_core_num m2 = mm_core_num m1" "mm_done m2 = mm_done m1 @ called_back (mm_clk m1) ps"
    by blast
  moreover have "called_back (mm_clk m) (p # ps) = called_back (mm_clk m) [p] @ called_back (mm_clk m) ps"
    by (simp add: called_back_def data_packets_def)
  ultimately show ?case using 1 by (intro exI [of _ m2]) simp
qed (simp add: called_back_def data_packets_def)

lemma mem_tick_step:
  assumes "mem_inv m"
  shows "\<exists>m' ps m1. mem_tick m = Inr m' \<and> mem_cycle m = Inr (ps, m1) \<and> mem_inv m' \<and> in_flight m = packet_ids (data_packets ps) + in_flight m'
    \<and> mm_done m' = mm_done m @ called_back (mm_clk m + 1) ps \<and> mm_clk m' = mm_clk m + 1
    \<and> mm_core_num m' = mm_core_num m"
proof -
  let ?h = "mm_hmc m" and ?k = "mm_core_num m" and ?pm = "mm_pim_mode_enabled m" and ?cs = "mm_ctrls m" and ?lls = "mm_logic_layers m"
  have host: "host_ok m" and cs: "ctrls_ok ?h ?k ?pm ?cs" and ne: "?lls \<noteq> []"
    and lls: "\<forall>ll\<in>set ?lls. layer_ok ?h ?k (length ?cs) ll" and on: "once (in_flight m)"
    and lt: "\<forall>x\<in>#in_flight m. x < mm_mem_req_count m" and dn: "\<forall>r\<in>set (mm_done m). core_in ?k r" using assms by (auto simp: mem_inv_def)
  obtain cs1 where 1: "mapR ctrl_tick ?cs = Inr cs1" "ctrls_ok ?h ?k ?pm cs1" "length cs1 = length ?cs"
    "ctrl_ids cs1 + ctrl_answered cs1 = ctrl_ids ?cs + ctrl_answered ?cs"
    using ctrls_tick_step [OF cs] by blast
  have fl: "in_flight m = (layer_inputs m + layer_outputs m) + (ctrl_ids cs1 + ctrl_answered cs1)"
    unfolding 1(4) by (simp add: in_flight_def ac_simps)
  have "layer_inputs m + ctrl_ids cs1 + (layer_outputs m + ctrl_answered cs1) = in_flight m"
    unfolding fl by (simp only: ac_simps)
  then have "layer_inputs m + ctrl_ids cs1 \<subseteq># in_flight m" by (metis mset_subset_eq_add_left)
  then have on1: "once (layer_inputs m + ctrl_ids cs1)" using once_subset [OF on] by blast
  obtain ps lls2 cs2 where 2: "tick_layers ?lls cs1 = Inr (ps, lls2, cs2)" "ctrls_ok ?h ?k ?pm cs2"
    "length cs2 = length ?cs" "\<forall>ll\<in>set lls2. layer_ok ?h ?k (length ?cs) ll" "length lls2 = length ?lls"
    "\<forall>p\<in>set (data_packets ps). resp_ok (hm_source_links ?h) ?k p"
    "(\<Sum>ll\<leftarrow>lls2. inputs (ll_host_links ll)) + ctrl_ids cs2 = layer_inputs m + ctrl_ids cs1"
    "packet_ids (data_packets ps) + (\<Sum>ll\<leftarrow>lls2. outputs (ll_host_links ll)) + ctrl_answered cs2
        = layer_outputs m + ctrl_answered cs1"
    using tick_layers_step [OF 1(2) _ on1] lls 1(3) by auto
  let ?act = "mm_active_cycles m + (if \<exists>c\<in>set ?cs. ctrl_is_active c then 1 else 0)"
  let ?m2 = "m\<lparr>mm_clk := mm_clk m + 1, mm_num_dram_cycles := mm_num_dram_cycles m + 1, mm_active_cycles := ?act,
    mm_logic_layers := lls2, mm_ctrls := cs2\<rparr>"
  have h2: "host_ok ?m2"
    by (rule host_ok_cong [OF host]) (use 2(3) host in \<open>simp_all add: host_ok_def\<close>)
  obtain m' where 3: "foldR (\<lambda>p m. receive_packets m p) ps ?m2 = Inr m'" "host_ok m'" "mm_ctrls m' = cs2"
    "mm_logic_layers m' = lls2" "mm_hmc m' = ?h" "mm_clk m' = mm_clk m + 1"
    "mm_mem_req_count m' = mm_mem_req_count m" "mm_pim_mode_enabled m' = ?pm"
    "mm_done m' = mm_done m @ called_back (mm_clk m + 1) ps" "mm_core_num m' = ?k"
    using receive_all_step [OF h2, of ps ?k] 2(6) by auto
  have cyc: "mem_cycle m = Inr (ps, ?m2)" using 1(1) 2(1) by (simp add: mem_cycle_def Let_def)
  then have run: "mem_tick m = Inr m'" using 3(1) by (simp add: mem_tick_def)
  have "\<forall>r\<in>set (called_back (mm_clk m + 1) ps). core_in ?k r" using 2(6) by (auto simp: called_back_def resp_ok_def)
  then have "\<forall>r\<in>set (mm_done m'). core_in (mm_core_num m') r" using dn 3(9,10) by auto
  have tot: "in_flight m = packet_ids (data_packets ps) + in_flight m'"
  proof -
    have "packet_ids (data_packets ps) + in_flight m' = ((\<Sum>ll\<leftarrow>lls2. inputs (ll_host_links ll)) + ctrl_ids cs2)
      + (packet_ids (data_packets ps) + (\<Sum>ll\<leftarrow>lls2. outputs (ll_host_links ll)) + ctrl_answered cs2)"
      by (simp only: in_flight_def 3(3,4) ac_simps)
    also have "\<dots> = (layer_inputs m + ctrl_ids cs1) + (layer_outputs m + ctrl_answered cs1)"
      unfolding 2(7,8) ..
    finally show ?thesis unfolding fl by (simp only: ac_simps)
  qed
  then have "in_flight m' \<subseteq># in_flight m" by simp
  then have "once (in_flight m')" "\<forall>x\<in>#in_flight m'. x < mm_mem_req_count m'"
    using once_subset [OF on] lt 3(7) by (auto dest: mset_subset_eqD)
  moreover have "lls2 \<noteq> []" using ne 2(5) by auto
  ultimately have "mem_inv m'" using 2 3 \<open>\<forall>r\<in>set (mm_done m'). _ r\<close> by (simp add: mem_inv_def)
  with run cyc tot 3(6,9,10) show ?thesis by blast
qed

section \<open>Sending a request\<close>

lemma assign_tag_step:
  assumes "host_ok m" and "0 \<le> slid" "slid < hm_source_links (mm_hmc m)"
  shows "\<exists>tag pools. assign_tag m slid = Inr (tag, m\<lparr>mm_tags_pools := pools\<rparr>) \<and> field_valid tag tag_bits
    \<and> host_ok (m\<lparr>mm_tags_pools := pools\<rparr>)"
proof -
  let ?s = "nat slid"
  have s: "?s < length (mm_tags_pools m)" using assms by (auto simp: host_ok_def nat_less_iff)
  have v: "\<forall>pool\<in>set (mm_tags_pools m). \<forall>t\<in>set pool. field_valid t tag_bits" using assms(1) by (simp add: host_ok_def)
  show ?thesis
  proof (cases "mm_tags_pools m ! ?s")
    case Nil
    then have "assign_tag m slid = Inr (-1, m\<lparr>mm_tags_pools := mm_tags_pools m\<rparr>)"
      using assms(2) s by (simp add: assign_tag_def indexR_lt)
    then show ?thesis using assms(1)
      by (intro exI [of _ "-1"] exI [of _ "mm_tags_pools m"]) (simp add: field_valid_def tag_bits_def)
  next
    case (Cons t ts)
    then have run: "assign_tag m slid = Inr (t, m\<lparr>mm_tags_pools := (mm_tags_pools m)[?s := ts]\<rparr>)"
      using assms(2) s by (simp add: assign_tag_def indexR_lt)
    have mem: "t # ts \<in> set (mm_tags_pools m)" using s Cons by (metis nth_mem)
    then have "\<forall>pool\<in>set ((mm_tags_pools m)[?s := ts]). \<forall>t\<in>set pool. field_valid t tag_bits"
      using v set_update_subset_insert [of "mm_tags_pools m" ?s ts] by fastforce
    then have "host_ok (m\<lparr>mm_tags_pools := (mm_tags_pools m)[?s := ts]\<rparr>)"
      by (intro host_ok_cong [OF assms(1)]) simp_all
    moreover have "field_valid t tag_bits" using v mem by auto
    ultimately show ?thesis using run by blast
  qed
qed

lemma form_request_step:
  assumes "host_ok m" and "rq_type req = READ \<or> rq_type req = WRITE"
    and "0 \<le> rq_addr req" "rq_addr req < mm_capacity_per_stack m"
  shows "\<exists>p pools. form_request_packet m req = Inr (p, m\<lparr>mm_tags_pools := pools\<rparr>)
    \<and> host_ok (m\<lparr>mm_tags_pools := pools\<rparr>) \<and> pk_type p = REQUEST \<and> fields_ok (hm_source_links (mm_hmc m)) p
    \<and> pk_req p = req \<and> \<not> pk_flow_control p \<and> 0 \<le> pk_total_flits p"
proof -
  let ?n = "hm_source_links (mm_hmc m)" and ?k = "mb_flit_num_bits (maxblock_table (hm_maxblock (mm_hmc m)))"
  let ?slid = "clear_lower_bits (rq_addr req) ?k mod ?n"
  have n: "0 < ?n" "?n \<le> 8" "0 \<le> hm_payload_flits (mm_hmc m)" "mm_capacity_per_stack m \<le> 2 ^ 34"
    using assms(1) by (auto simp: host_ok_def)
  have s: "0 \<le> ?slid" "?slid < ?n" using n(1) by simp_all
  obtain tag pools where t: "assign_tag m ?slid = Inr (tag, m\<lparr>mm_tags_pools := pools\<rparr>)" "field_valid tag tag_bits"
    "host_ok (m\<lparr>mm_tags_pools := pools\<rparr>)"
    using assign_tag_step [OF assms(1) s] by blast
  have cub: "rq_addr req div mm_capacity_per_stack m = 0" using assms(3,4) by (rule div_pos_pos_trivial)
  have valid: "field_valid 0 cub_bits" "field_valid (rq_addr req) adrs_bits" "field_valid ?slid slid_bits"
    using assms(4) n s by (auto simp: field_valid_def cub_bits_def adrs_bits_def slid_bits_def)
  have "\<exists>p. form_request_packet m req = Inr (p, m\<lparr>mm_tags_pools := pools\<rparr>)
    \<and> pk_type p = REQUEST \<and> fields_ok ?n p \<and> pk_req p = req \<and> \<not> pk_flow_control p \<and> 0 \<le> pk_total_flits p"
    using assms(2) t(1,2) valid s n(3)
    by (elim disjE) (simp_all add: form_request_packet_def Let_def cub mk_request_packet_def fields_ok_def)
  then show ?thesis using t(3) by blast
qed

lemma locate_vault:
  assumes "host_ok m"
  shows "\<exists>v<length (mm_ctrls m). rq_addr_vec (locate m req) ! 0 = int v
    \<and> ((rq_type req = READ \<or> rq_type req = WRITE) \<and> core_in k req \<longrightarrow>
         access_req (hm_org (mm_hmc m)) k (int v) (locate m req))"
proof -
  have g: "geometry m" and V: "org_counts (mm_hmc m) ! 0 = int (length (mm_ctrls m))"
    using assms by (auto simp: host_ok_def)
  let ?v = "rq_addr_vec (locate m req)"
  have len: "length ?v = 5"
    and r: "0 \<le> ?v ! lv \<and> ?v ! lv < org_counts (mm_hmc m) ! lv" if "lv < 4" for lv
    using locate_range [OF g, of req] that by blast+
  have l: "length ?v = 5" "0 \<le> ?v ! 0" "?v ! 0 < int (length (mm_ctrls m))" using len [of 0] r [of 0] V by auto
  have "0 \<le> ?v ! 1 \<and> ?v ! 1 < org_counts (mm_hmc m) ! 1" "0 \<le> ?v ! 2 \<and> ?v ! 2 < org_counts (mm_hmc m) ! 2"
    using r [of 1] r [of 2] by simp_all
  then have "bank_addr (hm_org (mm_hmc m)) ?v"
    using l(1) by (simp add: bank_addr_def nbg_def nbank_def org_counts_def nat_less_iff zless_nat_eq_int_zless)
  then show ?thesis using l by (intro exI [of _ "nat (?v ! 0)"]) (simp add: access_req_def nat_less_iff core_in_def)
qed

lemma bump_total: "0 \<le> i \<Longrightarrow> i < n \<Longrightarrow> bump n f i = Inr (f(i := f i + 1))"
  by (simp add: bump_def)

text \<open>What the counters leave alone.\<close>

definition counted :: "hmc_mem \<Rightarrow> hmc_mem \<Rightarrow> bool" where
  "counted m m' \<longleftrightarrow>
     mm_hmc m' = mm_hmc m \<and> mm_clk m' = mm_clk m \<and> mm_pim_mode_enabled m' = mm_pim_mode_enabled m
     \<and> mm_type m' = mm_type m \<and> mm_translation m' = mm_translation m
     \<and> mm_free_physical_pages m' = mm_free_physical_pages m
     \<and> mm_free_physical_pages_remaining m' = mm_free_physical_pages_remaining m
     \<and> mm_page_translation m' = mm_page_translation m
     \<and> mm_physical_page_replacement m' = mm_physical_page_replacement m
     \<and> mm_tags_pools m' = mm_tags_pools m \<and> mm_ctrls m' = mm_ctrls m \<and> mm_logic_layers m' = mm_logic_layers m
     \<and> mm_addr_bits m' = mm_addr_bits m \<and> mm_requests_per_vault m' = mm_requests_per_vault m
     \<and> mm_tx_bits m' = mm_tx_bits m \<and> mm_max_address m' = mm_max_address m
     \<and> mm_capacity_per_stack m' = mm_capacity_per_stack m \<and> mm_core_num m' = mm_core_num m
     \<and> mm_done m' = mm_done m \<and> mm_mem_req_count m' = mm_mem_req_count m + 1"

lemma count_request_counted: "count_request r m = Inr m' \<Longrightarrow> counted m m'"
  by (cases "rq_type r") (auto simp: count_request_def counted_def Let_def)

lemma count_request_total:
  assumes "core_in (mm_core_num m) r" and "0 \<le> rq_addr_vec r ! 0" "rq_addr_vec r ! 0 < org_counts (mm_hmc m) ! 0"
  shows "\<exists>m'. count_request r m = Inr m'"
  using assms by (simp add: count_request_def bump_total core_in_def Let_def)

text \<open>A request that has been located, with the identifier the memory gives it.\<close>

definition located :: "hmc_mem \<Rightarrow> request \<Rightarrow> bool" where
  "located m r \<longleftrightarrow>
     (rq_type r = READ \<or> rq_type r = WRITE) \<and> rq_is_first_command r \<and> rq_reqid r = mm_mem_req_count m
     \<and> 0 \<le> rq_addr r \<and> rq_addr r < mm_capacity_per_stack m
     \<and> (\<exists>v<length (mm_ctrls m). access_req (hm_org (mm_hmc m)) (mm_core_num m) (int v) r)"

lemma count_located:
  assumes "located m r" "host_ok m" and m1: "mm_hmc m1 = mm_hmc m" "mm_core_num m1 = mm_core_num m"
  shows "\<exists>m'. count_request r m1 = Inr m' \<and> counted m1 m'"
proof -
  have "\<exists>m'. count_request r m1 = Inr m'"
    using assms by (intro count_request_total) (auto simp: located_def access_req_def host_ok_def)
  then show ?thesis using count_request_counted by blast
qed

lemma add_fresh:
  fixes I :: "int multiset"
  assumes "once I" and "\<forall>x\<in>#I. x < n"
  shows "once (add_mset n I)" "\<forall>x\<in>#add_mset n I. x < n + 1"
proof -
  have "n \<notin># I" using assms(2) by auto
  then show "once (add_mset n I)" using assms(1) by (auto simp: not_in_iff)
  show "\<forall>x\<in>#add_mset n I. x < n + 1" using assms(2) by fastforce
qed

lemma send_pim_step:
  assumes inv: "mem_inv m" and loc: "located m r" and pim: "mm_pim_mode_enabled m"
  shows "\<exists>m'. send_pim m r = Inr (True, m') \<and> mem_inv m' \<and> in_flight m' = add_mset (mm_mem_req_count m) (in_flight m)
    \<and> mm_done m' = mm_done m \<and> mm_core_num m' = mm_core_num m"
proof -
  have host: "host_ok m" and cs: "ctrls_ok (mm_hmc m) (mm_core_num m) True (mm_ctrls m)"
    and lt: "\<forall>x\<in>#in_flight m. x < mm_mem_req_count m" and on: "once (in_flight m)"
    using inv pim by (auto simp: mem_inv_def)
  obtain p pools where p: "form_request_packet m r = Inr (p, m\<lparr>mm_tags_pools := pools\<rparr>)"
    "host_ok (m\<lparr>mm_tags_pools := pools\<rparr>)" "pk_type p = REQUEST" "fields_ok (hm_source_links (mm_hmc m)) p"
    "pk_req p = r" "0 \<le> pk_total_flits p"
    using form_request_step [OF host, of r] loc by (auto simp: located_def)
  have ok: "request_ok (mm_hmc m) (mm_core_num m) (length (mm_ctrls m)) p" using p loc by (auto simp: request_ok_def located_def)
  have sub: "ctrl_ids (mm_ctrls m) \<subseteq># in_flight m"
    unfolding in_flight_def by (simp add: subset_mset.add_increasing subset_mset.add_increasing2)
  have "rq_reqid (pk_req p) \<notin># ctrl_ids (mm_ctrls m)"
    using lt mset_subset_eqD [OF sub] loc p(5) by (auto simp: located_def)
  then obtain v b p' c' where d: "v < length (mm_ctrls m)" "receive (mm_ctrls m ! v) p = Inr (b, p', c')"
    "ctrls_ok (mm_hmc m) (mm_core_num m) True ((mm_ctrls m)[v := c'])"
    "ctrl_ids ((mm_ctrls m)[v := c']) = (if b then add_mset (rq_reqid r) (ctrl_ids (mm_ctrls m)) else ctrl_ids (mm_ctrls m))"
    "ctrl_answered ((mm_ctrls m)[v := c']) = ctrl_answered (mm_ctrls m)" b "rq_addr_vec r ! 0 = int v"
    using deliver_step [OF cs ok] p(5) by blast
  let ?m1 = "m\<lparr>mm_tags_pools := pools, mm_ctrls := (mm_ctrls m)[v := c']\<rparr>"
  obtain m' where cnt: "count_request r ?m1 = Inr m'" and c: "counted ?m1 m'"
    using count_located [OF loc host, of ?m1] by auto
  have "send_pim m r = Inr (True, m')" using p(1) d cnt by (simp add: send_pim_def indexR_lt)
  moreover have fl: "in_flight m' = add_mset (mm_mem_req_count m) (in_flight m)"
    using d(4-6) loc c by (simp add: in_flight_def located_def counted_def)
  moreover have "host_ok m'"
    using p(2) by (rule host_ok_cong) (use p(2) c in \<open>simp_all add: host_ok_def counted_def\<close>)
  then have "mem_inv m'"
    using inv d(3) pim add_fresh [OF on lt] c unfolding mem_inv_def fl by (simp add: counted_def)
  ultimately show ?thesis using c by (intro exI [of _ m']) (simp add: counted_def)
qed

lemma slave_receive_ok:
  assumes "link_ok h k nv l" and "request_ok h k nv p" "\<not> pk_flow_control p"
  shows "link_ok h k nv (slave_receive p l)" "lk_output_buffer (slave_receive p l) = lk_output_buffer l"
    "lk_input_buffer (slave_receive p l) = lk_input_buffer l @ [p]"
  using assms by (auto simp: slave_receive_def link_ok_def Let_def)

text \<open>A packet enters link \<open>s\<close> of a layer.\<close>

lemma layer_receive:
  assumes "layer_ok h k nv ll" and "s < length (ll_host_links ll)" and "request_ok h k nv p" "\<not> pk_flow_control p"
    and ll': "ll' = ll\<lparr>ll_host_links := (ll_host_links ll)[s := slave_receive p (ll_host_links ll ! s)]\<rparr>"
  shows "layer_ok h k nv ll'" "inputs (ll_host_links ll') = add_mset (rq_reqid (pk_req p)) (inputs (ll_host_links ll))"
    "outputs (ll_host_links ll') = outputs (ll_host_links ll)"
proof -
  let ?ls = "ll_host_links ll"
  let ?l = "slave_receive p (?ls ! s)"
  have l: "link_ok h k nv (?ls ! s)" using assms(1,2) by (simp add: layer_ok_def)
  note r = slave_receive_ok [OF l assms(3,4)]
  show "layer_ok h k nv ll'"
    using assms(1) r(1) set_update_subset_insert [of ?ls s ?l] by (auto simp: layer_ok_def ll')
  show "inputs (ll_host_links ll') = add_mset (rq_reqid (pk_req p)) (inputs ?ls)"
    using sum_list_update_mset [OF assms(2), of "\<lambda>l. packet_ids (lk_input_buffer l)" ?l] r(3) by (simp add: ll')
  show "outputs (ll_host_links ll') = outputs ?ls"
    using sum_list_update_mset [OF assms(2), of "\<lambda>l. packet_ids (lk_output_buffer l)" ?l] r(2) by (simp add: ll')
qed

lemma send_link_step:
  assumes inv: "mem_inv m" and loc: "located m r"
  shows "\<exists>b m'. send_link m r = Inr (b, m') \<and> mem_inv m' \<and> mm_done m' = mm_done m \<and> mm_core_num m' = mm_core_num m
    \<and> in_flight m' = (if b then add_mset (mm_mem_req_count m) (in_flight m) else in_flight m)"
proof -
  let ?h = "mm_hmc m" and ?k = "mm_core_num m" and ?nv = "length (mm_ctrls m)"
  have host: "host_ok m" and lls: "\<forall>ll\<in>set (mm_logic_layers m). layer_ok ?h ?k ?nv ll"
    and lt: "\<forall>x\<in>#in_flight m. x < mm_mem_req_count m" and on: "once (in_flight m)"
    using inv by (auto simp: mem_inv_def)
  obtain ll rest where ls: "mm_logic_layers m = ll # rest" using inv by (auto simp: mem_inv_def neq_Nil_conv)
  obtain p pools where p: "form_request_packet m r = Inr (p, m\<lparr>mm_tags_pools := pools\<rparr>)"
    "host_ok (m\<lparr>mm_tags_pools := pools\<rparr>)" "pk_type p = REQUEST" "fields_ok (hm_source_links ?h) p"
    "pk_req p = r" "\<not> pk_flow_control p" "0 \<le> pk_total_flits p"
    using form_request_step [OF host, of r] loc by (auto simp: located_def)
  let ?m1 = "m\<lparr>mm_tags_pools := pools\<rparr>"
  have inv1: "mem_inv ?m1" and fl1: "in_flight ?m1 = in_flight m"
    using inv p(2) by (simp_all add: mem_inv_def in_flight_def)
  have ok: "request_ok ?h ?k ?nv p" using p loc by (auto simp: request_ok_def located_def)
  have lok: "layer_ok ?h ?k ?nv ll" using lls ls by simp
  let ?s = "nat (pk_tail_SLID p)"
  have s: "0 \<le> pk_tail_SLID p" "?s < length (ll_host_links ll)"
    using p(4) lok by (auto simp: fields_ok_def layer_ok_def nat_less_iff)
  let ?l = "ll_host_links ll ! ?s"
  show ?thesis
  proof (cases "pk_TAG p = -1 \<or> \<not> pk_total_flits p \<le> slave_available_space ?l")
    case True
    then have "send_link m r = Inr (False, ?m1)" using p(1) ls s by (auto simp: send_link_def indexR_lt nthR_lt)
    with inv1 fl1 show ?thesis by (intro exI [of _ False] exI [of _ ?m1]) simp
  next
    case False
    let ?ll = "ll\<lparr>ll_host_links := (ll_host_links ll)[?s := slave_receive p ?l]\<rparr>"
    let ?m2 = "?m1\<lparr>mm_logic_layers := ?ll # rest\<rparr>"
    obtain m' where cnt: "count_request r ?m2 = Inr m'" and c: "counted ?m2 m'"
      using count_located [OF loc host, of ?m2] by auto
    note lr = layer_receive [OF lok s(2) ok p(6) refl]
    have "send_link m r = Inr (True, m')" using False p(1) ls s cnt by (simp add: send_link_def indexR_lt nthR_lt)
    moreover have fl: "in_flight m' = add_mset (mm_mem_req_count m) (in_flight m)"
      using lr(2,3) ls loc p(5) c by (simp add: in_flight_def located_def counted_def)
    moreover have "host_ok m'"
      using p(2) by (rule host_ok_cong) (use p(2) c in \<open>simp_all add: host_ok_def counted_def\<close>)
    then have "mem_inv m'"
      using inv ls lr(1) add_fresh [OF on lt] c unfolding mem_inv_def fl by (simp add: counted_def)
    ultimately show ?thesis using c by (intro exI [of _ True] exI [of _ m']) (simp add: counted_def)
  qed
qed

lemma send_step:
  assumes inv: "mem_inv m" and ty: "rq_type r = READ \<or> rq_type r = WRITE" and fc: "rq_is_first_command r"
    and ci: "core_in (mm_core_num m) r"
  shows "\<exists>b m'. send m r = Inr (b, m') \<and> mem_inv m' \<and> mm_done m' = mm_done m \<and> mm_core_num m' = mm_core_num m \<and> (mm_pim_mode_enabled m \<longrightarrow> b)
    \<and> in_flight m' = (if b then add_mset (mm_mem_req_count m) (in_flight m) else in_flight m)"
proof -
  let ?r = "(locate m r)\<lparr>rq_arrive_hmc := mm_clk m\<rparr>"
  have host: "host_ok m" using inv by (simp add: mem_inv_def)
  obtain v where v: "v < length (mm_ctrls m)" "rq_addr_vec (locate m r) ! 0 = int v"
    "access_req (hm_org (mm_hmc m)) (mm_core_num m) (int v) (locate m r)"
    using locate_vault [OF host, of r "mm_core_num m"] ty ci by blast
  have vl: "v < length (mm_requests_per_vault m)" using v(1) host by (simp add: host_ok_def)
  let ?m1 = "m\<lparr>mm_requests_per_vault := (mm_requests_per_vault m)[v := mm_requests_per_vault m ! v + 1]\<rparr>"
  have run: "send m r = (if mm_pim_mode_enabled m then send_pim ?m1 ?r else send_link ?m1 ?r)"
    using v(2) vl by (simp add: send_def indexR_lt Let_def)
  have "host_ok ?m1" by (rule host_ok_cong [OF host]) (use host in \<open>simp_all add: host_ok_def\<close>)
  then have inv1: "mem_inv ?m1" and fl: "in_flight ?m1 = in_flight m"
    using inv by (simp_all add: mem_inv_def in_flight_def)
  have "geometry m" "mm_max_address m = mm_capacity_per_stack m" using host by (auto simp: host_ok_def)
  from locate_addr [OF this] have "rq_addr (locate m r) = rq_addr r mod mm_capacity_per_stack m"
    and "0 < mm_capacity_per_stack m" using \<open>geometry m\<close> by (simp_all add: geometry_def)
  then have "located ?m1 ?r" using v ty fc by (auto simp: located_def access_req_def)
  then show ?thesis
    using send_pim_step [OF inv1, of ?r] send_link_step [OF inv1, of ?r] fl run
    by (cases "mm_pim_mode_enabled m") auto
qed

end
