(* ===== verification/HMC_Pages.thy ===== *)
theory HMC_Pages
  imports HMC_Memory
begin

text \<open>
  Page allocation (\<open>Memory<HMC, Controller>::page_allocator\<close>): the search finds a free page whenever
  there is one, no assertion fails, and pages of different cores or addresses share a frame only
  after the memory has run out of frames.
\<close>

section \<open>The search\<close>

declare search_page.simps [simp del]

lemma search_page_result:
  assumes "pages \<noteq> []" and "0 \<le> start" "start < int (length pages)"
  shows "0 \<le> search_page pages start p \<and> search_page pages start p < int (length pages)
    \<and> (pages ! nat (search_page pages start p) = -1
       \<or> (\<forall>k. 1 \<le> k \<and> k \<le> (start - p - 1) mod int (length pages) \<longrightarrow>
            pages ! nat ((p + k) mod int (length pages)) \<noteq> -1))"
  using assms
proof (induction pages start p rule: search_page.induct)
  case (1 pages start p)
  let ?n = "int (length pages)"
  let ?p = "(p + 1) mod ?n" and ?d = "(start - p - 1) mod ?n"
  have n: "0 < ?n" using 1(2) by simp
  have p: "0 \<le> ?p" "?p < ?n" using n by simp_all
  show ?case
  proof (cases "?p \<noteq> start \<and> pages ! nat ?p \<noteq> -1")
    case False
    then have r: "search_page pages start p = ?p" using 1(3,4) by (subst search_page.simps) (auto simp: Let_def)
    moreover have "?d = 0" if "?p = start"
    proof -
      have "?d = (start - ?p) mod ?n" by (simp add: mod_diff_right_eq algebra_simps)
      with that show ?thesis by simp
    qed
    ultimately show ?thesis using p False by auto
  next
    case True
    let ?d' = "(start - ?p - 1) mod ?n"
    have r: "search_page pages start p = search_page pages start ?p"
      using True n 1(3,4) by (subst search_page.simps) (simp add: Let_def)
    have st: "0 < ?n \<and> ?p \<noteq> start mod ?n \<and> pages ! nat ?p \<noteq> -1" using True n 1(3,4) by simp
    have IH: "0 \<le> search_page pages start ?p \<and> search_page pages start ?p < ?n
      \<and> (pages ! nat (search_page pages start ?p) = -1
         \<or> (\<forall>k. 1 \<le> k \<and> k \<le> ?d' \<longrightarrow> pages ! nat ((?p + k) mod ?n) \<noteq> -1))"
      by (rule 1(1) [OF refl refl st 1(2-4)])
    have d: "?d = (start - ?p) mod ?n" by (simp add: mod_diff_right_eq algebra_simps)
    have "(start - ?p) mod ?n \<noteq> 0"
      using True p 1(3,4) by (metis mod_eq_dvd_iff mod_mod_trivial mod_0_imp_dvd mod_pos_pos_trivial)
    then have "0 < ?d" using pos_mod_sign [OF n, of "start - ?p"] d by linarith
    then have "(?d - 1) mod ?n = ?d - 1"
      using pos_mod_bound [OF n, of "start - p - 1"] by (intro mod_pos_pos_trivial) linarith+
    moreover have "?d' = ((start - ?p) mod ?n - 1) mod ?n" by (simp add: mod_diff_left_eq)
    ultimately have d': "?d' = ?d - 1" using d by simp
    have step: "(p + k) mod ?n = (?p + (k - 1)) mod ?n" for k
      using mod_add_left_eq [of "p + 1" ?n "k - 1"] by (simp only: add_diff_cancel_left diff_add_cancel add.assoc) simp
    have "pages ! nat ((p + k) mod ?n) \<noteq> -1"
      if "\<forall>k. 1 \<le> k \<and> k \<le> ?d' \<longrightarrow> pages ! nat ((?p + k) mod ?n) \<noteq> -1" "1 \<le> k" "k \<le> ?d" for k
    proof (cases "k = 1")
      case True
      then show ?thesis using \<open>?p \<noteq> start \<and> _\<close> by simp
    next
      case False
      then have "1 \<le> k - 1" "k - 1 \<le> ?d'" using that(2,3) d' by linarith+
      then show ?thesis using that(1) step [of k] by simp
    qed
    with IH show ?thesis unfolding r by blast
  qed
qed

lemma search_page_free:
  assumes "j < length pages" "pages ! j = -1" and "0 \<le> start" "start < int (length pages)" "pages ! nat start \<noteq> -1"
  shows "pages ! nat (search_page pages start start) = -1"
proof (rule ccontr)
  assume no: "pages ! nat (search_page pages start start) \<noteq> -1"
  let ?n = "int (length pages)"
  have n: "0 < ?n" "pages \<noteq> []" using assms(1) by auto
  have "(-1) mod ?n = ?n - 1" by (rule zmod_minus1 [OF n(1)])
  then have all: "pages ! nat ((start + k) mod ?n) \<noteq> -1" if "1 \<le> k" "k \<le> ?n - 1" for k
    using search_page_result [OF n(2) assms(3,4), of start] that no by auto
  have k: "(int j - start) mod ?n \<noteq> 0"
  proof
    assume "(int j - start) mod ?n = 0"
    then have "int j mod ?n = start mod ?n" by (simp add: mod_eq_dvd_iff mod_0_imp_dvd)
    then have "int j = start" using assms(1,3,4) by simp
    with assms(2,5) show False by (metis nat_int)
  qed
  let ?k = "(int j - start) mod ?n"
  have "(start + ?k) mod ?n = int j" by (subst mod_add_right_eq) (use assms(1) in simp)
  moreover have "1 \<le> ?k" "?k \<le> ?n - 1"
    using k pos_mod_sign [OF n(1), of "int j - start"] pos_mod_bound [OF n(1), of "int j - start"] by linarith+
  ultimately show False using all [of ?k] assms(2) by simp
qed

section \<open>The allocator\<close>

definition frames :: "hmc_mem \<Rightarrow> int" where
  "frames m = int (length (mm_free_physical_pages m))"

definition pages_inv :: "hmc_mem \<Rightarrow> bool" where
  "pages_inv m \<longleftrightarrow>
     mm_free_physical_pages m \<noteq> [] \<and> om_ok (mm_page_translation m)
     \<and> mm_free_physical_pages_remaining m = int (count_list (mm_free_physical_pages m) (-1))
     \<and> (\<forall>k f. map_of (mm_page_translation m) k = Some f \<longrightarrow>
          0 \<le> f \<and> f < frames m \<and> mm_free_physical_pages m ! nat f \<noteq> -1)
     \<and> 0 \<le> mm_physical_page_replacement m
     \<and> (mm_physical_page_replacement m = 0 \<longrightarrow>
          inj_on (map_of (mm_page_translation m)) (dom (map_of (mm_page_translation m))))"

lemma count_list_update:
  "j < length xs \<Longrightarrow> xs ! j = a \<Longrightarrow> b \<noteq> a \<Longrightarrow> Suc (count_list (xs[j := b]) a) = count_list xs a"
proof (induction xs arbitrary: j)
  case (Cons x xs)
  show ?case
  proof (cases j)
    case 0
    then show ?thesis using Cons.prems by simp
  next
    case (Suc i)
    then show ?thesis using Cons.IH [of i] Cons.prems by auto
  qed
qed simp

lemma assign_page_step:
  assumes inv: "pages_inv m" and k: "map_of (mm_page_translation m) target = None" and core: "0 \<le> coreid"
  shows "\<exists>m' f. assign_page m target coreid rnd = Inr m' \<and> pages_inv m' \<and> frames m' = frames m
    \<and> map_of (mm_page_translation m') = (map_of (mm_page_translation m))(target \<mapsto> f)
    \<and> mm_translation m' = mm_translation m"
proof -
  let ?pages = "mm_free_physical_pages m" and ?tr = "mm_page_translation m"
  let ?n = "int (length ?pages)" and ?p = "rnd mod int (length (mm_free_physical_pages m))"
  have n: "0 < ?n" and ok: "om_ok ?tr" using inv by (auto simp: pages_inv_def)
  have p: "0 \<le> ?p" "?p < ?n" "nat ?p < length ?pages" using n by (simp_all add: nat_less_iff)
  have rem: "mm_free_physical_pages_remaining m = int (count_list ?pages (-1))"
    and rng: "\<And>k f. map_of ?tr k = Some f \<Longrightarrow> 0 \<le> f \<and> f < ?n \<and> ?pages ! nat f \<noteq> -1"
    and rep: "0 \<le> mm_physical_page_replacement m"
    and inj: "mm_physical_page_replacement m = 0 \<Longrightarrow> inj_on (map_of ?tr) (dom (map_of ?tr))"
    using inv by (auto simp: pages_inv_def frames_def)
  have put: "map_of (om_put target f ?tr) = (map_of ?tr)(target \<mapsto> f)" for f by (auto simp: om.find_put)
  show ?thesis
  proof (cases "mm_free_physical_pages_remaining m = 0")
    case True
    then have "-1 \<notin> set ?pages" using rem by (simp add: count_list_0_iff)
    then have pp: "?pages ! nat ?p \<noteq> -1" using nth_mem [OF p(3)] by metis
    let ?m = "m\<lparr>mm_physical_page_replacement := mm_physical_page_replacement m + 1,
      mm_page_translation := om_put target ?p ?tr\<rparr>"
    have "assign_page m target coreid rnd = Inr ?m" using True pp n by (simp add: assign_page_def Let_def)
    moreover have "pages_inv ?m"
      using inv p pp rng rem rep om.ok_put [OF ok]
      by (auto simp: pages_inv_def frames_def put)
    ultimately show ?thesis by (auto simp: frames_def put)
  next
    case False
    define f where "f = (if ?pages ! nat ?p \<noteq> -1 then search_page ?pages ?p ?p else ?p)"
    have "-1 \<in> set ?pages" using False rem count_list_0_iff [of ?pages "-1"] by auto
    then obtain j where j: "j < length ?pages" "?pages ! j = -1" by (auto simp: in_set_conv_nth)
    have free: "?pages ! nat f = -1" using search_page_free [OF j p(1,2)] by (simp add: f_def)
    have fr: "0 \<le> f" "f < ?n" using search_page_result [OF _ p(1,2), of ?p] n p by (auto simp: f_def)
    then have fl: "nat f < length ?pages" by (simp add: nat_less_iff)
    let ?m = "m\<lparr>mm_page_translation := om_put target f ?tr,
      mm_free_physical_pages := ?pages[nat f := coreid],
      mm_free_physical_pages_remaining := mm_free_physical_pages_remaining m - 1\<rparr>"
    have "assign_page m target coreid rnd = Inr ?m" using False free n by (simp add: assign_page_def Let_def f_def)
    moreover have "pages_inv ?m"
    proof -
      have new: "?pages[nat f := coreid] ! nat g \<noteq> -1" if "0 \<le> g" "g = f \<or> ?pages ! nat g \<noteq> -1" for g
        using that core fl by (cases "nat g = nat f") auto
      have "map_of ?tr k \<noteq> Some f" for k using rng [of k f] free by auto
      then have "inj_on ((map_of ?tr)(target \<mapsto> f)) (dom ((map_of ?tr)(target \<mapsto> f)))"
        if "mm_physical_page_replacement m = 0"
        using inj [OF that] k by (auto simp: inj_on_def dom_def)
      moreover have "int (count_list (?pages[nat f := coreid]) (-1)) = mm_free_physical_pages_remaining m - 1"
        using count_list_update [OF fl free, of coreid] core rem by auto
      ultimately show ?thesis
        using n rng rep new fr core om.ok_put [OF ok]
        by (auto simp: pages_inv_def frames_def put)
    qed
    ultimately show ?thesis by (auto simp: frames_def put)
  qed
qed

lemma join_page:
  fixes f a :: int
  shows "push_bit 12 f OR (a AND 4095) = f * 4096 + a mod 4096"
proof -
  have "a AND 4095 = a mod 4096" using and_low [of a 12] by simp
  moreover have "a mod 4096 OR push_bit 12 f = a mod 4096 + f * 2 ^ 12" by (rule or_shifted) simp_all
  ultimately show ?thesis by (simp add: or.commute)
qed

lemma count_replicate: "count_list (replicate n x) x = n"
  by (induction n) simp_all

lemma new_hmc_mem_pages:
  assumes "new_hmc_mem h ctrls pim stacks transl addressing lays n = Inr m"
    and "mm_translation m = TransRandom" "4096 \<le> mm_max_address m"
  shows "pages_inv m"
proof -
  have "0 < mm_max_address m div 4096" using assms(3) by (simp add: pos_imp_zdiv_pos_iff)
  moreover from assms(1)
  have "mm_free_physical_pages_remaining m = (if mm_translation m \<noteq> TransNone then mm_max_address m div 4096 else 0)
    \<and> mm_free_physical_pages m = replicate (nat (mm_free_physical_pages_remaining m)) (-1)
    \<and> mm_page_translation m = [] \<and> mm_physical_page_replacement m = 0"
    unfolding new_hmc_mem_def Let_def bindR_eq_Inr by (elim exE conjE) (drule Inr_inject, hypsubst, simp)
  ultimately show ?thesis using assms(2) by (simp add: pages_inv_def om_ok_def count_replicate)
qed

lemma page_allocator_step:
  assumes "pages_inv m" and "mm_translation m = TransRandom" and "0 \<le> coreid"
  shows "\<exists>pa m'. page_allocator m adr coreid rnd = Inr (pa, m') \<and> pages_inv m'
    \<and> pa mod 4096 = adr mod 4096 \<and> 0 \<le> pa \<and> pa < 4096 * frames m
    \<and> map_of (mm_page_translation m') (coreid, adr div 4096) = Some (pa div 4096)
    \<and> map_of (mm_page_translation m) \<subseteq>\<^sub>m map_of (mm_page_translation m')
    \<and> mm_translation m' = TransRandom"
proof -
  let ?t = "(coreid, adr div 4096)" and ?m = "m\<lparr>mm_memory_footprint := mm_memory_footprint m + 4096\<rparr>"
  have t: "(coreid, drop_bit 12 adr) = ?t" by (simp add: drop_bit_eq_div)
  obtain m' f where m': "(if map_of (mm_page_translation m) ?t = None then assign_page ?m ?t coreid rnd else Inr m)
      = Inr m'" "pages_inv m'" "frames m' = frames m" "map_of (mm_page_translation m') ?t = Some f"
    "map_of (mm_page_translation m) \<subseteq>\<^sub>m map_of (mm_page_translation m')" "mm_translation m' = TransRandom"
  proof (cases "map_of (mm_page_translation m) ?t")
    case None
    have "pages_inv ?m" using assms(1) by (simp add: pages_inv_def frames_def)
    then obtain m' f where "assign_page ?m ?t coreid rnd = Inr m'" "pages_inv m'" "frames m' = frames ?m"
      "map_of (mm_page_translation m') = (map_of (mm_page_translation m))(?t \<mapsto> f)" "mm_translation m' = TransRandom"
      using assign_page_step [of ?m ?t coreid rnd] None assms(2,3) by auto
    moreover have "map_of (mm_page_translation m) \<subseteq>\<^sub>m (map_of (mm_page_translation m))(?t \<mapsto> f)"
      using None by (auto simp: map_le_def)
    ultimately show ?thesis using None that [of m' f] by (simp add: frames_def)
  next
    case (Some f)
    then show ?thesis using that [of m f] assms(1,2) by simp
  qed
  have f: "0 \<le> f" "f < frames m" using m'(2-4) by (auto simp: pages_inv_def)
  have "page_allocator m adr coreid rnd = Inr (f * 4096 + adr mod 4096, m')"
    using m'(1,4) assms(2) by (auto simp: page_allocator_def Let_def t join_page split: if_splits)
  moreover have "f * 4096 + adr mod 4096 < 4096 * frames m"
  proof -
    have "(f + 1) * 4096 \<le> frames m * 4096" using f(2) by (intro mult_right_mono) simp_all
    then show ?thesis using pos_mod_bound [of 4096 adr] by (simp add: algebra_simps)
  qed
  moreover have "(f * 4096 + adr mod 4096) div 4096 = f" by (simp add: div_add1_eq)
  ultimately show ?thesis using f(1) m'(2,4-6) by (intro exI [of _ "f * 4096 + adr mod 4096"] exI [of _ m']) simp
qed

text \<open>
  C22.  Random page allocation never fails an assertion and always returns: the result is an address
  inside the physical memory with the same page offset, pages that were already translated keep
  their frame, and the invariant of the allocator is kept.
\<close>

theorem page_allocator_ok:
  assumes "pages_inv m" and "mm_translation m = TransRandom" and "0 \<le> coreid"
  shows "\<exists>pa m'. page_allocator m adr coreid rnd = Inr (pa, m') \<and> pages_inv m'
    \<and> pa mod 4096 = adr mod 4096 \<and> 0 \<le> pa \<and> pa < 4096 * frames m
    \<and> map_of (mm_page_translation m') (coreid, adr div 4096) = Some (pa div 4096)
    \<and> map_of (mm_page_translation m) \<subseteq>\<^sub>m map_of (mm_page_translation m')"
  using page_allocator_step [OF assms] by blast

text \<open>
  C23.  As long as no frame had to be replaced, two different pages (of one core or of two cores)
  are given different frames.
\<close>

theorem page_frames_disjoint:
  assumes "pages_inv m" "mm_translation m = TransRandom" "0 \<le> c1" "0 \<le> c2"
    and "page_allocator m a1 c1 r1 = Inr (p1, m1)" "page_allocator m1 a2 c2 r2 = Inr (p2, m2)"
    and "mm_physical_page_replacement m2 = 0" and "(c1, a1 div 4096) \<noteq> (c2, a2 div 4096)"
  shows "p1 div 4096 \<noteq> p2 div 4096"
proof
  assume eq: "p1 div 4096 = p2 div 4096"
  have 1: "pages_inv m1" "mm_translation m1 = TransRandom"
    "map_of (mm_page_translation m1) (c1, a1 div 4096) = Some (p1 div 4096)"
    using page_allocator_step [OF assms(1-3), of a1 r1] assms(5) by auto
  have 2: "pages_inv m2" "map_of (mm_page_translation m2) (c2, a2 div 4096) = Some (p2 div 4096)"
    "map_of (mm_page_translation m1) \<subseteq>\<^sub>m map_of (mm_page_translation m2)"
    using page_allocator_step [OF 1(1,2) assms(4), of a2 r2] assms(6) by auto
  have 3: "map_of (mm_page_translation m2) (c1, a1 div 4096) = Some (p1 div 4096)"
    using 1(3) 2(3) by (metis domI map_le_def)
  have "inj_on (map_of (mm_page_translation m2)) (dom (map_of (mm_page_translation m2)))"
    using 2(1) assms(7) by (simp add: pages_inv_def)
  from inj_onD [OF this, of "(c1, a1 div 4096)" "(c2, a2 div 4096)"] 2(2) 3 eq assms(8) show False by auto
qed

text \<open>A memory of four frames.\<close>

definition small_pages :: "hmc_mem \<Rightarrow> hmc_mem" where
  "small_pages m = m\<lparr>mm_translation := TransRandom, mm_free_physical_pages := [-1, -1, -1, -1],
     mm_free_physical_pages_remaining := 4, mm_page_translation := [], mm_physical_page_replacement := 0\<rparr>"

lemma small_pages_inv: "pages_inv (small_pages m)" "mm_translation (small_pages m) = TransRandom"
  by (simp_all add: small_pages_def pages_inv_def om_ok_def)

theorem page_allocator_ok_witness:
  "\<forall>m. \<exists>pa m'. page_allocator (small_pages m) 5000 0 7 = Inr (pa, m') \<and> pa mod 4096 = 904 \<and> pa < 16384"
proof
  fix m :: hmc_mem
  obtain pa m' where "page_allocator (small_pages m) 5000 0 7 = Inr (pa, m')" "pa mod 4096 = 5000 mod 4096"
    "pa < 4096 * frames (small_pages m)"
    using page_allocator_ok [OF small_pages_inv(1,2), of 0 m 5000 7] by auto
  then show "\<exists>pa m'. page_allocator (small_pages m) 5000 0 7 = Inr (pa, m') \<and> pa mod 4096 = 904 \<and> pa < 16384"
    by (simp add: frames_def small_pages_def)
qed

theorem page_frames_disjoint_witness:
  "\<forall>m. \<exists>p1 m1 p2 m2. page_allocator (small_pages m) 5000 0 7 = Inr (p1, m1)
     \<and> page_allocator m1 5000 1 7 = Inr (p2, m2) \<and> p1 div 4096 \<noteq> p2 div 4096"
proof
  fix m :: hmc_mem
  have s: "search_page [-1, -1, -1, 0] 3 3 = 0" by (simp add: search_page.simps)
  obtain p1 m1 p2 m2 where "page_allocator (small_pages m) 5000 0 7 = Inr (p1, m1)"
    "page_allocator m1 5000 1 7 = Inr (p2, m2)" "mm_physical_page_replacement m2 = 0"
    by (simp add: page_allocator_def assign_page_def small_pages_def Let_def drop_bit_eq_div s)
  with page_frames_disjoint [OF small_pages_inv [of m], of 0 1 5000 7 p1 m1 5000 7 p2 m2]
  show "\<exists>p1 m1 p2 m2. page_allocator (small_pages m) 5000 0 7 = Inr (p1, m1)
     \<and> page_allocator m1 5000 1 7 = Inr (p2, m2) \<and> p1 div 4096 \<noteq> p2 div 4096" by auto
qed

end
