(* ===== verification/HMC_System.thy ===== *)
theory HMC_System
  imports HMC_Mem_Inv HMC_Pages
begin

text \<open>
  The HMC memory from \<open>start_run<HMC>\<close> on: what holds after any sequence of requests and cycles, and
  what goes wrong outside the configurations for which the code is written.
\<close>

section \<open>Construction\<close>

lemma new_hmc_mem_fields:
  assumes "new_hmc_mem h ctrls pim stacks transl addressing lays n = Inr m"
  shows "mm_hmc m = h \<and> mm_ctrls m = ctrls \<and> mm_logic_layers m = lays \<and> mm_pim_mode_enabled m = pim
    \<and> mm_tags_pools m = replicate (nat (hm_source_links h)) (map int [0..<max_tags])
    \<and> mm_requests_per_vault m = replicate 32 0 \<and> mm_mem_req_count m = 0 \<and> mm_core_num m = n \<and> mm_done m = []
    \<and> 0 < hm_source_links h"
  using assms unfolding new_hmc_mem_def Let_def bindR_eq_Inr
  by (elim exE conjE) (drule Inr_inject, hypsubst, simp)

lemma capacity_le: "geometry m \<Longrightarrow> mm_capacity_per_stack m \<le> 2 ^ 34"
proof -
  assume g: "geometry m"
  have "(2::int) ^ (mm_addr_bits m ! 0 + mm_addr_bits m ! 1 + mm_addr_bits m ! 2 + mm_addr_bits m ! 3)
    = org_counts (mm_hmc m) ! 0 * org_counts (mm_hmc m) ! 1 * org_counts (mm_hmc m) ! 2 * org_counts (mm_hmc m) ! 3"
    using g by (simp add: geometry_def power_add)
  also have "\<dots> \<le> 2 ^ 25" by (cases "hm_org (mm_hmc m)") (simp_all add: org_counts_def org_entry.defs)
  finally have "(2::int) ^ (mm_addr_bits m ! 0 + mm_addr_bits m ! 1 + mm_addr_bits m ! 2 + mm_addr_bits m ! 3) \<le> 2 ^ 25" .
  moreover have "8 * 2 ^ (mm_addr_bits m ! 4) = (64::int)"
    using g by (cases "hm_org (mm_hmc m)") (simp_all add: geometry_def org_counts_def org_entry.defs)
  ultimately show ?thesis using g by (simp add: geometry_def total_bits_def power_add)
qed

lemma new_vault_ctrl_fields:
  assumes "new_vault_ctrl h ch rec nolat unlimited pim n = Inr c"
  shows "vc_hmc c = h \<and> vc_core_num c = n \<and> vc_pim_mode_enabled c = pim \<and> vc_channel c = ch \<and> ids c = {#} \<and> answered c = {#}"
  using assms by (auto simp: new_vault_ctrl_def Let_def ids_def live_def answered_def)

lemma sum_list_empty: "(\<And>x. x \<in> set xs \<Longrightarrow> g x = {#}) \<Longrightarrow> (\<Sum>x\<leftarrow>xs. g x) = {#}"
  by (induction xs) auto

lemma vault_ctrls_ok:
  assumes "mapR (\<lambda>c. new_vault_ctrl h (new_dram (hm_spec h) 0 c) rec False unlimited pim k) [0..int n - 1] = Inr cs"
  shows "ctrls_ok h k pim cs \<and> length cs = n \<and> ctrl_ids cs = {#} \<and> ctrl_answered cs = {#}"
proof -
  have len: "length cs = n" using mapR_length [OF assms] by simp
  have nth: "new_vault_ctrl h (new_dram (hm_spec h) 0 (int i)) rec False unlimited pim k = Inr (cs ! i)" if "i < n" for i
    using mapR_nth [OF assms, of i] that by (simp add: nth_upto)
  have f: "vc_hmc (cs ! i) = h \<and> vc_core_num (cs ! i) = k \<and> vc_pim_mode_enabled (cs ! i) = pim \<and> vault_id (cs ! i) = int i
    \<and> ids (cs ! i) = {#} \<and> answered (cs ! i) = {#}" if "i < n" for i
    using new_vault_ctrl_fields [OF nth [OF that]] by (simp add: vault_id_def vault_id_new)
  have z: "(\<Sum>c\<leftarrow>cs. g c) = {#}" if "\<And>i. i < n \<Longrightarrow> g (cs ! i) = {#}" for g :: "vault_ctrl \<Rightarrow> int multiset"
    using that len by (intro sum_list_empty) (auto simp: in_set_conv_nth)
  show ?thesis using f new_vault_ctrl_inv [OF nth] len z by (auto simp: ctrls_ok_def)
qed

lemma new_layer_ok:
  assumes "new_logic_layer garbage h (hm_source_links h) pt = Inr ll" and "0 < hm_source_links h"
  shows "layer_ok h k nv ll \<and> inputs (ll_host_links ll) = {#} \<and> outputs (ll_host_links ll) = {#}"
  using assms
  by (auto simp: new_logic_layer_def layer_ok_def link_ok_def new_link_def simp del: map_map intro!: sum_list_empty)

text \<open>The configurations covered: one stack with at most 32 vaults, and one to eight host links.\<close>

definition config_hmc :: "hmc \<Rightarrow> bool" where
  "config_hmc h \<longleftrightarrow>
     org_counts h ! 0 \<le> 32 \<and> 0 < hm_source_links h \<and> hm_source_links h \<le> 8 \<and> 0 \<le> hm_payload_flits h"

lemma start_run_inv:
  assumes "start_run_HMC h rec False unlimited pim 1 transl addressing garbage (hm_source_links h) pt n = Inr m"
    and "config_hmc h"
  shows "mem_inv m"
proof -
  obtain cs lays where r:
    "mapR (\<lambda>c. new_vault_ctrl h (new_dram (hm_spec h) 0 c) rec False unlimited pim n) [0..org_counts h ! 0 * 1 - 1] = Inr cs"
    "mapR (\<lambda>i. new_logic_layer garbage h (hm_source_links h) pt) [0..(1::int) - 1] = Inr lays"
    "new_hmc_mem h cs pim 1 transl addressing lays n = Inr m"
    using assms(1) by (auto simp: start_run_HMC_def)
  define v where "v = nat (org_counts h ! 0)"
  have "0 \<le> org_counts h ! 0" by (cases "hm_org h") (simp_all add: org_counts_def org_entry.defs)
  then have v: "org_counts h ! 0 = int v" by (simp add: v_def)
  have cs: "ctrls_ok h n pim cs" "length cs = v" "ctrl_ids cs = {#}" "ctrl_answered cs = {#}"
    using vault_ctrls_ok [of h rec unlimited pim n v cs] r(1) v by simp_all
  obtain ll where ll: "lays = [ll]" "new_logic_layer garbage h (hm_source_links h) pt = Inr ll"
    using r(2) by auto
  have lok: "layer_ok h n v ll \<and> inputs (ll_host_links ll) = {#} \<and> outputs (ll_host_links ll) = {#}"
    using new_layer_ok [OF ll(2)] assms(2) by (simp add: config_hmc_def)
  note f = new_hmc_mem_fields [OF r(3)] and g = new_hmc_mem_geometry [OF r(3)]
  have "\<forall>t\<in>set (map int [0..<max_tags]). field_valid t tag_bits"
    by (simp add: max_tags_def field_valid_def tag_bits_def)
  then have "host_ok m"
    using f g assms(2) cs(2) v capacity_le [of m] by (auto simp: host_ok_def config_hmc_def)
  then show ?thesis using f cs lok ll(1) by (simp add: mem_inv_def in_flight_def)
qed

text \<open>One step of the memory's environment: a cycle, or a read or write of one of the cores sent to it.\<close>

inductive mem_step :: "hmc_mem \<Rightarrow> hmc_mem \<Rightarrow> bool" where
  Tick: "mem_tick m = Inr m' \<Longrightarrow> mem_step m m'"
| Send: "rq_type r = READ \<or> rq_type r = WRITE \<Longrightarrow> rq_is_first_command r \<Longrightarrow>
    core_in (mm_core_num m) r \<Longrightarrow> send m r = Inr (ok, m') \<Longrightarrow> mem_step m m'"

text \<open>The option \<open>no_DRAM_latency\<close>, which bypasses the states of the device, is off.\<close>

inductive mem_reach :: "hmc_mem \<Rightarrow> bool" where
  Start: "start_run_HMC h rec False unlimited pim 1 transl addressing garbage (hm_source_links h) pt n = Inr m
    \<Longrightarrow> config_hmc h \<Longrightarrow> mem_reach m"
| Step: "mem_reach m \<Longrightarrow> mem_step m m' \<Longrightarrow> mem_reach m'"

lemma mem_step_inv: "mem_step m m' \<Longrightarrow> mem_inv m \<Longrightarrow> mem_inv m'"
proof (induction rule: mem_step.induct)
  case (Tick m m')
  then show ?case using mem_tick_step [of m] by auto
next
  case (Send r m ok m')
  then show ?case using send_step [of m r] by auto
qed

lemma mem_reach_inv: "mem_reach m \<Longrightarrow> mem_inv m"
  by (induction rule: mem_reach.induct) (blast intro: start_run_inv mem_step_inv)+

lemma mem_tick_total: "mem_inv m \<Longrightarrow> \<exists>m'. mem_tick m = Inr m'"
  by (frule mem_tick_step) (elim exE conjE, rule exI)

section \<open>The memory in operation\<close>

text \<open>
  C2.  The HMC memory never fails.  For one stack of at most 32 vaults with one to eight host links, and
  with the option \<open>no_DRAM_latency\<close> off, after any sequence of cycles and of requests of the cores another
  cycle succeeds, and so does sending any read or write that carries the number of a core: no assertion of
  the memory, the links, the vaults or the vectors of statistics fails and no index is out of range.  In
  processing-in-memory mode the request is always accepted.
\<close>

theorem mem_never_fails:
  assumes "mem_reach m"
  shows "(\<exists>m'. mem_tick m = Inr m')
    \<and> (\<forall>r. (rq_type r = READ \<or> rq_type r = WRITE) \<and> rq_is_first_command r
           \<and> 0 \<le> rq_coreid r \<and> rq_coreid r < mm_core_num m \<longrightarrow>
         (\<exists>b m'. send m r = Inr (b, m') \<and> (mm_pim_mode_enabled m \<longrightarrow> b)))"
  using mem_tick_step [OF mem_reach_inv [OF assms]] send_step [OF mem_reach_inv [OF assms]]
  unfolding core_in_def by blast

text \<open>
  C3.  Every accepted request is in exactly one place.  Sending a request adds its identifier to those in
  flight if it is accepted and changes nothing if it is refused.  In a cycle no request between links,
  switch and vaults is lost or duplicated: the requests in flight before it are those in flight after it
  and those of the packets \<open>ps\<close> that the links send to the host in this cycle, and the host calls back
  exactly the reads among \<open>ps\<close>, in this order.  (Same configurations as for the previous property.)
\<close>

theorem mem_conserves:
  assumes "mem_reach m"
  shows "once (in_flight m)
    \<and> (\<forall>ps m1 m'. mem_cycle m = Inr (ps, m1) \<and> mem_tick m = Inr m' \<longrightarrow>
         in_flight m = packet_ids (data_packets ps) + in_flight m'
         \<and> mm_done m' = mm_done m @ called_back (mm_clk m') ps)
    \<and> (\<forall>r b m'. (rq_type r = READ \<or> rq_type r = WRITE) \<and> rq_is_first_command r \<and> core_in (mm_core_num m) r
         \<and> send m r = Inr (b, m') \<longrightarrow>
         in_flight m' = (if b then add_mset (mm_mem_req_count m) (in_flight m) else in_flight m)
         \<and> mm_done m' = mm_done m)"
proof -
  have inv: "mem_inv m" by (rule mem_reach_inv [OF assms])
  then have "once (in_flight m)" by (simp add: mem_inv_def)
  moreover have "in_flight m = packet_ids (data_packets ps) + in_flight m'
      \<and> mm_done m' = mm_done m @ called_back (mm_clk m') ps"
    if "mem_cycle m = Inr (ps, m1)" "mem_tick m = Inr m'" for ps m1 m'
    using mem_tick_step [OF inv] that by auto
  moreover have "in_flight m' = (if b then add_mset (mm_mem_req_count m) (in_flight m) else in_flight m)
      \<and> mm_done m' = mm_done m"
    if "rq_type r = READ \<or> rq_type r = WRITE" "rq_is_first_command r" "core_in (mm_core_num m) r"
      "send m r = Inr (b, m')" for r b m'
    using send_step [OF inv that(1-3)] that(4) by auto
  ultimately show ?thesis by blast
qed

definition sample_start :: "int \<Rightarrow> hmc_mem res" where
  "sample_start garbage = start_run_HMC sample_hmc False False False False 1 None None garbage 4 0 2"

lemma sample_start_ok: "\<exists>m. sample_start g = Inr m"
proof -
  have pow: "pow2_count 32" "pow2_count 4" by (simp_all add: pow2_count_def)
  have l: "calc_log2 32 = Some 5" "calc_log2 8 = Some 3" "calc_log2 64 = Some 6" "calc_log2 4 = Some 2"
    "calc_log2 2 = Some 1" "calc_log2 65536 = Some 16"
    using calc_log2_pow [of 5] calc_log2_pow [of 3] calc_log2_pow [of 6] calc_log2_pow [of 2]
      calc_log2_pow [of 1] calc_log2_pow [of 16] by simp_all
  let ?f = "\<lambda>c. new_vault_ctrl sample_hmc (new_dram (hm_spec sample_hmc) 0 c) False False False False 2"
  have "\<exists>cs. mapR ?f [0..31] = Inr cs"
    by (rule mapR_total) (simp add: new_vault_ctrl_def Let_def)
  then obtain cs where cs: "mapR ?f [0..31] = Inr cs" ..
  have "org_counts sample_hmc ! 0 = 32" by (simp add: sample_hmc_def mk_hmc_def hmc_org_of_def org_counts_def org_entry.defs)
  with cs show ?thesis
    by (simp add: sample_start_def start_run_HMC_def new_logic_layer_def)
      (simp add: new_hmc_mem_def sample_hmc_def mk_hmc_def hmc_org_of_def org_counts_def org_entry.defs Let_def
        hmc_spec_def pow l)
qed

lemma sample_start_reach: "sample_start g = Inr m \<Longrightarrow> mem_reach m"
  by (rule mem_reach.Start [of sample_hmc False False False None None g 0 2])
    (simp_all add: sample_start_def sample_hmc_def mk_hmc_def config_hmc_def hmc_org_of_def org_counts_def org_entry.defs)

lemma sample_cores: "sample_start g = Inr m \<Longrightarrow> mm_core_num m = 2"
  by (auto simp: sample_start_def start_run_HMC_def dest: new_hmc_mem_fields)

theorem mem_never_fails_witness:
  "\<exists>m m' b m''. sample_start 0 = Inr m \<and> mem_tick m = Inr m' \<and> send m (mk_request 4096 READ 1) = Inr (b, m'')"
proof -
  obtain m where m: "sample_start 0 = Inr m" using sample_start_ok by blast
  note n = mem_never_fails [OF sample_start_reach [OF m]]
  obtain m' where "mem_tick m = Inr m'" using n by auto
  moreover obtain b m'' where "send m (mk_request 4096 READ 1) = Inr (b, m'')"
    using n [THEN conjunct2, THEN spec, of "mk_request 4096 READ 1"] sample_cores [OF m] by (auto simp: mk_request_def)
  ultimately show ?thesis using m by (intro exI conjI)
qed

theorem mem_conserves_witness:
  "\<exists>m b m' ps m1 m''. sample_start 0 = Inr m \<and> send m (mk_request 4096 READ 1) = Inr (b, m')
     \<and> in_flight m' = (if b then add_mset 0 (in_flight m) else in_flight m)
     \<and> mem_cycle m' = Inr (ps, m1) \<and> mem_tick m' = Inr m''
     \<and> in_flight m' = packet_ids (data_packets ps) + in_flight m''"
proof -
  obtain m where m: "sample_start 0 = Inr m" using sample_start_ok by blast
  have r: "mem_reach m" by (rule sample_start_reach [OF m])
  let ?r = "mk_request 4096 READ 1"
  have q: "rq_type ?r = READ \<or> rq_type ?r = WRITE" "rq_is_first_command ?r" "core_in (mm_core_num m) ?r"
    using sample_cores [OF m] by (simp_all add: mk_request_def core_in_def)
  obtain b m' where s: "send m ?r = Inr (b, m')" using send_step [OF mem_reach_inv [OF r] q] by blast
  have z: "mm_mem_req_count m = 0"
    using m by (auto simp: sample_start_def start_run_HMC_def dest: new_hmc_mem_fields)
  have f: "in_flight m' = (if b then add_mset 0 (in_flight m) else in_flight m)"
    using mem_conserves [OF r, THEN conjunct2, THEN conjunct2, THEN spec [of _ ?r], THEN spec [of _ b], THEN spec [of _ m']]
      q s z by simp
  have r': "mem_reach m'" by (rule mem_reach.Step [OF r mem_step.Send [OF q s]])
  obtain ps m1 m'' where t: "mem_cycle m' = Inr (ps, m1)" "mem_tick m' = Inr m''"
    using mem_tick_step [OF mem_reach_inv [OF r']] by (elim exE conjE)
  have "in_flight m' = packet_ids (data_packets ps) + in_flight m''"
    using mem_conserves [OF r', THEN conjunct2, THEN conjunct1, THEN spec [of _ ps], THEN spec [of _ m1], THEN spec [of _ m'']]
      t by simp
  with m s f t show ?thesis by (intro exI conjI)
qed

end
