(* ===== verification/Processor_Mem.thy ===== *)
theory Processor_Mem
  imports Processor_Model HMC_System
begin

text \<open>
  The HMC memory as the processor uses it: sending requests and running cycles leave the page tables
  alone, allocating pages leaves everything else alone, so that the invariants of both hold together.
\<close>

definition page_state :: "hmc_mem \<Rightarrow> translation \<times> int list \<times> int \<times> (int \<times> int, int) omap \<times> int" where
  "page_state m = (mm_translation m, mm_free_physical_pages m, mm_free_physical_pages_remaining m,
     mm_page_translation m, mm_physical_page_replacement m)"

definition pages_ok :: "hmc_mem \<Rightarrow> bool" where
  "pages_ok m \<longleftrightarrow> mm_translation m = TransRandom \<longrightarrow> pages_inv m"

lemma pages_ok_cong: "page_state m' = page_state m \<Longrightarrow> pages_ok m' = pages_ok m"
  by (simp add: page_state_def pages_ok_def pages_inv_def frames_def)

section \<open>Sending\<close>

lemma assign_tag_frame:
  "assign_tag m slid = Inr (t, m') \<Longrightarrow> page_state m' = page_state m \<and> mm_clk m' = mm_clk m"
  by (auto simp: assign_tag_def page_state_def split: list.splits)

lemma form_request_frame:
  "form_request_packet m r = Inr (p, m') \<Longrightarrow> page_state m' = page_state m \<and> mm_clk m' = mm_clk m"
  using assign_tag_frame by (fastforce simp: form_request_packet_def Let_def)

lemma counted_frame:
  "count_request r m = Inr m' \<Longrightarrow> page_state m' = page_state m \<and> mm_clk m' = mm_clk m"
  by (drule count_request_counted) (simp add: counted_def page_state_def)

lemma send_pim_frame:
  assumes "send_pim m r = Inr (b, m')"
  shows "page_state m' = page_state m \<and> mm_clk m' = mm_clk m"
proof -
  obtain p m1 where p: "form_request_packet m r = Inr (p, m1)"
    using assms unfolding send_pim_def bindR_eq_Inr by (elim exE conjE) (simp split: prod.splits)
  obtain cs where "count_request r (m1\<lparr>mm_ctrls := cs\<rparr>) = Inr m'"
    using assms by (auto simp: send_pim_def p)
  then show ?thesis using form_request_frame [OF p] by (auto simp: page_state_def dest: counted_frame)
qed

lemma send_link_frame:
  assumes "send_link m r = Inr (b, m')"
  shows "page_state m' = page_state m \<and> mm_clk m' = mm_clk m"
proof -
  obtain p m1 where p: "form_request_packet m r = Inr (p, m1)"
    using assms unfolding send_link_def bindR_eq_Inr by (elim exE conjE) (simp split: prod.splits)
  obtain ls where "m' = m1 \<or> count_request r (m1\<lparr>mm_logic_layers := ls\<rparr>) = Inr m'"
    using assms by (auto simp: send_link_def p split: if_splits)
  then show ?thesis using form_request_frame [OF p] by (auto simp: page_state_def dest: counted_frame)
qed

lemma send_frame:
  assumes "send m r = Inr (b, m')"
  shows "page_state m' = page_state m \<and> mm_clk m' = mm_clk m"
proof -
  define q where "q = (locate m r)\<lparr>rq_arrive_hmc := mm_clk m\<rparr>"
  define m1 where "m1 = (\<lambda>n. m\<lparr>mm_requests_per_vault := (mm_requests_per_vault m)[nat (rq_addr_vec q ! Vault) := n + 1]\<rparr>)"
  have m1: "page_state (m1 n) = page_state m" "mm_clk (m1 n) = mm_clk m" for n by (simp_all add: m1_def page_state_def)
  obtain n where n: "(if mm_pim_mode_enabled (m1 n) then send_pim (m1 n) q else send_link (m1 n) q) = Inr (b, m')"
    using assms unfolding send_def Let_def q_def [symmetric] bindR_eq_Inr m1_def by blast
  have "page_state m' = page_state (m1 n) \<and> mm_clk m' = mm_clk (m1 n)"
  proof (cases "mm_pim_mode_enabled (m1 n)")
    case True
    with n show ?thesis using send_pim_frame [of "m1 n" q b m'] by simp
  next
    case False
    with n show ?thesis using send_link_frame [of "m1 n" q b m'] by simp
  qed
  then show ?thesis using m1 by simp
qed

section \<open>Cycles\<close>

lemma receive_packets_frame:
  "receive_packets m p = Inr m' \<Longrightarrow> page_state m' = page_state m \<and> mm_clk m' = mm_clk m"
  by (auto simp: receive_packets_def page_state_def Let_def split: if_splits)

lemma receive_all_frame:
  "foldR (\<lambda>packet m. receive_packets m packet) ps m = Inr m' \<Longrightarrow> page_state m' = page_state m \<and> mm_clk m' = mm_clk m"
  by (induction ps arbitrary: m) (auto dest: receive_packets_frame)

lemma mem_tick_frame:
  assumes "mem_tick m = Inr m'"
  shows "page_state m' = page_state m \<and> mm_clk m' = mm_clk m + 1"
proof -
  define m1 where "m1 = m\<lparr>mm_clk := mm_clk m + 1, mm_num_dram_cycles := mm_num_dram_cycles m + 1\<rparr>"
  obtain k lls cs sent where
    "foldR (\<lambda>packet m. receive_packets m packet) sent
       (m1\<lparr>mm_active_cycles := k, mm_logic_layers := lls, mm_ctrls := cs\<rparr>) = Inr m'"
    using assms by (auto simp: mem_tick_def mem_cycle_def Let_def m1_def)
  from receive_all_frame [OF this] show ?thesis by (simp add: page_state_def m1_def)
qed

text \<open>The memory only calls back requests that carry the number of a core.\<close>

lemma responses_core:
  assumes "mem_inv m'"
  shows "\<forall>r\<in>set (responses m m'). core_in (mm_core_num m') r"
proof -
  have c: "core_in (mm_core_num m') r" if "c \<in> set (mm_ctrls m')" "r \<in> set (vc_done c)" for c r
    using assms that by (fastforce simp: mem_inv_def ctrls_ok_def in_set_conv_nth ctrl_inv_def base_inv_def)
  have "r \<in> set (mm_done m') \<or> (\<exists>c\<in>set (mm_ctrls m'). r \<in> set (vc_done c))" if "r \<in> set (responses m m')" for r
    using that by (auto simp: responses_def dest!: in_set_dropD dest: set_zip_rightD)
  moreover have "\<forall>r\<in>set (mm_done m'). core_in (mm_core_num m') r" using assms by (simp add: mem_inv_def)
  ultimately show ?thesis using c by blast
qed

section \<open>Pages\<close>

definition same_memory :: "hmc_mem \<Rightarrow> hmc_mem \<Rightarrow> bool" where
  "same_memory m m' \<longleftrightarrow>
     mm_hmc m' = mm_hmc m \<and> mm_clk m' = mm_clk m \<and> mm_pim_mode_enabled m' = mm_pim_mode_enabled m
     \<and> mm_type m' = mm_type m \<and> mm_translation m' = mm_translation m \<and> mm_tags_pools m' = mm_tags_pools m
     \<and> mm_ctrls m' = mm_ctrls m \<and> mm_logic_layers m' = mm_logic_layers m \<and> mm_addr_bits m' = mm_addr_bits m
     \<and> mm_requests_per_vault m' = mm_requests_per_vault m \<and> mm_tx_bits m' = mm_tx_bits m
     \<and> mm_max_address m' = mm_max_address m \<and> mm_capacity_per_stack m' = mm_capacity_per_stack m
     \<and> mm_mem_req_count m' = mm_mem_req_count m \<and> mm_core_num m' = mm_core_num m \<and> mm_done m' = mm_done m"

lemma same_memory_inv:
  "same_memory m m' \<Longrightarrow> mem_inv m' = mem_inv m \<and> mm_core_num m' = mm_core_num m \<and> mm_clk m' = mm_clk m \<and> mm_translation m' = mm_translation m"
  by (simp add: same_memory_def mem_inv_def host_ok_def geometry_def block_col_bits_def in_flight_def)

lemma same_memory_refl [simp]: "same_memory m m"
  by (simp add: same_memory_def)

lemma assign_page_frame:
  assumes "assign_page m t i r = Inr m'"
  shows "same_memory m m'"
proof (cases "mm_free_physical_pages_remaining m = 0")
  case True
  obtain k p where "m' = m\<lparr>mm_physical_page_replacement := k, mm_page_translation := p\<rparr>"
    using assms unfolding assign_page_def Let_def bindR_eq_Inr if_P [OF True] by blast
  then show ?thesis by (simp add: same_memory_def)
next
  case False
  obtain p f n where "m' = m\<lparr>mm_page_translation := p, mm_free_physical_pages := f, mm_free_physical_pages_remaining := n\<rparr>"
    using assms unfolding assign_page_def Let_def bindR_eq_Inr if_not_P [OF False] by blast
  then show ?thesis by (simp add: same_memory_def)
qed

lemma page_allocator_frame:
  assumes "page_allocator m adr i r = Inr (a, m')"
  shows "same_memory m m'"
proof (cases "mm_translation m")
  case TransNone
  then show ?thesis using assms by (simp add: page_allocator_def)
next
  case TransRandom
  let ?m = "m\<lparr>mm_memory_footprint := mm_memory_footprint m + 2 ^ 12\<rparr>" and ?t = "(i, drop_bit 12 adr)"
  have "m' = m \<or> assign_page ?m ?t i r = Inr m'"
    using assms unfolding page_allocator_def Let_def TransRandom translation.case bindR_eq_Inr
    by (elim exE conjE) (auto split: if_splits)
  moreover have "same_memory ?m m' \<Longrightarrow> same_memory m m'" by (simp add: same_memory_def)
  ultimately show ?thesis using assign_page_frame by auto
qed

lemma page_allocator_ok_mem:
  assumes "pages_ok m" "0 \<le> i"
  shows "\<exists>a m'. page_allocator m adr i r = Inr (a, m') \<and> pages_ok m'"
proof (cases "mm_translation m")
  case TransNone
  then show ?thesis using assms(1) by (simp add: page_allocator_def)
next
  case TransRandom
  then have "pages_inv m" using assms(1) by (simp add: pages_ok_def)
  from page_allocator_step [OF this TransRandom assms(2), of adr r]
  show ?thesis by (elim exE conjE) (auto simp: pages_ok_def)
qed

end
