(* ===== verification/Core_Props.thy ===== *)
theory Core_Props
  imports Core_Model
begin

text \<open>
  The behaviour of a core.  The interface \<open>core_port\<close> states what a core relies on when it calls the
  next cache or the memory: they do not fail and keep their own invariant.  Under it a cycle of a core
  never fails and keeps the core well formed; how many instructions a cycle can issue and retire
  follows from the window.
\<close>

unbundle bit_operations_syntax

section \<open>Well-formed cores\<close>

definition queue_ok :: "rqst_queue \<Rightarrow> bool" where
  "queue_ok q \<longleftrightarrow> length (sq_req_addr q) = length (sq_bubble_cnt q) \<and> length (sq_req_type q) = length (sq_bubble_cnt q)
     \<and> sq_number q = int (length (sq_bubble_cnt q))"

definition core_ok :: "core \<Rightarrow> bool" where
  "core_ok c \<longleftrightarrow> core_window (co_window c) \<and> queue_ok (co_rqst_queue c) \<and> 0 \<le> co_id c"

text \<open>
  The counters of an out-of-order core: every instruction is counted once, and the ones that were
  retired or are in the window are among them.
\<close>

definition accounted :: "core \<Rightarrow> bool" where
  "accounted c \<longleftrightarrow> cr_cpu_inst (co_stats c) = cr_memory_inst (co_stats c) + cr_non_memory_inst (co_stats c)
     \<and> co_retired c + wd_load (co_window c) \<le> cr_cpu_inst (co_stats c)"

lemma new_core_ok: "0 \<le> i \<Longrightarrow> core_ok (new_core i ty limit) \<and> accounted (new_core i ty limit)"
  using core_window_new
  by (simp add: core_ok_def accounted_def new_core_def queue_ok_def new_rqst_queue_def) (simp add: new_window_def)

lemma queue_ok_push: "queue_ok q \<Longrightarrow> queue_ok (push_request b a ty q)"
  by (simp add: queue_ok_def push_request_def)

lemma queue_ok_pop: "queue_ok q \<Longrightarrow> queue_ok (pop_front q)"
  by (cases "sq_bubble_cnt q") (auto simp: queue_ok_def pop_front_def queue_is_empty_def)

text \<open>What the bookkeeping of a core leaves alone.\<close>

definition same_core :: "core \<Rightarrow> core \<Rightarrow> bool" where
  "same_core c d \<longleftrightarrow> co_window d = co_window c \<and> co_rqst_queue d = co_rqst_queue c \<and> co_id d = co_id c
     \<and> co_retired d = co_retired c \<and> cr_cpu_inst (co_stats d) = cr_cpu_inst (co_stats c)
     \<and> cr_memory_inst (co_stats d) = cr_memory_inst (co_stats c)
     \<and> cr_non_memory_inst (co_stats d) = cr_non_memory_inst (co_stats c) \<and> co_cpu_type d = co_cpu_type c"

lemma same_core_ok: "same_core c d \<Longrightarrow> core_ok d = core_ok c" "same_core c d \<Longrightarrow> accounted d = accounted c"
  by (simp_all add: same_core_def core_ok_def accounted_def)

lemma same_core_simps [simp]:
  "same_core c (count_idle c)" "same_core c (fst (check_limit env c e))" "same_core c (fst (trace_over env c e))"
  "same_core c (fst (record_limit env c e))" "same_core c (c\<lparr>co_clk := k\<rparr>)" "same_core c (c\<lparr>co_more_reqs := m\<rparr>)"
  by (simp_all add: same_core_def count_idle_def upd_stats_core_def check_limit_def trace_over_def record_limit_def)

lemma same_core_trans: "same_core c d \<Longrightarrow> same_core d f \<Longrightarrow> same_core c f"
  by (simp add: same_core_def)

lemma next_from_queue_ok: "core_ok c \<Longrightarrow> core_ok (next_from_queue c)"
  using queue_ok_pop by (simp add: next_from_queue_def core_ok_def Let_def)

lemma next_from_queue_counts:
  "co_window (next_from_queue c) = co_window c" "co_stats (next_from_queue c) = co_stats c"
  "co_retired (next_from_queue c) = co_retired c" "co_id (next_from_queue c) = co_id c"
  "co_cpu_type (next_from_queue c) = co_cpu_type c"
  by (simp_all add: next_from_queue_def Let_def)

section \<open>The window of a core\<close>

lemma window_load: "core_window w \<Longrightarrow> wd_load w = int (length (contents w)) \<and> wd_ipc w = 4"
  by (simp add: core_window_def window_inv_def)

lemma core_insert:
  assumes "core_window w" "\<not> window_is_full w"
  shows "\<exists>w'. window_insert r a w = Inr w' \<and> core_window w' \<and> wd_load w' = wd_load w + 1"
proof -
  obtain w' where w': "window_insert r a w = Inr w'" "core_window w'" "contents w' = contents w @ [(r, a)]"
    using core.insert_ok [OF assms] by blast
  then show ?thesis using window_load [OF assms(1)] window_load [OF w'(2)] by auto
qed

lemma core_retire:
  assumes "core_window w"
  shows "\<exists>n w'. window_retire w = Inr (n, w') \<and> core_window w' \<and> 0 \<le> n \<and> n \<le> 4 \<and> wd_load w' = wd_load w - n"
proof -
  define k where "k = min 4 (length (takeWhile fst (contents w)))"
  obtain w' where w': "window_retire w = Inr (int k, w')" "core_window w'" "contents w' = drop k (contents w)"
    using core.retire_ok [OF assms] unfolding k_def by blast
  have "k \<le> 4" "k \<le> length (contents w)"
    using length_takeWhile_le [of fst "contents w"] unfolding k_def by linarith+
  moreover have "wd_load w' = wd_load w - int k"
    using w'(3) window_load [OF assms] window_load [OF w'(2)] \<open>k \<le> length (contents w)\<close>
    by (metis length_drop of_nat_diff)
  ultimately show ?thesis using w'(1,2) by (intro exI conjI) (assumption | simp)+
qed

section \<open>Counting the instructions of a cycle\<close>

text \<open>A core after \<open>k\<close> more bubbles.\<close>

definition bubbled :: "int \<Rightarrow> core \<Rightarrow> core \<Rightarrow> bool" where
  "bubbled k c d \<longleftrightarrow> core_window (co_window d) \<and> wd_load (co_window d) = wd_load (co_window c) + k
     \<and> co_rqst_queue d = co_rqst_queue c \<and> co_id d = co_id c \<and> co_retired d = co_retired c
     \<and> cr_cpu_inst (co_stats d) = cr_cpu_inst (co_stats c) + k \<and> cr_memory_inst (co_stats d) = cr_memory_inst (co_stats c)
     \<and> cr_non_memory_inst (co_stats d) = cr_non_memory_inst (co_stats c) + k \<and> co_cpu_type d = co_cpu_type c"

text \<open>The loop body, and the ways to leave the loop.\<close>

definition bubble :: "window \<Rightarrow> core \<Rightarrow> core" where
  "bubble w c = count_bubble (c\<lparr>co_window := w, co_bubble_cnt := co_bubble_cnt c - 1\<rparr>)"

lemma bubbles_step:
  assumes "0 < co_bubble_cnt c" "i \<noteq> wd_ipc (co_window c)" "\<not> window_is_full (co_window c)"
    "window_insert True (-1) (co_window c) = Inr w"
  shows "bubbles_outOrder env i c e =
    bubbles_outOrder env (i + 1) (fst (check_limit env (bubble w c) e)) (snd (check_limit env (bubble w c) e))"
  using assms by (subst bubbles_outOrder.simps) (simp add: split_def bubble_def Let_def)

lemma bubbles_leave:
  assumes "\<not> (0 < co_bubble_cnt c \<and> i \<noteq> wd_ipc (co_window c) \<and> \<not> window_is_full (co_window c))"
  shows "\<exists>stop c'. bubbles_outOrder env i c e = Inr (stop, i, c', e) \<and> same_core c c'"
proof -
  have "same_core c c" by (simp add: same_core_def)
  with assms show ?thesis by (subst bubbles_outOrder.simps) auto
qed

lemma bubble_bubbled:
  assumes "core_window (co_window c)" "\<not> window_is_full (co_window c)" "window_insert True (-1) (co_window c) = Inr w"
    "same_core (bubble w c) d"
  shows "bubbled 1 c d"
  using core_insert [OF assms(1,2), of True "-1"] assms(3,4)
  by (simp add: bubbled_def same_core_def bubble_def count_bubble_def upd_stats_core_def)

lemma bubbled_trans: "bubbled k c d \<Longrightarrow> bubbled m d f \<Longrightarrow> bubbled (k + m) c f"
  by (simp add: bubbled_def)

text \<open>
  An induction principle for the loop: it either leaves at once or executes the body and goes on with
  the result of the bookkeeping.
\<close>

lemma bubbles_run:
  assumes "core_window (co_window c)" "0 \<le> i" "i \<le> 4" and "ok e"
    and rec: "\<And>e. ok e \<Longrightarrow> ok (ce_record_core env (co_id c) e)"
  shows "\<exists>stop j c' e'. bubbles_outOrder env i c e = Inr (stop, j, c', e') \<and> bubbled (j - i) c c' \<and> i \<le> j \<and> j \<le> 4 \<and> ok e'"
  using assms
proof (induction "nat (co_bubble_cnt c)" arbitrary: i c e rule: less_induct)
  case less
  have ipc: "wd_ipc (co_window c) = 4" using window_load [OF less.prems(1)] ..
  show ?case
  proof (cases "0 < co_bubble_cnt c \<and> i \<noteq> wd_ipc (co_window c) \<and> \<not> window_is_full (co_window c)")
    case False
    from bubbles_leave [OF False, of env e]
    obtain stop c' where "bubbles_outOrder env i c e = Inr (stop, i, c', e)" "same_core c c'" by blast
    then show ?thesis using less.prems by (simp add: bubbled_def same_core_def)
  next
    case True
    then obtain w where w: "window_insert True (-1) (co_window c) = Inr w"
      using core_insert [OF less.prems(1), of True "-1"] by blast
    define d where "d = fst (check_limit env (bubble w c) e)"
    define f where "f = snd (check_limit env (bubble w c) e)"
    have b: "bubbled 1 c d" using bubble_bubbled [OF less.prems(1) _ w, of d] True by (simp add: d_def)
    have f: "ok f" using less.prems(4,5)
      by (simp add: f_def check_limit_def record_limit_def bubble_def count_bubble_def upd_stats_core_def)
    have m: "nat (co_bubble_cnt d) < nat (co_bubble_cnt c)"
      using True by (simp add: d_def bubble_def count_bubble_def upd_stats_core_def)
    have "core_window (co_window d)" "co_id d = co_id c" using b by (simp_all add: bubbled_def)
    then have "\<exists>stop j c' e'. bubbles_outOrder env (i + 1) d f = Inr (stop, j, c', e') \<and> bubbled (j - (i + 1)) d c'
        \<and> i + 1 \<le> j \<and> j \<le> 4 \<and> ok e'"
      using less.hyps [OF m, of "i + 1" f] f less.prems True ipc by simp
    then obtain stop j c' e' where r: "bubbles_outOrder env (i + 1) d f = Inr (stop, j, c', e')"
      "bubbled (j - (i + 1)) d c'" "i + 1 \<le> j" "j \<le> 4" "ok e'" by blast
    have "bubbles_outOrder env i c e = Inr (stop, j, c', e')"
      using bubbles_step [of c i w env e] True w r(1) by (simp add: d_def f_def)
    moreover have "bubbled (j - i) c c'" using bubbled_trans [OF b r(2)] by simp
    ultimately show ?thesis using r(3-5) by (intro exI conjI) (assumption | simp)+
  qed
qed

text \<open>A core after its memory access, and after a whole cycle.\<close>

definition accessed :: "core \<Rightarrow> core \<Rightarrow> bool" where
  "accessed c d \<longleftrightarrow> core_ok d \<and> co_id d = co_id c \<and> co_cpu_type d = co_cpu_type c \<and> co_retired d = co_retired c
     \<and> cr_non_memory_inst (co_stats d) = cr_non_memory_inst (co_stats c)
     \<and> (\<exists>k l. 0 \<le> l \<and> l \<le> k \<and> k \<le> 1 \<and> cr_cpu_inst (co_stats d) = cr_cpu_inst (co_stats c) + k
          \<and> cr_memory_inst (co_stats d) = cr_memory_inst (co_stats c) + k
          \<and> wd_load (co_window d) = wd_load (co_window c) + l)"

definition cycled :: "core \<Rightarrow> core \<Rightarrow> bool" where
  "cycled c d \<longleftrightarrow> core_ok d \<and> co_id d = co_id c \<and> co_cpu_type d = co_cpu_type c
     \<and> co_retired c \<le> co_retired d \<and> co_retired d \<le> co_retired c + 4
     \<and> cr_cpu_inst (co_stats c) \<le> cr_cpu_inst (co_stats d) \<and> cr_cpu_inst (co_stats d) \<le> cr_cpu_inst (co_stats c) + 5
     \<and> (co_cpu_type c = ''outOrder'' \<and> accounted c \<longrightarrow> accounted d)"

lemma accessed_same: "core_ok c \<Longrightarrow> same_core c d \<Longrightarrow> accessed c d"
  unfolding accessed_def same_core_def core_ok_def by (auto intro: exI [of _ 0])

lemma accessed_memory:
  assumes "core_ok c" "core_window w" "wd_load w = wd_load (co_window c) + l" "0 \<le> l" "l \<le> 1"
  shows "accessed c (count_memory (c\<lparr>co_window := w\<rparr>))"
  using assms unfolding accessed_def core_ok_def
  by (simp add: count_memory_def upd_stats_core_def)

text \<open>An in-order core after \<open>k\<close> bubbles, and after its memory access.\<close>

definition bubbled_in :: "int \<Rightarrow> core \<Rightarrow> core \<Rightarrow> bool" where
  "bubbled_in k c d \<longleftrightarrow> co_window d = co_window c \<and> co_rqst_queue d = co_rqst_queue c \<and> co_id d = co_id c
     \<and> co_retired d = co_retired c + k \<and> cr_cpu_inst (co_stats d) = cr_cpu_inst (co_stats c) + k
     \<and> co_cpu_type d = co_cpu_type c \<and> co_req_type d = co_req_type c"

definition accessed_in :: "core \<Rightarrow> core \<Rightarrow> bool" where
  "accessed_in c d \<longleftrightarrow> core_ok d \<and> co_id d = co_id c \<and> co_cpu_type d = co_cpu_type c \<and> co_retired d = co_retired c
     \<and> cr_cpu_inst (co_stats c) \<le> cr_cpu_inst (co_stats d) \<and> cr_cpu_inst (co_stats d) \<le> cr_cpu_inst (co_stats c) + 1"

definition bubble_in :: "core \<Rightarrow> core" where
  "bubble_in c = count_cpu (c\<lparr>co_bubble_cnt := co_bubble_cnt c - 1, co_retired := co_retired c + 1\<rparr>)"

lemma bubbles_in_step:
  assumes "0 < co_bubble_cnt c" "i \<noteq> wd_ipc (co_window c)"
  shows "bubbles_inOrder env i c e =
    bubbles_inOrder env (i + 1) (fst (check_limit env (bubble_in c) e)) (snd (check_limit env (bubble_in c) e))"
  using assms by (subst bubbles_inOrder.simps) (simp add: split_def bubble_in_def Let_def)

lemma bubbles_in_run:
  assumes "wd_ipc (co_window c) = 4" "0 \<le> i" "i \<le> 4" and "ok e"
    and rec: "\<And>e. ok e \<Longrightarrow> ok (ce_record_core env (co_id c) e)"
  shows "\<exists>stop j c' e'. bubbles_inOrder env i c e = (stop, j, c', e') \<and> bubbled_in (j - i) c c' \<and> i \<le> j \<and> j \<le> 4 \<and> ok e'"
  using assms
proof (induction "nat (co_bubble_cnt c)" arbitrary: i c e rule: less_induct)
  case less
  show ?case
  proof (cases "0 < co_bubble_cnt c \<and> i \<noteq> 4")
    case False
    then show ?thesis using less.prems by (subst bubbles_inOrder.simps) (auto simp: bubbled_in_def)
  next
    case True
    define d where "d = fst (check_limit env (bubble_in c) e)"
    define f where "f = snd (check_limit env (bubble_in c) e)"
    have b: "bubbled_in 1 c d"
      by (simp add: d_def bubble_in_def bubbled_in_def count_cpu_def upd_stats_core_def check_limit_def record_limit_def)
    have f: "ok f" using less.prems(4,5)
      by (simp add: f_def check_limit_def record_limit_def bubble_in_def count_cpu_def upd_stats_core_def)
    have m: "nat (co_bubble_cnt d) < nat (co_bubble_cnt c)"
      using True by (simp add: d_def bubble_in_def count_cpu_def upd_stats_core_def)
    have "co_window d = co_window c" "co_id d = co_id c" using b by (simp_all add: bubbled_in_def)
    then have "\<exists>stop j c' e'. bubbles_inOrder env (i + 1) d f = (stop, j, c', e') \<and> bubbled_in (j - (i + 1)) d c'
        \<and> i + 1 \<le> j \<and> j \<le> 4 \<and> ok e'"
      using less.hyps [OF m, of "i + 1" f] f less.prems True by simp
    then obtain stop j c' e' where r: "bubbles_inOrder env (i + 1) d f = (stop, j, c', e')"
      "bubbled_in (j - (i + 1)) d c'" "i + 1 \<le> j" "j \<le> 4" "ok e'" by blast
    have "bubbles_inOrder env i c e = (stop, j, c', e')"
      using bubbles_in_step [of c i env e] True less.prems(1) r(1) by (simp add: d_def f_def)
    moreover have "bubbled_in (j - i) c c'" using b r(2) by (simp add: bubbled_in_def)
    ultimately show ?thesis using r(3-5) by (intro exI conjI) (assumption | simp)+
  qed
qed

section \<open>The interface to the memory side\<close>

locale core_port =
  fixes env :: "'e core_env" and ok :: "'e \<Rightarrow> bool" and coreid :: int
  assumes send_ok: "ok e \<Longrightarrow> rq_type r = READ \<or> rq_type r = WRITE \<Longrightarrow> rq_is_first_command r \<Longrightarrow> rq_coreid r = coreid \<Longrightarrow>
      \<exists>b e'. ce_send env r e = Inr (b, e') \<and> ok e'"
    and page_ok: "ok e \<Longrightarrow> 0 \<le> i \<Longrightarrow> \<exists>a e'. ce_page_allocator env adr i e = Inr (a, e') \<and> ok e'"
    and record_ok: "ok e \<Longrightarrow> ok (ce_record_core env i e)"
begin

lemma access_outOrder_ok:
  assumes "core_ok c" "ok e" "co_id c = coreid"
  shows "\<exists>b c' e'. access_outOrder env j c e = Inr (b, c', e') \<and> accessed c c' \<and> ok e'"
proof -
  have self: "accessed c c" "accessed c (count_idle c)"
    using assms(1) by (auto intro!: accessed_same simp: same_core_def count_idle_def upd_stats_core_def)
  have snd: "\<exists>b e'. ce_send env r e = Inr (b, e') \<and> ok e'"
    if "r = mk_request a READ (co_id c) \<or> r = mk_request a WRITE (co_id c)
      \<or> r = (mk_request a READ (co_id c))\<lparr>rq_instruction_request := True\<rparr>" for r a
    using that assms(3) by (intro send_ok [OF assms(2)]) (auto simp: mk_request_def)
  have win: "core_window (co_window c)" using assms(1) by (simp add: core_ok_def)
  show ?thesis
  proof (cases "co_req_type c")
    case READ
    obtain b e' where b: "ce_send env (mk_request (co_req_addr c) READ (co_id c)) e = Inr (b, e')" "ok e'"
      using snd by blast
    show ?thesis
    proof (cases "j = wd_ipc (co_window c) \<or> window_is_full (co_window c) \<or> \<not> b")
      case True
      then show ?thesis using READ b self assms(2) by (auto simp: access_outOrder_def)
    next
      case False
      obtain w where w: "window_insert False (co_req_addr c) (co_window c) = Inr w" "core_window w"
        "wd_load w = wd_load (co_window c) + 1" using core_insert [OF win] False by blast
      then have "accessed c (count_memory (c\<lparr>co_window := w\<rparr>))" by (intro accessed_memory [OF assms(1)]) auto
      with w b False READ show ?thesis by (intro exI [of _ True]) (simp add: access_outOrder_def)
    qed
  next
    case WRITE
    obtain b e' where b: "ce_send env (mk_request (co_req_addr c) WRITE (co_id c)) e = Inr (b, e')" "ok e'"
      using snd by blast
    have "accessed c (count_memory (c\<lparr>co_window := co_window c\<rparr>))" by (intro accessed_memory [OF assms(1) win]) auto
    then show ?thesis using b WRITE self by (auto simp: access_outOrder_def)
  next
    case INSTRUCTION
    obtain b e' where b: "ce_send env ((mk_request (co_req_addr c) READ (co_id c))\<lparr>rq_instruction_request := True\<rparr>) e
      = Inr (b, e')" "ok e'" using snd by blast
    then show ?thesis using INSTRUCTION self assms(2) by (auto simp: access_outOrder_def)
  qed (use self assms(2) in \<open>auto simp: access_outOrder_def\<close>)
qed

text \<open>The next request changes neither window nor counters.\<close>

lemma next_request_ok:
  assumes "core_ok c" "ok e"
  shows "\<exists>c' e'. (if co_split_trace c then next_from_trace env c e else Inr (next_from_queue c, e)) = Inr (c', e')
    \<and> core_ok c' \<and> ok e' \<and> co_window c' = co_window c \<and> co_stats c' = co_stats c \<and> co_retired c' = co_retired c
    \<and> co_id c' = co_id c \<and> co_cpu_type c' = co_cpu_type c"
proof (cases "co_split_trace c")
  case False
  then show ?thesis using assms next_from_queue_ok by (simp add: next_from_queue_counts)
next
  case True
  obtain more z t where z: "get_zsim_request (co_trace_per_core c)
      \<lparr>zr_bubble_cnt = co_bubble_cnt c, zr_addr = co_req_addr c, zr_type = co_req_type c, zr_cpu_id = 0\<rparr> = (more, z, t)"
    using prod_cases3 by blast
  obtain a e' where "ce_page_allocator env (zr_addr z) (co_id c) e = Inr (a, e')" "ok e'"
    using page_ok [OF assms(2), of "co_id c" "zr_addr z"] assms(1) by (auto simp: core_ok_def)
  with True z assms(1) show ?thesis by (simp add: next_from_trace_def core_ok_def)
qed

lemma tick_outOrder_ok:
  assumes "core_ok c0" "ok e0" "co_id c0 = coreid"
  shows "\<exists>c' e'. tick_outOrder env c0 e0 = Inr (c', e') \<and> cycled c0 c' \<and> ok e'"
proof -
  have win: "core_window (co_window c0)" using assms(1) by (simp add: core_ok_def)
  obtain n w where w: "window_retire (co_window c0) = Inr (n, w)" "core_window w" "0 \<le> n" "n \<le> 4"
    "wd_load w = wd_load (co_window c0) - n" using core_retire [OF win] by blast
  define c where "c = c0\<lparr>co_window := w, co_retired := co_retired c0 + n\<rparr>"
  have c: "core_ok c" "co_id c = co_id c0" "co_cpu_type c = co_cpu_type c0" "co_stats c = co_stats c0"
    "co_retired c = co_retired c0 + n" "wd_load (co_window c) = wd_load (co_window c0) - n"
    using assms(1) w by (simp_all add: c_def core_ok_def)
  have cyc: "cycled c0 d" if "accessed c1 d" "bubbled j c c1" "0 \<le> j" "j \<le> 4" for d c1 j
    using that c w(3,4) by (auto simp: cycled_def accessed_def bubbled_def accounted_def)
  have b0: "bubbled 0 c c" using c(1) by (simp add: bubbled_def core_ok_def)
  obtain stop j c1 e1 where b: "bubbles_outOrder env 0 c e0 = Inr (stop, j, c1, e1)" "bubbled j c c1" "0 \<le> j" "j \<le> 4" "ok e1"
    using bubbles_run [of c 0 ok e0 env] c(1) assms(2) record_ok by (auto simp: core_ok_def)
  have c1: "core_ok c1" using b(2) c(1) by (simp add: core_ok_def bubbled_def)
  obtain acc c2 e2 where a: "access_outOrder env j c1 e1 = Inr (acc, c2, e2)" "accessed c1 c2" "ok e2"
    using access_outOrder_ok [OF c1 b(5), of j] b(2) c(2) assms(3) by (auto simp: bubbled_def)
  have "core_ok c2" using a(2) by (simp add: accessed_def)
  from next_request_ok [OF this a(3)] obtain c3 e3 where
    x: "(if co_split_trace c2 then next_from_trace env c2 e2 else Inr (next_from_queue c2, e2)) = Inr (c3, e3)"
    "core_ok c3" "ok e3" "co_window c3 = co_window c2" "co_stats c3 = co_stats c2" "co_retired c3 = co_retired c2"
    "co_id c3 = co_id c2" "co_cpu_type c3 = co_cpu_type c2" by blast
  define d where "d = fst (trace_over env c3 e3)"
  have d: "same_core c3 d" by (simp add: d_def)
  have "accessed c1 d" using a(2) x(2,4-8) d same_core_ok(1) [OF d] by (simp add: accessed_def same_core_def)
  moreover have "ok (snd (trace_over env c3 e3))" using x(3) record_ok by (simp add: trace_over_def record_limit_def)
  moreover have "accessed c c" using accessed_same [OF c(1)] by (simp add: same_core_def)
  moreover have "accessed c1 c1" using accessed_same [OF c1] by (simp add: same_core_def)
  ultimately show ?thesis
    using w(1) b a x(1) assms(2) cyc [of c c 0] b0 cyc [of c1 c1 j] cyc [of c1 c2 j] cyc [of c1 d j]
    unfolding tick_outOrder_def
    by (cases "trace_over env c3 e3") (auto simp: d_def simp flip: c_def)
qed

lemma access_inOrder_ok:
  assumes "core_ok c" "ok e" "co_id c = coreid"
  shows "\<exists>b c' e'. access_inOrder env j c e = Inr (b, c', e') \<and> accessed_in c c' \<and> ok e'"
proof -
  have self: "accessed_in c c" "accessed_in c (count_cpu c)"
    "accessed_in c (c\<lparr>co_inFlightMemoryAccess := k, co_lock_core := l\<rparr>)" for k l
    using assms(1) by (auto simp: accessed_in_def core_ok_def count_cpu_def upd_stats_core_def)
  have snd: "\<exists>b e'. ce_send env r e = Inr (b, e') \<and> ok e'"
    if "r = mk_request a WRITE (co_id c) \<or> r = (mk_request a READ (co_id c))\<lparr>rq_instruction_request := True\<rparr>" for r a
    using that assms(3) by (intro send_ok [OF assms(2)]) (auto simp: mk_request_def)
  obtain b1 e1 where w: "ce_send env (mk_request (co_req_addr c) WRITE (co_id c)) e = Inr (b1, e1)" "ok e1"
    using snd by blast
  obtain b2 e2 where r: "ce_send env ((mk_request (co_req_addr c) READ (co_id c))\<lparr>rq_instruction_request := True\<rparr>) e
    = Inr (b2, e2)" "ok e2" using snd by blast
  show ?thesis using self assms(2) w r by (cases "co_req_type c") (auto simp: access_inOrder_def)
qed

lemma tick_inOrder_ok:
  assumes "core_ok c" "ok e" "co_id c = coreid" "co_cpu_type c \<noteq> ''outOrder''"
  shows "\<exists>c' e'. tick_inOrder env c e = Inr (c', e') \<and> cycled c c' \<and> ok e'"
proof -
  have ipc: "wd_ipc (co_window c) = 4" using assms(1) window_load by (simp add: core_ok_def)
  obtain stop j c1 e1 where b: "bubbles_inOrder env 0 c e = (stop, j, c1, e1)" "bubbled_in j c c1" "0 \<le> j" "j \<le> 4" "ok e1"
    using bubbles_in_run [of c 0 ok e env] ipc assms(2) record_ok by auto
  have c1: "core_ok c1" using b(2) assms(1) by (simp add: core_ok_def bubbled_in_def)
  obtain acc c2 e2 where a: "access_inOrder env j c1 e1 = Inr (acc, c2, e2)" "accessed_in c1 c2" "ok e2"
    using access_inOrder_ok [OF c1 b(5), of j] b(2) assms(3) by (auto simp: bubbled_in_def)
  define c3 where "c3 = next_from_queue c2"
  define d where "d = fst (trace_over env c3 e2)"
  have d: "same_core c3 d" by (simp add: d_def)
  have "accessed_in c1 d"
    using a(2) next_from_queue_ok [of c2] next_from_queue_counts [of c2] d same_core_ok(1) [OF d]
    by (simp add: accessed_in_def same_core_def c3_def)
  then have "cycled c d" "cycled c c1" "cycled c c2" "cycled c c"
    using a(2) b(2-4) c1 assms(1,4) by (auto simp: cycled_def accessed_in_def bubbled_in_def)
  moreover have "ok (snd (trace_over env c3 e2))" using a(3) record_ok by (simp add: trace_over_def record_limit_def)
  ultimately show ?thesis
    using b a assms(2) unfolding tick_inOrder_def
    by (cases "trace_over env c3 e2") (auto simp: d_def simp flip: c3_def)
qed

lemma core_tick_ok:
  assumes "core_ok c" "ok e" "co_id c = coreid"
  shows "\<exists>c' e'. core_tick env c e = Inr (c', e') \<and> cycled c c' \<and> ok e'"
proof -
  define d where "d = c\<lparr>co_clk := co_clk c + 1\<rparr>"
  have d: "same_core c d" by (simp add: d_def)
  have "core_ok d" using same_core_ok(1) [OF d] assms(1) by simp
  moreover have "co_id d = coreid" using assms(3) by (simp add: d_def)
  ultimately have in_out: "co_cpu_type d \<noteq> ''outOrder'' \<Longrightarrow> \<exists>c' e'. tick_inOrder env d e = Inr (c', e') \<and> cycled d c' \<and> ok e'"
    "\<exists>c' e'. tick_outOrder env d e = Inr (c', e') \<and> cycled d c' \<and> ok e'"
    using tick_inOrder_ok [OF _ assms(2)] tick_outOrder_ok [OF _ assms(2)] by blast+
  have cyc: "cycled c c'" if "cycled d c'" for c'
    using that d same_core_ok(2) [OF d] by (simp add: cycled_def same_core_def)
  have "cycled c d" using same_core_ok [OF d] d assms(1) by (simp add: cycled_def same_core_def)
  then show ?thesis
    using in_out cyc assms(2) unfolding core_tick_def Let_def d_def [symmetric]
    by (cases "co_cpu_type d = ''inOrder''"; cases "co_cpu_type d = ''outOrder''") auto
qed

end

text \<open>A response neither issues nor retires an instruction.\<close>

lemma core_receive_ok:
  assumes "core_ok c"
  shows "\<exists>c'. core_receive req c = Inr c' \<and> core_ok c' \<and> co_id c' = co_id c \<and> co_cpu_type c' = co_cpu_type c
    \<and> co_retired c' = co_retired c \<and> cr_cpu_inst (co_stats c') = cr_cpu_inst (co_stats c)
    \<and> (accounted c \<longrightarrow> accounted c')"
proof -
  have win: "core_window (co_window c)" using assms by (simp add: core_ok_def)
  obtain w where w: "window_set_ready (rq_addr req) (NOT (64 - 1)) (co_window c) = Inr w" "core_window w"
    "contents w = map (wake (rq_addr req) (NOT (64 - 1))) (contents (co_window c))"
    using core.set_ready_ok [OF win] by blast
  then have "wd_load w = wd_load (co_window c)" using window_load [OF win] window_load [OF w(2)] by simp
  with w(1,2) assms show ?thesis by (auto simp: core_receive_def Let_def core_ok_def accounted_def upd_stats_core_def)
qed

section \<open>Reads of the in-order core\<close>

lemma check_limit_send: "check_limit (env\<lparr>ce_send := f\<rparr>) c e = check_limit env c e"
  by (simp add: check_limit_def record_limit_def)

lemma trace_over_send: "trace_over (env\<lparr>ce_send := f\<rparr>) c e = trace_over env c e"
  by (simp add: trace_over_def record_limit_def)

lemma bubbles_in_send: "bubbles_inOrder (env\<lparr>ce_send := f\<rparr>) i c e = bubbles_inOrder env i c e"
proof (induction env i c e rule: bubbles_inOrder.induct)
  case (1 env i c e)
  let ?d = "check_limit env (count_cpu (c\<lparr>co_bubble_cnt := co_bubble_cnt c - 1, co_retired := co_retired c + 1\<rparr>)) e"
  show ?case
    using 1 [of ?d "fst ?d" "snd ?d"] by (subst (1 2) bubbles_inOrder.simps) (simp add: check_limit_send split_def Let_def)
qed

lemma bubbles_in_type: "bubbles_inOrder env i c e = (b, j, d, e') \<Longrightarrow> co_req_type d = co_req_type c"
proof (induction env i c e rule: bubbles_inOrder.induct)
  case (1 env i c e)
  let ?c = "count_cpu (c\<lparr>co_bubble_cnt := co_bubble_cnt c - 1, co_retired := co_retired c + 1\<rparr>)"
  have "co_req_type (fst (check_limit env ?c e)) = co_req_type c"
    by (simp add: check_limit_def record_limit_def upd_stats_core_def count_cpu_def)
  then show ?case
    using 1(1) [of "check_limit env ?c e" "fst (check_limit env ?c e)" "snd (check_limit env ?c e)"] 1(2)
    by (subst (asm) bubbles_inOrder.simps) (auto simp: split_def Let_def split: if_splits)
qed

lemma access_in_read:
  "co_req_type c = READ \<Longrightarrow> access_inOrder (env\<lparr>ce_send := f\<rparr>) i c e = access_inOrder env i c e"
  by (simp add: access_inOrder_def)

text \<open>
  C37.  The in-order core does not send its reads: a cycle in which the current request is a \<open>READ\<close> does the
  same whatever the next cache or the memory would do with a request.  The branch that sends reads is
  guarded by the condition of the branch before it.
\<close>

theorem inorder_reads_not_sent:
  assumes "co_req_type c = READ"
  shows "tick_inOrder (env\<lparr>ce_send := f\<rparr>) c e = tick_inOrder env c e"
proof -
  obtain b j d e' where b: "bubbles_inOrder env 0 c e = (b, j, d, e')" using prod_cases4 by blast
  then have "co_req_type d = READ" using bubbles_in_type [OF b] assms by simp
  then show ?thesis unfolding tick_inOrder_def bubbles_in_send b trace_over_send by (simp add: access_in_read)
qed

text \<open>An environment that refuses every request.\<close>

definition sample_env :: "unit core_env" where
  "sample_env = \<lparr>ce_send = (\<lambda>_ e. Inr (False, e)), ce_page_allocator = (\<lambda>a _ e. Inr (a, e)), ce_record_core = (\<lambda>_ e. e)\<rparr>"

theorem inorder_reads_not_sent_witness:
  "tick_inOrder (sample_env\<lparr>ce_send := (\<lambda>_ e. Inl NullPointer)\<rparr>) (new_core 0 ''inOrder'' 5) ()
     = tick_inOrder sample_env (new_core 0 ''inOrder'' 5) ()"
proof -
  have "co_req_type (new_core 0 ''inOrder'' 5) = READ" by (simp add: new_core_def)
  from inorder_reads_not_sent [OF this] show ?thesis .
qed

end
