(* ===== verification/Cache_Store.thy ===== *)
theory Cache_Store
  imports Cache_Model
begin

text \<open>
  The contents of one cache: the geometry of its addresses, the invariant that ties its sets to its
  MSHR entries, and how the elementary changes of a set (removing an unlocked line, appending a line,
  rewriting lines in place, unlocking a line) keep it.
\<close>

unbundle bit_operations_syntax

section \<open>Geometry\<close>

lemma pow2_test:
  assumes "0 < (x :: int)" "x AND (x - 1) = 0"
  shows "\<exists>k. x = 2 ^ k"
  using assms
proof (induction "nat x" arbitrary: x rule: less_induct)
  case less
  show ?case
  proof (cases "even x")
    case True
    then obtain y where y: "x = 2 * y" by blast
    have "(2 * y - 1) div 2 = y - 1" by simp
    then have "(2 * y) AND (2 * y - 1) = 2 * (y AND (y - 1))"
      by (simp add: and_int_rec [of "2 * y"])
    then have "y AND (y - 1) = 0" using less.prems(2) y by simp
    moreover have "0 < y" "nat y < nat x" using less.prems(1) y by simp_all
    ultimately obtain k where "y = 2 ^ k" using less.hyps by blast
    then show ?thesis using y by (intro exI [of _ "Suc k"]) simp
  next
    case False
    then obtain y where y: "x = 2 * y + 1" by (blast elim: oddE)
    have "x AND (x - 1) = 2 * y" by (simp add: y and_int_rec [of "2 * y + 1"])
    then have "x = 2 ^ 0" using less.prems(2) y by simp
    then show ?thesis by blast
  qed
qed

definition cache_geo :: "cache \<Rightarrow> bool" where
    "cache_geo c \<longleftrightarrow> ca_block_size c = 2 ^ ca_index_offset c \<and> ca_index_offset c \<le>
    ca_tag_offset c
     \<and> ca_tag_offset c - ca_index_offset c \<le> 31
     \<and> ca_index_mask c = 2 ^ (ca_tag_offset c - ca_index_offset c) - 1"

lemma cache_geo_cong:
  assumes "cache_geo c"
  shows "align c a = align c b \<longleftrightarrow> get_index c a = get_index c b \<and> get_tag c a = get_tag c b"
proof -
  define b0 where "b0 = ca_index_offset c"
  obtain k where k: "ca_tag_offset c = b0 + k"
    using assms le_Suc_ex unfolding cache_geo_def b0_def by blast
  have al: "align c x = 2 ^ b0 * (x div 2 ^ b0)" for x
  proof -
    have "align c x = x AND NOT (mask b0)"
      using assms by (simp add: align_def cache_geo_def b0_def mask_eq_exp_minus_1)
    also have "\<dots> = push_bit b0 (drop_bit b0 x)" by (rule bit_eqI) (auto simp: bit_simps)
    also have "\<dots> = 2 ^ b0 * (x div 2 ^ b0)" by (simp add: push_bit_eq_mult drop_bit_eq_div)
    finally show ?thesis .
  qed
  have ix: "get_index c x = (x div 2 ^ b0) mod 2 ^ k" for x
  proof -
    have "get_index c x = signed_take_bit 31 ((x div 2 ^ b0) mod 2 ^ k)"
      using assms k by (simp add: get_index_def cache_geo_def flip: b0_def mask_eq_exp_minus_1 take_bit_eq_mask)
        (simp add: take_bit_eq_mod drop_bit_eq_div)
    moreover have "(x div 2 ^ b0) mod 2 ^ k < 2 ^ k" "0 \<le> (x div 2 ^ b0) mod 2 ^ k" "(2 :: int) ^ k \<le> 2 ^ 31"
      using assms k power_increasing [of k 31 "2 :: int"] by (simp_all add: cache_geo_def b0_def)
    then have "signed_take_bit 31 ((x div 2 ^ b0) mod 2 ^ k) = (x div 2 ^ b0) mod 2 ^ k"
      by (intro signed_take_bit_int_eq_self) linarith+
    ultimately show ?thesis by simp
  qed
  have tg: "get_tag c x = (x div 2 ^ b0) div 2 ^ k" for x
    by (simp add: get_tag_def k drop_bit_eq_div power_add zdiv_zmult2_eq)
  have "a div 2 ^ b0 = b div 2 ^ b0 \<longleftrightarrow> get_index c a = get_index c b \<and> get_tag c a = get_tag c b"
    unfolding ix tg by (metis mult_div_mod_eq)
  then show ?thesis by (simp add: al)
qed

lemma new_cache_geo:
  assumes "new_cache sz assoc bs num lev pim s = Inr c" "0 < bs" "0 < assoc" "bs * assoc \<le> sz" "sz < 2 ^ 31"
  shows "cache_geo c"
proof -
  have "0 < sz" using assms(2-4) by (smt (verit) mult_pos_pos)
  have *: "sz AND (sz - 1) = 0" "bs AND (bs - 1) = 0" "assoc AND (assoc - 1) = 0"
    using assms(1) by (auto simp: new_cache_def Let_def guardR_def split: if_splits)
  obtain i j k where p: "sz = 2 ^ i" "bs = 2 ^ j" "assoc = 2 ^ k"
        using pow2_test [OF \<open>0 < sz\<close> *(1)] pow2_test [OF assms(2) *(2)] pow2_test [OF assms(3)
    *(3)] by blast
  have le: "j + k \<le> i" using assms(4) by (simp add: p flip: power_add)
  have n: "sz div (bs * assoc) = 2 ^ (i - (j + k))"
    using le by (simp add: p power_diff flip: power_add)
  have "2 ^ (i - (j + k)) \<le> sz" unfolding p(1) by (rule power_increasing) auto
  then have "(2 ^ (i - (j + k)) - 1) mod 2 ^ 32 = (2 ^ (i - (j + k)) - 1 :: int)"
    using assms(5) by (intro mod_pos_pos_trivial) auto
  then have m: "(sz div (bs * assoc) - 1) mod 2 ^ 32 = 2 ^ (i - (j + k)) - 1" by (simp only: n)
  have l: "calc_log2 bs = Some j" "calc_log2 (sz div (bs * assoc)) = Some (i - (j + k))"
    unfolding n unfolding p(2) by (rule calc_log2_pow)+
  have "ca_block_size c = bs \<and> ca_index_offset c = j \<and> ca_tag_offset c = i - (j + k) + j
      \<and> ca_index_mask c = (sz div (bs * assoc) - 1) mod 2 ^ 32"
    using assms(1) unfolding new_cache_def Let_def guardR_def runR_def l option.case * by (auto split: if_splits)
  moreover have "i < 31" using assms(5) unfolding p(1) by (rule power_less_imp_less_exp [rotated]) simp
  ultimately show ?thesis using m p(2) by (simp add: cache_geo_def)
qed

section \<open>Configuration and contents\<close>

text \<open>What the operations never change of a cache, and its contents.\<close>

definition ca_config :: "cache \<Rightarrow> cache" where
  "ca_config c = c\<lparr>ca_mshr_entries := [], ca_cache_lines := Map.empty, ca_stats := zero_cache_stats\<rparr>"

definition lines_at :: "cache \<Rightarrow> int \<Rightarrow> line list" where
  "lines_at c ix = (case ca_cache_lines c ix of None \<Rightarrow> [] | Some ls \<Rightarrow> ls)"

lemma get_lines_at: "get_lines c adr = lines_at c (get_index c adr)"
  by (simp add: get_lines_def lines_at_def)

lemma lines_at_set_lines [simp]:
  "lines_at (set_lines adr ls c) = (lines_at c)(get_index c adr := ls)"
  by (auto simp: lines_at_def set_lines_def fun_eq_iff)

lemma ca_config_simps [simp]:
  "ca_config (set_lines adr ls c) = ca_config c"
  "ca_config (c\<lparr>ca_mshr_entries := M\<rparr>) = ca_config c"
  "ca_config (c\<lparr>ca_cache_lines := L\<rparr>) = ca_config c"
  "ca_config (c\<lparr>ca_stats := st\<rparr>) = ca_config c"
  by (simp_all add: ca_config_def set_lines_def)

lemma lines_at_simps [simp]:
  "lines_at (c\<lparr>ca_mshr_entries := M\<rparr>) = lines_at c"
  "lines_at (c\<lparr>ca_stats := st\<rparr>) = lines_at c"
  "ca_mshr_entries (set_lines adr ls c) = ca_mshr_entries c"
  by (auto simp: lines_at_def fun_eq_iff set_lines_def)

lemma ca_config_fields:
  assumes "ca_config c = ca_config d"
  shows "ca_level c = ca_level d" "ca_latency c = ca_latency d" "ca_higher_cache c = ca_higher_cache d"
    "ca_lower_cache c = ca_lower_cache d" "ca_is_first_level c = ca_is_first_level d"
    "ca_is_last_level c = ca_is_last_level d" "ca_assoc c = ca_assoc d"
    "ca_mshr_entry_num c = ca_mshr_entry_num d" "get_index c = get_index d" "get_tag c = get_tag d"
    "align c = align d" "cache_geo c = cache_geo d" "ca_latency_each c = ca_latency_each d"
proof -
  note eq = arg_cong [OF assms]
    show "ca_level c = ca_level d" "ca_latency c = ca_latency d" "ca_higher_cache c = ca_higher_cache d"
    "ca_lower_cache c = ca_lower_cache d" "ca_is_first_level c = ca_is_first_level d" "ca_is_last_level c =
    ca_is_last_level d" "ca_assoc c = ca_assoc d" "ca_mshr_entry_num c = ca_mshr_entry_num d"
    "ca_latency_each c = ca_latency_each d"
        using eq [of ca_level] eq [of ca_latency] eq [of ca_higher_cache] eq [of ca_lower_cache] eq [of
    ca_is_first_level] eq [of ca_is_last_level] eq [of ca_assoc] eq [of ca_mshr_entry_num] eq [of
    ca_latency_each]
    by (simp_all add: ca_config_def)
    have "ca_index_offset c = ca_index_offset d" "ca_index_mask c = ca_index_mask d" "ca_tag_offset c =
    ca_tag_offset d" "ca_block_size c = ca_block_size d"
        using eq [of ca_index_offset] eq [of ca_index_mask] eq [of ca_tag_offset] eq [of ca_block_size] by
    (simp_all add: ca_config_def)
  then show "get_index c = get_index d" "get_tag c = get_tag d" "align c = align d" "cache_geo c = cache_geo d"
    by (simp_all add: get_index_def get_tag_def align_def cache_geo_def fun_eq_iff)
qed

section \<open>The invariant\<close>

definition line_ok :: "int \<Rightarrow> cache \<Rightarrow> int \<Rightarrow> line \<Rightarrow> bool" where
    "line_ok n c ix l \<longleftrightarrow> get_index c (ln_addr l) = ix \<and> get_tag c (ln_addr l) = ln_tag
    l \<and> ln_id l < n"

definition set_ok :: "int \<Rightarrow> cache \<Rightarrow> int \<Rightarrow> line list \<Rightarrow> bool" where
    "set_ok n c ix ls \<longleftrightarrow> int (length ls) \<le> ca_assoc c \<and> distinct (map ln_tag ls)
    \<and> distinct (map ln_id ls)
     \<and> (\<forall>l\<in>set ls. line_ok n c ix l)"

text \<open>
  Every set is well formed, no two MSHR entries are for the same block, and the MSHR entries point
  exactly to the locked lines.
\<close>

definition store_ok :: "int \<Rightarrow> cache \<Rightarrow> (int \<Rightarrow> line list) \<Rightarrow> (int
    \<times> int \<times> int) list \<Rightarrow> bool" where
    "store_ok n c L M \<longleftrightarrow> (\<forall>ix. set_ok n c ix (L ix)) \<and> int (length M) \<le>
    ca_mshr_entry_num c
     \<and> distinct (map (align c \<circ> fst) M)
     \<and> (\<forall>(a, ix, i)\<in>set M. ix = get_index c a
          \<and> (\<exists>l\<in>set (L ix). ln_id l = i \<and> ln_tag l = get_tag c a \<and> ln_lock l))
          \<and> (\<forall>ix. \<forall>l\<in>set (L ix). ln_lock l \<longrightarrow> (\<exists>a. (a, ix,
    ln_id l) \<in> set M))"

lemma store_ok_config:
  assumes "ca_config c = ca_config d"
  shows "store_ok n c L M = store_ok n d L M"
  using ca_config_fields [OF assms] by (simp add: store_ok_def set_ok_def line_ok_def)

lemma set_ok_mono: "set_ok n c ix ls \<Longrightarrow> n \<le> m \<Longrightarrow> set_ok m c ix ls"
  by (auto simp: set_ok_def line_ok_def)

lemma store_ok_mono: "store_ok n c L M \<Longrightarrow> n \<le> m \<Longrightarrow> store_ok m c L M"
  by (auto simp: store_ok_def intro: set_ok_mono)

section \<open>Elementary changes\<close>

lemma set_ok_unique:
  assumes "set_ok n c ix ls" "l \<in> set ls" "m \<in> set ls"
  shows "ln_id l = ln_id m \<Longrightarrow> l = m" "ln_tag l = ln_tag m \<Longrightarrow> l = m"
  using assms by (auto simp: set_ok_def distinct_map dest: inj_onD)

lemma set_ok_erase: "set_ok n c ix ls \<Longrightarrow> set_ok n c ix (erase_line i ls)"
  using length_filter_le [of "\<lambda>l. ln_id l \<noteq> i" ls]
  unfolding set_ok_def erase_line_def by (auto simp: distinct_map_filter simp del: length_filter_le)

lemma set_ok_push:
  assumes "set_ok n c ix ls" "int (length ls) < ca_assoc c" "ix = get_index c adr"
    "\<forall>l\<in>set ls. ln_tag l \<noteq> get_tag c adr"
  shows "set_ok (n + 1) c ix (ls @ [mk_line n c adr lock dirty])"
  using assms by (fastforce simp: set_ok_def line_ok_def mk_line_def)

lemma set_ok_map:
  assumes "set_ok n c ix ls" "\<And>l. ln_id (f l) = ln_id l" "\<And>l. ln_tag (f l) = ln_tag l"
    "\<And>l. ln_addr (f l) = ln_addr l"
  shows "set_ok n c ix (map f ls)"
  using assms by (auto simp: set_ok_def line_ok_def comp_def)

lemma store_okI:
  assumes "\<And>ix. set_ok n c ix (L ix)" "int (length M) \<le> ca_mshr_entry_num c"
    "distinct (map (align c \<circ> fst) M)"
    "\<And>a ix i. (a, ix, i) \<in> set M \<Longrightarrow> ix = get_index c a"
    "\<And>a ix i. (a, ix, i) \<in> set M \<Longrightarrow> \<exists>l\<in>set (L ix). ln_id l = i \<and> ln_tag l = get_tag c a \<and> ln_lock l"
    "\<And>ix l. l \<in> set (L ix) \<Longrightarrow> ln_lock l \<Longrightarrow> \<exists>a. (a, ix, ln_id l) \<in> set M"
  shows "store_ok n c L M"
  using assms unfolding store_ok_def by fast

lemma store_okD:
  assumes "store_ok n c L M"
  shows "set_ok n c ix (L ix)" "int (length M) \<le> ca_mshr_entry_num c" "distinct (map (align c \<circ> fst) M)"
    "(a, ix, i) \<in> set M \<Longrightarrow> ix = get_index c a"
    "(a, ix, i) \<in> set M \<Longrightarrow> \<exists>l\<in>set (L ix). ln_id l = i \<and> ln_tag l = get_tag c a \<and> ln_lock l"
    "l \<in> set (L ix) \<Longrightarrow> ln_lock l \<Longrightarrow> \<exists>a. (a, ix, ln_id l) \<in> set M"
  using assms unfolding store_ok_def by fast+

lemma store_remove:
  assumes "store_ok n c L M" "l \<in> set (L ix)" "\<not> ln_lock l"
  shows "store_ok n c (L(ix := erase_line (ln_id l) (L ix))) M"
proof (rule store_okI)
  note D = store_okD [OF assms(1)]
  show "set_ok n c ix' ((L(ix := erase_line (ln_id l) (L ix))) ix')" for ix'
    using D(1) by (auto intro: set_ok_erase)
  show "\<exists>m\<in>set ((L(ix := erase_line (ln_id l) (L ix))) ix'). ln_id m = i \<and> ln_tag m = get_tag c a \<and> ln_lock m"
    if in_M: "(a, ix', i) \<in> set M" for a ix' i
  proof -
    obtain m where m: "m \<in> set (L ix')" "ln_id m = i" "ln_tag m = get_tag c a" "ln_lock m"
      using D(5) [OF in_M] by blast
    have "ix' = ix \<Longrightarrow> ln_id m \<noteq> ln_id l"
      using set_ok_unique(1) [OF D(1) assms(2), of m] m(1,4) assms(3) by metis
    then show ?thesis using m by (intro bexI [of _ m]) (auto simp: erase_line_def)
  qed
  show "\<exists>a. (a, ix', ln_id m) \<in> set M"
    if "m \<in> set ((L(ix := erase_line (ln_id l) (L ix))) ix')" "ln_lock m" for ix' m
    using D(6) that by (auto simp: erase_line_def split: if_splits)
qed (use store_okD [OF assms(1)] in auto)

lemma store_push:
  assumes "store_ok n c L M" "ix = get_index c adr" "int (length (L ix)) < ca_assoc c"
    "\<forall>l\<in>set (L ix). ln_tag l \<noteq> get_tag c adr"
  shows "store_ok (n + 1) c (L(ix := L ix @ [mk_line n c adr False dirty])) M"
proof (rule store_okI)
  note D = store_okD [OF store_ok_mono [OF assms(1), of "n + 1", simplified]]
  show "set_ok (n + 1) c ix' ((L(ix := L ix @ [mk_line n c adr False dirty])) ix')" for ix'
    using D(1) set_ok_push [OF store_okD(1) [OF assms(1)] assms(3,2,4)] by auto
  show "\<exists>m\<in>set ((L(ix := L ix @ [mk_line n c adr False dirty])) ix'). ln_id m = i \<and> ln_tag m = get_tag c a
      \<and> ln_lock m" if "(a, ix', i) \<in> set M" for a ix' i
    using D(5) [OF that] by auto
  show "\<exists>a. (a, ix', ln_id m) \<in> set M"
    if "m \<in> set ((L(ix := L ix @ [mk_line n c adr False dirty])) ix')" "ln_lock m" for ix' m
    using D(6) that by (auto simp: mk_line_def split: if_splits)
qed (use store_okD [OF assms(1)] in auto)

lemma no_line_no_mshr:
  assumes "store_ok n c L M" "cache_geo c" "\<forall>l\<in>set (L (get_index c adr)). ln_tag l \<noteq> get_tag c adr"
  shows "\<forall>(a, p)\<in>set M. align c a \<noteq> align c adr"
proof (intro ballI, clarify)
  fix a ix i
  assume "(a, ix, i) \<in> set M" "align c a = align c adr"
  then show False
    using store_okD(4,5) [OF assms(1)] cache_geo_cong [OF assms(2)] assms(3) by metis
qed

lemma store_alloc:
  assumes "store_ok n c L M" "cache_geo c" "ix = get_index c adr" "int (length (L ix)) < ca_assoc c"
    "\<forall>l\<in>set (L ix). ln_tag l \<noteq> get_tag c adr" "int (length M) < ca_mshr_entry_num c"
  shows "store_ok (n + 1) c (L(ix := L ix @ [mk_line n c adr True dirty])) (M @ [(adr, ix, n)])"
proof (rule store_okI)
  note D = store_okD [OF store_ok_mono [OF assms(1), of "n + 1", simplified]]
  have N: "\<forall>(a, p)\<in>set M. align c a \<noteq> align c adr"
    using no_line_no_mshr [OF assms(1,2)] assms(3,5) by blast
  show "set_ok (n + 1) c ix' ((L(ix := L ix @ [mk_line n c adr True dirty])) ix')" for ix'
    using D(1) set_ok_push [OF store_okD(1) [OF assms(1)] assms(4,3,5)] by auto
  show "distinct (map (align c \<circ> fst) (M @ [(adr, ix, n)]))" using D(3) N by force
  show "\<exists>m\<in>set ((L(ix := L ix @ [mk_line n c adr True dirty])) ix'). ln_id m = i \<and> ln_tag m = get_tag c a
      \<and> ln_lock m" if "(a, ix', i) \<in> set (M @ [(adr, ix, n)])" for a ix' i
    using D(5) [of a ix' i] that by (auto simp: mk_line_def)
  show "\<exists>a. (a, ix', ln_id m) \<in> set (M @ [(adr, ix, n)])"
    if "m \<in> set ((L(ix := L ix @ [mk_line n c adr True dirty])) ix')" "ln_lock m" for ix' m
    using D(6) [of m ix'] that by (auto simp: mk_line_def split: if_splits)
  show "ix' = get_index c a" if "(a, ix', i) \<in> set (M @ [(adr, ix, n)])" for a ix' i
    using D(4) [of a ix' i] that assms(3) by auto
qed (use assms(6) in auto)

lemma store_map:
  assumes "store_ok n c L M" "\<And>l. ln_id (f l) = ln_id l" "\<And>l. ln_tag (f l) = ln_tag l"
    "\<And>l. ln_addr (f l) = ln_addr l" "\<And>l. ln_lock (f l) = ln_lock l"
  shows "store_ok n c (L(ix := map f (L ix))) M"
proof (rule store_okI)
  note D = store_okD [OF assms(1)]
  show "set_ok n c ix' ((L(ix := map f (L ix))) ix')" for ix'
    using D(1) by (auto intro!: set_ok_map simp: assms(2-4))
  show "\<exists>m\<in>set ((L(ix := map f (L ix))) ix'). ln_id m = i \<and> ln_tag m = get_tag c a \<and> ln_lock m"
    if "(a, ix', i) \<in> set M" for a ix' i
    using D(5) [OF that] assms(2-5) by auto
  show "\<exists>a. (a, ix', ln_id m) \<in> set M" if "m \<in> set ((L(ix := map f (L ix))) ix')" "ln_lock m" for ix' m
    using D(6) that assms(2-5) by (auto split: if_splits)
qed (use store_okD [OF assms(1)] in auto)

definition unlock :: "int \<Rightarrow> line \<Rightarrow> line" where
  "unlock i l = (if ln_id l = i then l\<lparr>ln_lock := False\<rparr> else l)"

lemma unlock_simps [simp]:
  "ln_id (unlock i l) = ln_id l" "ln_tag (unlock i l) = ln_tag l" "ln_addr (unlock i l) = ln_addr l"
  "ln_dirty (unlock i l) = ln_dirty l" "ln_lock (unlock i l) \<longleftrightarrow> ln_lock l \<and> ln_id l \<noteq> i"
  by (simp_all add: unlock_def)

lemma mshr_inj:
  assumes "store_ok n c L M" "cache_geo c" "(a, ix, i) \<in> set M" "(a', ix, i) \<in> set M"
  shows "a' = a"
proof -
  note D = store_okD [OF assms(1)]
  obtain l m where "l \<in> set (L ix)" "ln_id l = i" "ln_tag l = get_tag c a"
    and "m \<in> set (L ix)" "ln_id m = i" "ln_tag m = get_tag c a'" using D(5) [OF assms(3)] D(5) [OF assms(4)] by blast
  then have "get_tag c a' = get_tag c a" using set_ok_unique(1) [OF D(1), of l ix m] by simp
  moreover have "get_index c a' = get_index c a" using D(4) [OF assms(3)] D(4) [OF assms(4)] by simp
  ultimately have "align c a' = align c a" using cache_geo_cong [OF assms(2)] by simp
  then have "(a', ix, i) = (a, ix, i)"
    using D(3) assms(3,4) by (intro inj_onD [of "align c \<circ> fst" "set M"]) (auto simp: distinct_map)
  then show ?thesis by simp
qed

lemma store_unlock:
  assumes "store_ok n c L M" "cache_geo c" "(a, ix, i) \<in> set M"
  shows "store_ok n c (L(ix := map (unlock i) (L ix))) (remove1 (a, ix, i) M)"
proof (rule store_okI)
  note D = store_okD [OF assms(1)]
  have dM: "distinct M" using D(3) by (auto simp: distinct_map)
  have sub: "x \<in> set M" if "x \<in> set (remove1 (a, ix, i) M)" for x using that set_remove1_subset by fast
  show "set_ok n c ix' ((L(ix := map (unlock i) (L ix))) ix')" for ix'
    using D(1) by (auto intro!: set_ok_map)
  show "int (length (remove1 (a, ix, i) M)) \<le> ca_mshr_entry_num c" using D(2) by (auto simp: length_remove1)
  show "distinct (map (align c \<circ> fst) (remove1 (a, ix, i) M))"
    using D(3) dM by (auto simp: distinct_map intro: inj_on_subset)
  show "ix' = get_index c a'" if "(a', ix', i') \<in> set (remove1 (a, ix, i) M)" for a' ix' i'
    using D(4) sub [OF that] by blast
  show "\<exists>m\<in>set ((L(ix := map (unlock i) (L ix))) ix'). ln_id m = i' \<and> ln_tag m = get_tag c a' \<and> ln_lock m"
    if in_R: "(a', ix', i') \<in> set (remove1 (a, ix, i) M)" for a' ix' i'
  proof -
    obtain m where m: "m \<in> set (L ix')" "ln_id m = i'" "ln_tag m = get_tag c a'" "ln_lock m"
      using D(5) [OF sub [OF in_R]] by blast
    have "\<not> (ix' = ix \<and> i' = i)" using mshr_inj [OF assms(1,2) sub [OF in_R], of a] assms(3) in_R dM by auto
    then show ?thesis using m by (cases "ix' = ix") (auto intro!: bexI [of _ m])
  qed
  show "\<exists>a'. (a', ix', ln_id m) \<in> set (remove1 (a, ix, i) M)"
    if m: "m \<in> set ((L(ix := map (unlock i) (L ix))) ix')" "ln_lock m" for ix' m
  proof -
    obtain l where "l \<in> set (L ix')" "ln_lock l" "ln_id l = ln_id m" "ix' = ix \<longrightarrow> ln_id l \<noteq> i"
      using m by (auto split: if_splits)
    then show ?thesis using D(6) [of l ix'] dM by auto
  qed
qed

end
