(* ===== verification/Cache_LRU.thy ===== *)
theory Cache_LRU
  imports Cache_Store
begin

text \<open>
  What the first level of the caches promises: a set-associative cache with least-recently-used
  replacement (\<open>lru_send\<close>), which answers an access with a reply and has no pointers, statistics or
  chained calls.  \<open>Cache::send\<close> of an L1 cache refines it, the contents stay well formed, and no dirty
  block is lost.
\<close>

section \<open>The specification\<close>

datatype reply =
    Hit
  | Merged
  | Stalled
  | Fetch "int option"

type_synonym contents = "(int \<Rightarrow> line list) \<times> (int \<times> int \<times> int) list"

text \<open>
  An unlocked line of the block is a hit and becomes the most recently used line; a locked line is
  being fetched and the access joins the fetch.  Otherwise the block is fetched into a free line or
  into the least recently used line that is not locked; a dirty victim is written back.
\<close>

definition lru_send :: "cache \<Rightarrow> int \<Rightarrow> int \<Rightarrow> bool \<Rightarrow> contents \<Rightarrow> reply \<times> contents" where
  "lru_send c n adr w LM =
     (let (L, M) = LM; ix = get_index c adr; ls = L ix;
          fetch = (\<lambda>wb ls'. (Fetch wb, L(ix := ls' @ [mk_line n c adr True w]), M @ [(adr, ix, n)]))
      in case find_line c adr ls of
           Some l \<Rightarrow>
             if ln_lock l then
               (Merged, L(ix := map (\<lambda>m. if m = l then m\<lparr>ln_dirty := w \<or> ln_dirty m\<rparr> else m) ls), M)
             else (Hit, L(ix := remove1 l ls @ [mk_line n c adr False (ln_dirty l \<or> w)]), M)
         | None \<Rightarrow>
             if int (length M) = ca_mshr_entry_num c then (Stalled, L, M)
             else if int (length ls) < ca_assoc c then fetch None ls
             else
               case find (\<lambda>l. \<not> ln_lock l) ls of
                 None \<Rightarrow> (Stalled, L, M)
               | Some v \<Rightarrow> fetch (if ln_dirty v then Some (ln_addr v) else None) (remove1 v ls))"

lemma lru_send_Some:
  assumes "find_line c adr (L (get_index c adr)) = Some l"
  shows "ln_lock l \<Longrightarrow> lru_send c n adr w (L, M) =
      (Merged, L(get_index c adr := map (\<lambda>m. if m = l then m\<lparr>ln_dirty := w \<or> ln_dirty m\<rparr> else m) (L (get_index c adr))), M)"
    "\<not> ln_lock l \<Longrightarrow> lru_send c n adr w (L, M) =
      (Hit, L(get_index c adr := remove1 l (L (get_index c adr)) @ [mk_line n c adr False (ln_dirty l \<or> w)]), M)"
  using assms by (simp_all add: lru_send_def Let_def)

lemma lru_send_None:
  assumes "find_line c adr (L (get_index c adr)) = None"
  shows "int (length M) = ca_mshr_entry_num c \<Longrightarrow> lru_send c n adr w (L, M) = (Stalled, L, M)"
    "int (length M) \<noteq> ca_mshr_entry_num c \<Longrightarrow> int (length (L (get_index c adr))) < ca_assoc c \<Longrightarrow>
      lru_send c n adr w (L, M) = (Fetch None, L(get_index c adr := L (get_index c adr) @ [mk_line n c adr True w]),
        M @ [(adr, get_index c adr, n)])"
    "\<not> int (length (L (get_index c adr))) < ca_assoc c \<Longrightarrow> find (\<lambda>l. \<not> ln_lock l) (L (get_index c adr)) = None \<Longrightarrow>
      lru_send c n adr w (L, M) = (Stalled, L, M)"
    "int (length M) \<noteq> ca_mshr_entry_num c \<Longrightarrow> \<not> int (length (L (get_index c adr))) < ca_assoc c \<Longrightarrow>
      find (\<lambda>l. \<not> ln_lock l) (L (get_index c adr)) = Some v \<Longrightarrow>
      lru_send c n adr w (L, M) = (Fetch (if ln_dirty v then Some (ln_addr v) else None),
        L(get_index c adr := remove1 v (L (get_index c adr)) @ [mk_line n c adr True w]), M @ [(adr, get_index c adr, n)])"
  using assms by (simp_all add: lru_send_def Let_def)

definition l1_cache :: "cache \<Rightarrow> bool" where
  "l1_cache c \<longleftrightarrow> ca_is_first_level c \<and> ca_is_last_level c \<and> ca_higher_cache c = [] \<and> cache_geo c
     \<and> 0 < ca_assoc c"

definition contents_of :: "cache \<Rightarrow> contents" where
  "contents_of c = (lines_at c, ca_mshr_entries c)"

definition cache_inv :: "int \<Rightarrow> cache \<Rightarrow> bool" where
  "cache_inv n c \<longleftrightarrow> store_ok n c (lines_at c) (ca_mshr_entries c)"

text \<open>What a reply adds to the lists of the cache system.\<close>

definition reply_hits :: "reply \<Rightarrow> int \<Rightarrow> request \<Rightarrow> (int \<times> request) list" where
  "reply_hits r t req = (if r = Hit then [(t, req)] else [])"

fun reply_waits :: "reply \<Rightarrow> int \<Rightarrow> request \<Rightarrow> (int \<times> request) list" where
  "reply_waits (Fetch None) t req = [(t, req\<lparr>rq_type := READ\<rparr>)]"
| "reply_waits (Fetch (Some a)) t req = [(t, mk_request a WRITE 0), (t, req\<lparr>rq_type := READ\<rparr>)]"
| "reply_waits _ t req = []"

fun reply_ids :: "reply \<Rightarrow> int" where
  "reply_ids Hit = 1"
| "reply_ids (Fetch wb) = 1"
| "reply_ids _ = 0"

definition only_cache :: "nat \<Rightarrow> cache_system \<Rightarrow> cache_system \<Rightarrow> bool" where
  "only_cache i s s' \<longleftrightarrow> length (cs_caches s') = length (cs_caches s)
     \<and> (\<forall>j. j \<noteq> i \<longrightarrow> cache_at s' j = cache_at s j) \<and> ca_config (cache_at s' i) = ca_config (cache_at s i)
     \<and> cs_clk s' = cs_clk s \<and> cs_first_level s' = cs_first_level s \<and> cs_last_level s' = cs_last_level s"

text \<open>The state after a request with the given reply.\<close>

definition replied :: "nat \<Rightarrow> request \<Rightarrow> cache_system \<Rightarrow> reply \<Rightarrow> contents \<Rightarrow> cache_system \<Rightarrow> bool" where
  "replied i req s r C s' \<longleftrightarrow>
     (let t = cs_clk s + ca_latency (cache_at s i) ! level_num (ca_level (cache_at s i)) in
      only_cache i s s' \<and> contents_of (cache_at s' i) = C
        \<and> cs_hit_list s' = cs_hit_list s @ reply_hits r t req
        \<and> cs_wait_list s' = cs_wait_list s @ reply_waits r t req
        \<and> cs_next_id s' = cs_next_id s + reply_ids r)"

section \<open>Lines of a well-formed set\<close>

lemma find_line_Some:
  assumes "find_line c adr ls = Some l"
  shows "l \<in> set ls" "ln_tag l = get_tag c adr"
  using assms by (auto simp: find_line_def find_Some_iff)

lemma find_line_None: "find_line c adr ls = None \<longleftrightarrow> (\<forall>l\<in>set ls. ln_tag l \<noteq> get_tag c adr)"
  by (auto simp: find_line_def find_None_iff)

lemma erase_remove1:
  assumes "distinct (map ln_id ls)" "l \<in> set ls"
  shows "erase_line (ln_id l) ls = remove1 l ls"
proof -
  have "distinct ls" using assms(1) by (simp add: distinct_map)
  moreover have "m = l \<longleftrightarrow> ln_id m = ln_id l" if "m \<in> set ls" for m
    using assms that by (auto simp: distinct_map dest: inj_onD)
  ultimately show ?thesis
    unfolding erase_line_def by (simp add: distinct_remove1_removeAll removeAll_filter_not_eq)
       (auto intro: filter_cong)
qed

lemma hit_mshr_Some:
  assumes "hit_mshr c adr = Some e"
  shows "e \<in> set (ca_mshr_entries c)" "align c (fst e) = align c adr"
  using assms by (auto simp: hit_mshr_def find_Some_iff in_set_conv_nth)

lemma locked_hit_mshr:
  assumes "store_ok n c (lines_at c) (ca_mshr_entries c)" "cache_geo c"
    "find_line c adr (get_lines c adr) = Some l" "ln_lock l"
  shows "\<exists>a. hit_mshr c adr = Some (a, get_index c adr, ln_id l)"
proof -
  note D = store_okD [OF assms(1)]
  note l = find_line_Some [OF assms(3), unfolded get_lines_at]
  obtain a where a: "(a, get_index c adr, ln_id l) \<in> set (ca_mshr_entries c)" using D(6) [OF l(1) assms(4)] by blast
  obtain m where "m \<in> set (lines_at c (get_index c adr))" "ln_id m = ln_id l" "ln_tag m = get_tag c a"
    using D(5) [OF a] by blast
  then have "get_tag c a = get_tag c adr" using set_ok_unique(1) [OF D(1) _ l(1), of m] l(2) by simp
  moreover have "get_index c a = get_index c adr" using D(4) [OF a] by simp
  ultimately have al: "align c a = align c adr" using cache_geo_cong [OF assms(2)] by simp
  then obtain e where "hit_mshr c adr = Some e"
    using a unfolding hit_mshr_def
    by (cases "find (\<lambda>(a, p). align c a = align c adr) (ca_mshr_entries c)") (fastforce simp: find_None_iff)+
  note e = this hit_mshr_Some [OF this]
  have "e = (a, get_index c adr, ln_id l)"
    using D(3) e(2,3) a al by (intro inj_onD [of "align c \<circ> fst" "set (ca_mshr_entries c)"]) (auto simp: distinct_map)
  then show ?thesis using e(1) by blast
qed

lemma no_line_hit_mshr:
  assumes "store_ok n c (lines_at c) (ca_mshr_entries c)" "cache_geo c"
    "find_line c adr (get_lines c adr) = None"
  shows "hit_mshr c adr = None"
  using no_line_no_mshr [OF assms(1,2), of adr] assms(3)
  by (auto simp: hit_mshr_def find_None_iff find_line_None get_lines_at)

section \<open>States of the cache system\<close>

lemma cache_at_upd [simp]:
  "i < length (cs_caches s) \<Longrightarrow> cache_at (upd_cache i f s) i = f (cache_at s i)"
  "j \<noteq> i \<Longrightarrow> cache_at (upd_cache i f s) j = cache_at s j"
  by (simp_all add: cache_at_def upd_cache_def)

lemma upd_cache_fields [simp]:
  "length (cs_caches (upd_cache i f s)) = length (cs_caches s)" "cs_clk (upd_cache i f s) = cs_clk s"
  "cs_wait_list (upd_cache i f s) = cs_wait_list s" "cs_hit_list (upd_cache i f s) = cs_hit_list s"
  "cs_next_id (upd_cache i f s) = cs_next_id s" "cs_first_level (upd_cache i f s) = cs_first_level s"
  "cs_last_level (upd_cache i f s) = cs_last_level s"
  by (simp_all add: upd_cache_def)

lemma cache_at_fields [simp]:
  "cache_at (s\<lparr>cs_wait_list := w\<rparr>) j = cache_at s j" "cache_at (s\<lparr>cs_hit_list := w\<rparr>) j = cache_at s j"
  "cache_at (s\<lparr>cs_next_id := n\<rparr>) j = cache_at s j" "cache_at (s\<lparr>cs_clk := k\<rparr>) j = cache_at s j"
  by (simp_all add: cache_at_def)

definition same_contents :: "nat \<Rightarrow> cache_system \<Rightarrow> cache_system \<Rightarrow> bool" where
  "same_contents i s t \<longleftrightarrow> only_cache i s t \<and> contents_of (cache_at t i) = contents_of (cache_at s i)
     \<and> cs_hit_list t = cs_hit_list s \<and> cs_wait_list t = cs_wait_list s \<and> cs_next_id t = cs_next_id s"

lemma same_contents_stats [simp]:
  "i < length (cs_caches s) \<Longrightarrow> same_contents i s (upd_stats i f s)"
  by (simp add: same_contents_def only_cache_def contents_of_def upd_stats_def)

lemma same_contents_lines [simp]:
  "i < length (cs_caches s) \<Longrightarrow> same_contents i s (upd_cache i (\<lambda>c. set_lines adr (get_lines c adr) c) s)"
  by (simp add: same_contents_def only_cache_def contents_of_def get_lines_at)

lemma same_contents_trans: "same_contents i s t \<Longrightarrow> same_contents i t u \<Longrightarrow> same_contents i s u"
  by (simp add: same_contents_def only_cache_def)

lemma same_contents_replied: "same_contents i s t \<Longrightarrow> replied i req t r C u \<Longrightarrow> replied i req s r C u"
  using ca_config_fields(1,2) [of "cache_at t i" "cache_at s i"]
  by (simp add: same_contents_def only_cache_def replied_def Let_def)

lemma replied_same_contents:
  "i < length (cs_caches s) \<Longrightarrow> same_contents i t u \<Longrightarrow> replied i req s r C t \<Longrightarrow> replied i req s r C u"
  by (simp add: same_contents_def only_cache_def replied_def Let_def)

lemma lru_send_config: "ca_config c = ca_config d \<Longrightarrow> lru_send c = lru_send d"
  unfolding lru_send_def find_line_def mk_line_def by (simp only: ca_config_fields [of c d])

lemma l1_cache_config: "ca_config c = ca_config d \<Longrightarrow> l1_cache c = l1_cache d"
  using ca_config_fields [of c d] by (simp add: l1_cache_def)

lemma cache_inv_contents:
  "ca_config c = ca_config d \<Longrightarrow> contents_of c = contents_of d \<Longrightarrow> cache_inv n c = cache_inv n d"
  using store_ok_config [of c d] by (simp add: cache_inv_def contents_of_def)

lemma same_contents_lookup:
  assumes "same_contents i s t"
  shows "get_lines (cache_at t i) adr = get_lines (cache_at s i) adr"
    "find_line (cache_at t i) adr = find_line (cache_at s i) adr"
    "lru_send (cache_at t i) = lru_send (cache_at s i)"
    "contents_of (cache_at t i) = contents_of (cache_at s i)" "cs_next_id t = cs_next_id s"
  using assms ca_config_fields [of "cache_at t i" "cache_at s i"] lru_send_config [of "cache_at t i" "cache_at s i"]
  by (simp_all add: same_contents_def only_cache_def contents_of_def get_lines_at find_line_def fun_eq_iff)

text \<open>The cache \<open>i\<close> is an L1 cache with well-formed contents.\<close>

definition l1_ok :: "nat \<Rightarrow> cache_system \<Rightarrow> bool" where
  "l1_ok i s \<longleftrightarrow> i < length (cs_caches s) \<and> l1_cache (cache_at s i) \<and> cache_inv (cs_next_id s) (cache_at s i)"

lemma same_contents_l1_ok: "same_contents i s t \<Longrightarrow> l1_ok i s \<Longrightarrow> l1_ok i t"
  using l1_cache_config [of "cache_at t i" "cache_at s i"] cache_inv_contents [of "cache_at t i" "cache_at s i"]
  by (simp add: same_contents_def only_cache_def l1_ok_def)

section \<open>The operations refine the specification\<close>

lemma lines_at_Some: "l \<in> set (lines_at c ix) \<Longrightarrow> ca_cache_lines c ix = Some (lines_at c ix)"
  by (cases "ca_cache_lines c ix") (simp_all add: lines_at_def)

lemma upd_line_ok:
  assumes "l \<in> set (lines_at c ix)"
  shows "\<exists>c'. upd_line (ix, ln_id l) f c = Inr c' \<and> ca_config c' = ca_config c
    \<and> ca_mshr_entries c' = ca_mshr_entries c
    \<and> lines_at c' = (lines_at c)(ix := map (\<lambda>m. if ln_id m = ln_id l then f m else m) (lines_at c ix))"
proof -
  have "find (\<lambda>m. ln_id m = ln_id l) (lines_at c ix) \<noteq> None" using assms by (auto simp: find_None_iff)
  then obtain m where "find (\<lambda>m. ln_id m = ln_id l) (lines_at c ix) = Some m" by blast
  then have "upd_line (ix, ln_id l) f c = Inr (c\<lparr>ca_cache_lines := (ca_cache_lines c)
      (ix \<mapsto> map (\<lambda>m. if ln_id m = ln_id l then f m else m) (lines_at c ix))\<rparr>)"
    by (simp add: upd_line_def findR_def lines_at_Some [OF assms])
  then show ?thesis by (intro exI conjI) (assumption | simp add: lines_at_def fun_eq_iff)+
qed

lemma find_victim_first_level:
  "ca_is_first_level c \<Longrightarrow> find_victim n s c ls = Inr (find (\<lambda>l. \<not> ln_lock l) ls)"
  by (induction ls) (auto simp: line_unlocked_def)

lemma all_sets_locked_find:
  "all_sets_locked c ls \<longleftrightarrow> \<not> int (length ls) < ca_assoc c \<and> find (\<lambda>l. \<not> ln_lock l) ls = None"
  by (auto simp: all_sets_locked_def find_None_iff)

lemma send_hit_replied:
  assumes "l1_ok i s" "find_line (cache_at s i) (rq_addr req) (get_lines (cache_at s i) (rq_addr req)) = Some l"
    "\<not> ln_lock l"
  shows "\<exists>r C. lru_send (cache_at s i) (cs_next_id s) (rq_addr req) (rq_type req = WRITE) (contents_of (cache_at s i))
      = (r, C) \<and> r \<noteq> Stalled \<and> replied i req s r C (send_hit i req l s)"
proof -
  define c where "c = cache_at s i"
  have i: "i < length (cs_caches s)" and ok: "store_ok (cs_next_id s) c (lines_at c) (ca_mshr_entries c)"
    using assms(1) by (simp_all add: l1_ok_def cache_inv_def c_def)
  note l = find_line_Some [OF assms(2), folded c_def, unfolded get_lines_at]
  have S: "set_ok (cs_next_id s) c (get_index c (rq_addr req)) (lines_at c (get_index c (rq_addr req)))"
    by (rule store_okD(1) [OF ok])
  then have "ln_id l < cs_next_id s" using l(1) by (simp add: set_ok_def line_ok_def)
  moreover have "erase_line (ln_id l) (lines_at c (get_index c (rq_addr req)))
      = remove1 l (lines_at c (get_index c (rq_addr req)))"
    using S l(1) by (intro erase_remove1) (simp_all add: set_ok_def)
  ultimately show ?thesis
    using assms(2,3) i unfolding c_def [symmetric]
    by (simp add: lru_send_def contents_of_def get_lines_at send_hit_def replied_def only_cache_def Let_def
      reply_hits_def erase_line_def mk_line_def flip: c_def)
qed

text \<open>The reply of the specification to a request at cache \<open>i\<close>.\<close>

abbreviation spec_send :: "nat \<Rightarrow> request \<Rightarrow> cache_system \<Rightarrow> reply \<times> contents" where
  "spec_send i req s \<equiv>
     lru_send (cache_at s i) (cs_next_id s) (rq_addr req) (rq_type req = WRITE) (contents_of (cache_at s i))"

lemma l1_okD:
  assumes "l1_ok i s"
  shows "i < length (cs_caches s)" "cache_geo (cache_at s i)" "ca_is_first_level (cache_at s i)"
    "ca_is_last_level (cache_at s i)" "ca_higher_cache (cache_at s i) = []"
    "store_ok (cs_next_id s) (cache_at s i) (lines_at (cache_at s i)) (ca_mshr_entries (cache_at s i))"
  using assms by (simp_all add: l1_ok_def l1_cache_def cache_inv_def)

lemma mshr_merged:
  assumes "l1_ok i s" "find_line (cache_at s i) (rq_addr req) (get_lines (cache_at s i) (rq_addr req)) = Some l"
    "ln_lock l"
  shows "\<exists>r C s'. spec_send i req s = (r, C) \<and> send_mshr lower n i req s = Inr (r \<noteq> Stalled, s') \<and> replied i req s r C s'"
proof -
  note T = l1_okD [OF assms(1)]
  define c where "c = cache_at s i"
  define ix where "ix = get_index c (rq_addr req)"
  have l: "find_line c (rq_addr req) (lines_at c ix) = Some l"
    using assms(2) by (simp add: c_def ix_def flip: get_lines_at)
  obtain a where a: "hit_mshr c (rq_addr req) = Some (a, ix, ln_id l)"
    using locked_hit_mshr [OF T(6,2)] l assms(3) unfolding c_def ix_def get_lines_at by blast
  have D: "distinct (map ln_id (lines_at c ix))" using store_okD(1) [OF T(6), folded c_def] by (simp add: set_ok_def)
  define f :: "line \<Rightarrow> line" where "f = (\<lambda>m. m\<lparr>ln_dirty := rq_type req = WRITE \<or> ln_dirty m\<rparr>)"
  obtain c' where c': "upd_line (ix, ln_id l) f c = Inr c'" "ca_config c' = ca_config c"
    "ca_mshr_entries c' = ca_mshr_entries c"
    "lines_at c' = (lines_at c)(ix := map (\<lambda>m. if ln_id m = ln_id l then f m else m) (lines_at c ix))"
    using upd_line_ok [OF find_line_Some(1) [OF l]] by blast
  have "map (\<lambda>m. if ln_id m = ln_id l then f m else m) (lines_at c ix) = map (\<lambda>m. if m = l then f m else m) (lines_at c ix)"
    using D find_line_Some(1) [OF l] by (auto simp: distinct_map dest: inj_onD)
  with c'(4) have L': "lines_at c' = (lines_at c)(ix := map (\<lambda>m. if m = l then f m else m) (lines_at c ix))"
    by (simp only:)
  have "spec_send i req s = (Merged, contents_of c')"
    unfolding contents_of_def c_def [symmetric]
      lru_send_Some(1) [of c "rq_addr req" "lines_at c", folded ix_def, OF l assms(3)] L' c'(3) f_def ..
  moreover have "\<exists>s'. send_mshr lower n i req s = Inr (True, s') \<and> replied i req s Merged (contents_of c') s'"
    unfolding send_mshr_def Let_def c_def [symmetric] a using c'(1,2) T(1)
    by (simp add: replied_def only_cache_def reply_hits_def upd_stats_def Let_def flip: f_def c_def)
  ultimately show ?thesis by (metis reply.distinct(7))
qed

lemma mk_line_config: "ca_config c = ca_config d \<Longrightarrow> mk_line n c = mk_line n d"
  using ca_config_fields(10) [of c d] by (simp add: mk_line_def fun_eq_iff)

definition wb_waits :: "line option \<Rightarrow> int \<Rightarrow> (int \<times> request) list" where
  "wb_waits v t = (case v of None \<Rightarrow> [] | Some l \<Rightarrow> if ln_dirty l then [(t, mk_request (ln_addr l) WRITE 0)] else [])"

text \<open>Evicting from an L1 cache, which is the last level too.\<close>

lemma evict_l1:
  assumes "l1_ok i s" "v \<in> set (get_lines (cache_at s i) adr)"
  shows "\<exists>s'. evict n i adr v s = Inr s' \<and> only_cache i s s'
    \<and> lines_at (cache_at s' i) = (lines_at (cache_at s i))
        (get_index (cache_at s i) adr := remove1 v (get_lines (cache_at s i) adr))
    \<and> ca_mshr_entries (cache_at s' i) = ca_mshr_entries (cache_at s i) \<and> cs_hit_list s' = cs_hit_list s
    \<and> cs_wait_list s' = cs_wait_list s
        @ wb_waits (Some v) (cs_clk s + ca_latency (cache_at s i) ! level_num (ca_level (cache_at s i)))
    \<and> cs_next_id s' = cs_next_id s"
proof -
  note D = l1_okD [OF assms(1)]
  have "distinct (map ln_id (get_lines (cache_at s i) adr))"
    using store_okD(1) [OF D(6)] by (simp add: set_ok_def get_lines_at)
  note er = erase_remove1 [OF this assms(2), unfolded get_lines_at]
  define s0 where "s0 = upd_stats i (\<lambda>st. st\<lparr>cst_eviction := cst_eviction st + 1\<rparr>) s"
  have "same_contents i s s0" using D(1) by (simp add: s0_def)
  then have S: "only_cache i s s0" "lines_at (cache_at s0 i) = lines_at (cache_at s i)"
    "ca_mshr_entries (cache_at s0 i) = ca_mshr_entries (cache_at s i)" "cs_hit_list s0 = cs_hit_list s"
    "cs_wait_list s0 = cs_wait_list s" "cs_next_id s0 = cs_next_id s" "cs_clk s0 = cs_clk s"
    "get_index (cache_at s0 i) = get_index (cache_at s i)"
    using ca_config_fields(9) [of "cache_at s0 i" "cache_at s i"]
    by (simp_all add: same_contents_def contents_of_def only_cache_def)
  moreover have "i < length (cs_caches s0)" using D(1) S(1) by (simp add: only_cache_def)
  ultimately show ?thesis using D(4,5) unfolding evict_def Let_def s0_def [symmetric]
    by (simp add: only_cache_def wb_waits_def get_lines_at er)
qed

definition allocated :: "nat \<Rightarrow> int \<Rightarrow> cache_system \<Rightarrow> line option \<Rightarrow> cache_system \<Rightarrow> bool" where
  "allocated i adr s v s1 \<longleftrightarrow>
     (let c = cache_at s i; ls = get_lines c adr in
      only_cache i s s1
        \<and> lines_at (cache_at s1 i) = (lines_at c)(get_index c adr :=
            (case v of None \<Rightarrow> ls | Some l \<Rightarrow> remove1 l ls) @ [mk_line (cs_next_id s) c adr True False])
        \<and> ca_mshr_entries (cache_at s1 i) = ca_mshr_entries c \<and> cs_hit_list s1 = cs_hit_list s
        \<and> cs_wait_list s1 = cs_wait_list s @ wb_waits v (cs_clk s + ca_latency c ! level_num (ca_level c))
        \<and> cs_next_id s1 = cs_next_id s + 1)"

text \<open>The line that is given up for a new one, if the set is full.\<close>

definition victim_of :: "cache \<Rightarrow> line list \<Rightarrow> line option \<Rightarrow> bool" where
  "victim_of c ls v \<longleftrightarrow>
     (if int (length ls) < ca_assoc c then v = None else v = find (\<lambda>l. \<not> ln_lock l) ls \<and> v \<noteq> None)"

lemma allocate_l1:
  assumes "l1_ok i s" "find_line (cache_at s i) adr (get_lines (cache_at s i) adr) = None"
    "victim_of (cache_at s i) (get_lines (cache_at s i) adr) v"
  shows "\<exists>s1. allocate_line n i adr s = Inr (Some (get_index (cache_at s i) adr, cs_next_id s), s1) \<and> allocated i adr s v s1"
proof (cases v)
  case None
  then have "int (length (get_lines (cache_at s i) adr)) < ca_assoc (cache_at s i)"
    using assms(3) by (auto simp: victim_of_def split: if_splits)
  then show ?thesis using assms(2) None l1_okD(1) [OF assms(1)]
    by (simp add: allocate_line_def need_eviction_def allocated_def only_cache_def wb_waits_def get_lines_at)
next
  case (Some l)
  then have full: "\<not> int (length (get_lines (cache_at s i) adr)) < ca_assoc (cache_at s i)"
    "find (\<lambda>l. \<not> ln_lock l) (get_lines (cache_at s i) adr) = Some l"
    using assms(3) by (auto simp: victim_of_def split: if_splits)
  then have "l \<in> set (get_lines (cache_at s i) adr)" by (auto simp: find_Some_iff)
  from evict_l1 [OF assms(1) this, of n] obtain s' where s': "evict n i adr l s = Inr s'" "only_cache i s s'"
    "lines_at (cache_at s' i) = (lines_at (cache_at s i))
        (get_index (cache_at s i) adr := remove1 l (get_lines (cache_at s i) adr))"
    "ca_mshr_entries (cache_at s' i) = ca_mshr_entries (cache_at s i)" "cs_hit_list s' = cs_hit_list s"
    "cs_wait_list s' = cs_wait_list s
        @ wb_waits (Some l) (cs_clk s + ca_latency (cache_at s i) ! level_num (ca_level (cache_at s i)))"
    "cs_next_id s' = cs_next_id s" by blast
  have cf: "ca_config (cache_at s' i) = ca_config (cache_at s i)" "i < length (cs_caches s')"
    using s'(2) l1_okD(1) [OF assms(1)] by (simp_all add: only_cache_def)
  note cf' = ca_config_fields(9) [OF cf(1)] mk_line_config [OF cf(1)]
  show ?thesis using assms(2) Some full cf(2) s' l1_okD(3) [OF assms(1)]
    by (simp add: allocate_line_def need_eviction_def find_victim_first_level allocated_def only_cache_def
      get_lines_at cf')
qed

lemma map_other_lines: "\<forall>m\<in>set ls. ln_id m \<noteq> n \<Longrightarrow> map (\<lambda>m. if ln_id m = n then f m else m) ls = ls"
  by (auto intro: map_idI)

lemma fetch_spec:
  assumes "find_line c adr (L (get_index c adr)) = None" "int (length M) \<noteq> ca_mshr_entry_num c"
    "victim_of c (L (get_index c adr)) v"
  shows "\<exists>wb. lru_send c n adr w (L, M) = (Fetch wb, L(get_index c adr :=
      (case v of None \<Rightarrow> L (get_index c adr) | Some l \<Rightarrow> remove1 l (L (get_index c adr))) @ [mk_line n c adr True w]),
      M @ [(adr, get_index c adr, n)]) \<and> (\<forall>t. reply_waits (Fetch wb) t req = wb_waits v t @ [(t, req\<lparr>rq_type := READ\<rparr>)])"
  using lru_send_None [of c adr L, OF assms(1)] assms(2,3)
  by (auto simp: victim_of_def wb_waits_def split: if_splits)

lemma mshr_fetch:
  assumes "l1_ok i s" "find_line (cache_at s i) (rq_addr req) (get_lines (cache_at s i) (rq_addr req)) = None"
    "int (length (ca_mshr_entries (cache_at s i))) \<noteq> ca_mshr_entry_num (cache_at s i)"
    "victim_of (cache_at s i) (get_lines (cache_at s i) (rq_addr req)) v"
  shows "\<exists>r C s'. spec_send i req s = (r, C) \<and> send_mshr lower n i req s = Inr (r \<noteq> Stalled, s') \<and> replied i req s r C s'"
proof -
  note T = l1_okD [OF assms(1)]
  define c where "c = cache_at s i"
  define ix where "ix = get_index c (rq_addr req)"
  define n' where "n' = cs_next_id s"
  define w where "w \<longleftrightarrow> rq_type req = WRITE"
  obtain s1 where s1: "allocate_line n i (rq_addr req) s = Inr (Some (ix, n'), s1)" "allocated i (rq_addr req) s v s1"
    using allocate_l1 [OF assms(1,2,4)] unfolding c_def ix_def n'_def by blast
  define ls where "ls = (case v of None \<Rightarrow> lines_at c ix | Some l \<Rightarrow> remove1 l (lines_at c ix))"
  have "only_cache i s s1" "lines_at (cache_at s1 i) = (lines_at c)(ix := ls @ [mk_line n' c (rq_addr req) True False])"
    "ca_mshr_entries (cache_at s1 i) = ca_mshr_entries c" "cs_hit_list s1 = cs_hit_list s"
    "cs_wait_list s1 = cs_wait_list s @ wb_waits v (cs_clk s + ca_latency c ! level_num (ca_level c))"
    "cs_next_id s1 = cs_next_id s + 1"
    using s1(2) unfolding allocated_def Let_def ls_def get_lines_at n'_def c_def ix_def by simp_all
  note A = this
  have "\<forall>m\<in>set ls. ln_id m \<noteq> n'"
    using store_okD(1) [OF T(6), of ix] set_remove1_subset
    by (fastforce simp: ls_def set_ok_def line_ok_def c_def n'_def split: option.splits)
  note ml = map_other_lines [OF this]
  have nl: "mk_line n' c (rq_addr req) True False \<in> set (lines_at (cache_at s1 i) ix)" by (simp add: A(2))
  from upd_line_ok [OF nl, of "\<lambda>l. l\<lparr>ln_dirty := w\<rparr>"] obtain c' where
    c': "upd_line (ix, n') (\<lambda>l. l\<lparr>ln_dirty := w\<rparr>) (cache_at s1 i) = Inr c'" "ca_config c' = ca_config (cache_at s1 i)"
    "ca_mshr_entries c' = ca_mshr_entries (cache_at s1 i)"
    "lines_at c' = (lines_at c)(ix := ls @ [mk_line n' c (rq_addr req) True w])"
    unfolding A(2) by (auto simp: ml mk_line_def fun_upd_twist)
  obtain wb where sp: "spec_send i req s = (Fetch wb, (lines_at c)(ix := ls @ [mk_line n' c (rq_addr req) True w]),
      ca_mshr_entries c @ [(rq_addr req, ix, n')])"
    "\<And>t. reply_waits (Fetch wb) t req = wb_waits v t @ [(t, req\<lparr>rq_type := READ\<rparr>)]"
    using fetch_spec [of c "rq_addr req" "lines_at c" "ca_mshr_entries c" v n' w req, folded ix_def, folded ls_def]
      assms(2-4) unfolding contents_of_def get_lines_at by (auto simp: w_def n'_def simp flip: c_def ix_def)
  have all: "\<not> all_sets_locked c (lines_at c ix)"
    using assms(4) by (auto simp: all_sets_locked_find victim_of_def get_lines_at simp flip: c_def ix_def split: if_splits)
  have none: "hit_mshr c (rq_addr req) = None"
    using no_line_hit_mshr [OF T(6,2) assms(2)] by (simp add: c_def)
  have "\<exists>s'. send_mshr lower n i req s = Inr (True, s') \<and> replied i req s (Fetch wb)
      ((lines_at c)(ix := ls @ [mk_line n' c (rq_addr req) True w]), ca_mshr_entries c @ [(rq_addr req, ix, n')]) s'"
    using A T(1,4) assms(3) all unfolding send_mshr_def Let_def get_lines_at none w_def [symmetric] c_def [symmetric] ix_def [symmetric]
    by (simp add: s1(1) c' sp(2) replied_def only_cache_def reply_hits_def contents_of_def flip: c_def)
  then show ?thesis using sp(1) by auto
qed

lemma mshr_stalled:
  assumes "l1_ok i s" "find_line (cache_at s i) (rq_addr req) (get_lines (cache_at s i) (rq_addr req)) = None"
    "int (length (ca_mshr_entries (cache_at s i))) = ca_mshr_entry_num (cache_at s i)
      \<or> all_sets_locked (cache_at s i) (get_lines (cache_at s i) (rq_addr req))"
  shows "\<exists>r C s'. spec_send i req s = (r, C) \<and> send_mshr lower n i req s = Inr (r \<noteq> Stalled, s') \<and> replied i req s r C s'"
proof -
  note T = l1_okD [OF assms(1)]
  have "spec_send i req s = (Stalled, contents_of (cache_at s i))"
    using lru_send_None(1,3) [of "cache_at s i" "rq_addr req" "lines_at (cache_at s i)"] assms(2,3)
    by (auto simp: contents_of_def get_lines_at all_sets_locked_find)
  moreover have "\<exists>s'. send_mshr lower n i req s = Inr (False, s') \<and> same_contents i s s'"
    using T(1) assms(3) no_line_hit_mshr [OF T(6,2) assms(2)]
    by (cases "int (length (ca_mshr_entries (cache_at s i))) = ca_mshr_entry_num (cache_at s i)")
       (simp_all add: send_mshr_def Let_def)
  moreover have "same_contents i s s' \<Longrightarrow> replied i req s Stalled (contents_of (cache_at s i)) s'" for s'
    by (simp add: same_contents_def replied_def reply_hits_def Let_def)
  ultimately show ?thesis by auto
qed

lemma send_mshr_refines:
  assumes "l1_ok i s" "is_hit (cache_at s i) (rq_addr req) (get_lines (cache_at s i) (rq_addr req)) = None"
  shows "\<exists>r C s'. spec_send i req s = (r, C) \<and> send_mshr lower n i req s = Inr (r \<noteq> Stalled, s') \<and> replied i req s r C s'"
proof (cases "find_line (cache_at s i) (rq_addr req) (get_lines (cache_at s i) (rq_addr req))")
  case None
  show ?thesis
  proof (cases "int (length (ca_mshr_entries (cache_at s i))) = ca_mshr_entry_num (cache_at s i)
      \<or> all_sets_locked (cache_at s i) (get_lines (cache_at s i) (rq_addr req))")
    case True
    then show ?thesis by (rule mshr_stalled [OF assms(1) None])
  next
    case False
    then obtain v where "victim_of (cache_at s i) (get_lines (cache_at s i) (rq_addr req)) v"
      by (cases "int (length (get_lines (cache_at s i) (rq_addr req))) < ca_assoc (cache_at s i)")
         (auto simp: victim_of_def all_sets_locked_find)
    with False show ?thesis by (intro mshr_fetch [OF assms(1) None]) auto
  qed
next
  case (Some l)
  then show ?thesis using assms(2) by (intro mshr_merged [OF assms(1) Some]) (simp add: is_hit_def split: if_splits)
qed

lemma l1_send_refines:
  assumes "l1_ok i s" "rq_type req = WRITE \<or> rq_type req = READ"
  shows "\<exists>r C s'. spec_send i req s = (r, C) \<and> cache_send (Suc n) i req s = Inr (r \<noteq> Stalled, s') \<and> replied i req s r C s'"
proof -
  define s1 where "s1 = upd_cache i (\<lambda>c. set_lines (rq_addr req) (get_lines c (rq_addr req)) c)
    (upd_stats i (count_access req) s)"
  have i: "i < length (cs_caches s)" by (rule l1_okD(1) [OF assms(1)])
  have sc: "same_contents i s s1"
    unfolding s1_def using i
    by (intro same_contents_trans [OF same_contents_stats same_contents_lines]) (auto simp: upd_stats_def)
  note ok = same_contents_l1_ok [OF sc assms(1)]
  have sp: "spec_send i req s = spec_send i req s1" by (simp add: same_contents_lookup [OF sc])
  have eq: "cache_send (Suc n) i req s =
      (case is_hit (cache_at s1 i) (rq_addr req) (get_lines (cache_at s1 i) (rq_addr req)) of
         Some l \<Rightarrow> Inr (True, send_hit i req l s1) | None \<Rightarrow> send_miss (cache_send n) n i req s1)"
    unfolding cache_send.simps Let_def s1_def [symmetric] using assms(2) by (auto simp: guardR_def split: option.split)
  show ?thesis
  proof (cases "is_hit (cache_at s1 i) (rq_addr req) (get_lines (cache_at s1 i) (rq_addr req))")
    case (Some l)
    then have "find_line (cache_at s1 i) (rq_addr req) (get_lines (cache_at s1 i) (rq_addr req)) = Some l" "\<not> ln_lock l"
      by (auto simp: is_hit_def split: option.splits if_splits)
    from send_hit_replied [OF ok this] obtain r C where
      "spec_send i req s1 = (r, C)" "r \<noteq> Stalled" "replied i req s1 r C (send_hit i req l s1)" by blast
    then show ?thesis using eq Some sp same_contents_replied [OF sc, of req r C] by simp
  next
    case None
    define s2 where "s2 = upd_stats i (count_miss req) s1"
    have sc2: "same_contents i s1 s2" using l1_okD(1) [OF ok] by (simp add: s2_def)
    have "is_hit (cache_at s2 i) (rq_addr req) (get_lines (cache_at s2 i) (rq_addr req)) = None"
      using None same_contents_lookup(1,2) [OF sc2] by (simp add: is_hit_def)
    from send_mshr_refines [OF same_contents_l1_ok [OF sc2 ok] this, of "cache_send n" n] obtain r C s' where
      "spec_send i req s2 = (r, C)" "send_mshr (cache_send n) n i req s2 = Inr (r \<noteq> Stalled, s')" "replied i req s2 r C s'"
      by blast
    moreover have "spec_send i req s = spec_send i req s2" by (simp add: sp same_contents_lookup [OF sc2])
    ultimately show ?thesis
      using eq None same_contents_replied [OF same_contents_trans [OF sc sc2], of req r C s']
      by (simp add: send_miss_def flip: s2_def)
  qed
qed

section \<open>The specification keeps the contents well formed\<close>

lemma store_remove1:
  assumes "store_ok n c L M" "l \<in> set (L ix)" "\<not> ln_lock l"
  shows "store_ok n c (L(ix := remove1 l (L ix))) M"
  using store_remove [OF assms] erase_remove1 [OF _ assms(2)] store_okD(1) [OF assms(1), of ix]
  by (simp add: set_ok_def)

lemma remove1_shrinks: "l \<in> set ls \<Longrightarrow> int (length ls) \<le> n \<Longrightarrow> int (length (remove1 l ls)) < n"
  by (cases "length ls") (auto simp: length_remove1)

lemma store_touch:
  assumes "store_ok n c L M" "find_line c adr (L (get_index c adr)) = Some l" "\<not> ln_lock l"
  shows "store_ok (n + 1) c (L(get_index c adr := remove1 l (L (get_index c adr)) @ [mk_line n c adr False d])) M"
proof -
  define ix where "ix = get_index c adr"
  note l = find_line_Some [OF assms(2), folded ix_def] and S = store_okD(1) [OF assms(1), of ix]
  have "distinct (L ix)" using S by (simp add: set_ok_def distinct_map)
  then have "\<forall>m\<in>set (remove1 l (L ix)). ln_tag m \<noteq> get_tag c adr"
    using set_ok_unique(2) [OF S l(1)] l(2) by (simp add: set_remove1_eq) (metis DiffE singletonI)
  with store_push [OF store_remove1 [OF assms(1) l(1) assms(3)], of ix adr] show ?thesis
    using remove1_shrinks [OF l(1)] S by (auto simp: ix_def set_ok_def)
qed

lemma lru_send_ok:
  assumes ok: "store_ok n c L M" and geo: "cache_geo c" and snd: "lru_send c n adr w (L, M) = (r, L', M')"
  shows "store_ok (n + reply_ids r) c L' M'"
proof -
  define ix where "ix = get_index c adr"
  note S = store_okD(1) [OF ok, of ix]
  have len: "int (length (L ix)) \<le> ca_assoc c" "int (length M) \<le> ca_mshr_entry_num c"
    using S store_okD(2) [OF ok] by (simp_all add: set_ok_def)
  show ?thesis
  proof (cases "find_line c adr (L (get_index c adr))")
    case (Some l)
    then show ?thesis using snd lru_send_Some [of c adr L, OF Some] store_touch [OF ok Some]
        store_map [OF ok, of "\<lambda>m. if m = l then m\<lparr>ln_dirty := w \<or> ln_dirty m\<rparr> else m" "get_index c adr"]
      by (cases "ln_lock l") auto
  next
    case None
    then have no: "\<forall>m\<in>set (L ix). ln_tag m \<noteq> get_tag c adr" by (simp add: find_line_None ix_def)
    note sn = lru_send_None [of c adr L, OF None, folded ix_def]
    consider (stall) "int (length M) = ca_mshr_entry_num c \<or> \<not> int (length (L ix)) < ca_assoc c
          \<and> find (\<lambda>l. \<not> ln_lock l) (L ix) = None"
      | (free) "int (length M) \<noteq> ca_mshr_entry_num c" "int (length (L ix)) < ca_assoc c"
      | (evict) v where "int (length M) \<noteq> ca_mshr_entry_num c" "\<not> int (length (L ix)) < ca_assoc c"
          "find (\<lambda>l. \<not> ln_lock l) (L ix) = Some v"
      by fastforce
    then show ?thesis
    proof cases
      case stall
      then show ?thesis using snd sn(1,3) ok by auto
    next
      case free
      then show ?thesis using snd sn(2) store_alloc [OF ok geo ix_def _ no, of w] len(2) by auto
    next
      case (evict v)
      then have v: "v \<in> set (L ix)" "\<not> ln_lock v" by (auto simp: find_Some_iff)
      have "\<forall>m\<in>set (remove1 v (L ix)). ln_tag m \<noteq> get_tag c adr" using no set_remove1_subset by fastforce
      with store_alloc [OF store_remove1 [OF ok v] geo ix_def, of w] evict show ?thesis
        using snd sn(4) len remove1_shrinks [OF v(1) len(1)] by auto
    qed
  qed
qed

section \<open>No dirty block is lost\<close>

definition dirty_in :: "line list \<Rightarrow> int \<Rightarrow> bool" where
  "dirty_in ls tg \<longleftrightarrow> (\<exists>l\<in>set ls. ln_tag l = tg \<and> ln_dirty l)"

definition dirty_block :: "cache \<Rightarrow> (int \<Rightarrow> line list) \<Rightarrow> int \<Rightarrow> bool" where
  "dirty_block c L a \<longleftrightarrow> dirty_in (L (get_index c a)) (get_tag c a)"

lemma dirty_in_append [simp]: "dirty_in (xs @ ys) tg \<longleftrightarrow> dirty_in xs tg \<or> dirty_in ys tg"
  by (auto simp: dirty_in_def)

lemma dirty_in_line [simp]: "dirty_in [mk_line n c adr lock d] tg \<longleftrightarrow> tg = get_tag c adr \<and> d"
  by (auto simp: dirty_in_def mk_line_def)

lemma dirty_in_remove1:
  assumes "set_ok n c ix ls" "l \<in> set ls"
  shows "dirty_in ls tg \<longleftrightarrow> dirty_in (remove1 l ls) tg \<or> tg = ln_tag l \<and> ln_dirty l"
    "\<not> dirty_in (remove1 l ls) (ln_tag l)"
proof -
  have "distinct ls" using assms(1) by (simp add: set_ok_def distinct_map)
  then have rm: "set (remove1 l ls) = set ls - {l}" by (simp add: set_remove1_eq)
  show "dirty_in ls tg \<longleftrightarrow> dirty_in (remove1 l ls) tg \<or> tg = ln_tag l \<and> ln_dirty l"
    using assms(2) by (auto simp: dirty_in_def rm)
  show "\<not> dirty_in (remove1 l ls) (ln_tag l)"
    unfolding dirty_in_def rm using set_ok_unique(2) [OF assms] by (metis DiffE singletonI)
qed

lemma dirty_in_merge:
  assumes "l \<in> set ls"
  shows "dirty_in (map (\<lambda>m. if m = l then m\<lparr>ln_dirty := w \<or> ln_dirty m\<rparr> else m) ls) tg
    \<longleftrightarrow> dirty_in ls tg \<or> w \<and> tg = ln_tag l"
  using assms by (auto simp: dirty_in_def split: if_splits)

lemma lru_send_dirty:
  assumes ok: "store_ok n c L M" and geo: "cache_geo c" and snd: "lru_send c n adr w (L, M) = (r, L', M')"
    and "r \<noteq> Stalled"
  shows "dirty_block c L a \<or> w \<and> align c a = align c adr
    \<longleftrightarrow> dirty_block c L' a \<or> (\<exists>b. r = Fetch (Some b) \<and> align c a = align c b)"
proof -
  define ix where "ix = get_index c adr"
  note S = store_okD(1) [OF ok, of ix]
  show ?thesis
  proof (cases "find_line c adr (L (get_index c adr))")
    case (Some l)
    note l = find_line_Some [OF Some, folded ix_def]
    show ?thesis
      using snd lru_send_Some [of c adr L, OF Some, folded ix_def] dirty_in_remove1 [OF S l(1)] dirty_in_merge [OF l(1), of w] l(2)
      unfolding dirty_block_def cache_geo_cong [OF geo] by (cases "ln_lock l"; cases "get_index c a = ix") (auto simp flip: ix_def)
  next
    case None
    note sn = lru_send_None [of c adr L, OF None, folded ix_def]
    have full: "int (length M) \<noteq> ca_mshr_entry_num c" using snd sn(1) assms(4) by auto
    show ?thesis
    proof (cases "int (length (L ix)) < ca_assoc c")
      case True
      then show ?thesis using snd sn(2) [OF full True] unfolding dirty_block_def cache_geo_cong [OF geo]
        by (cases "get_index c a = ix") (auto simp flip: ix_def)
    next
      case False
      then obtain v where v: "find (\<lambda>l. \<not> ln_lock l) (L ix) = Some v" using snd sn(3) assms(4)
        by (cases "find (\<lambda>l. \<not> ln_lock l) (L ix)") auto
      then have "v \<in> set (L ix)" by (auto simp: find_Some_iff)
      note dv = dirty_in_remove1 [OF S this]
      have "get_index c (ln_addr v) = ix" "get_tag c (ln_addr v) = ln_tag v"
        using S \<open>v \<in> set (L ix)\<close> by (auto simp: set_ok_def line_ok_def)
      then show ?thesis using snd sn(4) [OF full False v] dv unfolding dirty_block_def cache_geo_cong [OF geo]
        by (cases "get_index c a = ix"; cases "ln_dirty v") (auto simp flip: ix_def)
    qed
  qed
qed

end
