(* ===== verification/Cache_System.thy ===== *)
theory Cache_System
  imports Cache_LRU
begin

text \<open>
  The caches of a processor in operation.  The reachable states are those the constructors, the
  accesses of the cores, the responses of the memory and the ticks produce; in all of them the L1
  caches are well formed and no operation fails.  Since the constructor of \<open>CacheSystem\<close> makes L1 both
  the first and the last level, the other caches stay empty.
\<close>

section \<open>Invariant\<close>

definition quiet :: "cache \<Rightarrow> bool" where
  "quiet c \<longleftrightarrow> ca_mshr_entries c = [] \<and> (\<forall>ix. lines_at c ix = [])"

definition level_above :: "cache_system \<Rightarrow> nat \<Rightarrow> cache_level \<Rightarrow> bool" where
  "level_above s i lev \<longleftrightarrow> (\<forall>h\<in>set (ca_higher_cache (cache_at s i)).
     h < length (cs_caches s) \<and> ca_level (cache_at s h) = lev)"

definition cache_ok :: "cache_system \<Rightarrow> nat \<Rightarrow> bool" where
  "cache_ok s i \<longleftrightarrow>
     (case ca_level (cache_at s i) of
        L1 \<Rightarrow> l1_ok i s
      | L2 \<Rightarrow> quiet (cache_at s i) \<and> level_above s i L1
      | L3 \<Rightarrow> quiet (cache_at s i) \<and> level_above s i L2
      | LMAX \<Rightarrow> False)"

definition caches_ok :: "cache_system \<Rightarrow> bool" where
  "caches_ok s \<longleftrightarrow> (\<forall>i<length (cs_caches s). cache_ok s i) \<and> cs_first_level s = L1 \<and> cs_last_level s = L1"

lemma caches_okD:
  assumes "caches_ok s" "i < length (cs_caches s)"
  shows "ca_level (cache_at s i) = L1 \<Longrightarrow> l1_ok i s"
    "ca_level (cache_at s i) = L2 \<Longrightarrow> quiet (cache_at s i) \<and> level_above s i L1"
    "ca_level (cache_at s i) = L3 \<Longrightarrow> quiet (cache_at s i) \<and> level_above s i L2"
    "ca_level (cache_at s i) \<noteq> LMAX" "cache_ok s i"
  using assms unfolding caches_ok_def cache_ok_def by (force split: cache_level.splits)+

definition same_shape :: "cache_system \<Rightarrow> cache_system \<Rightarrow> bool" where
  "same_shape s t \<longleftrightarrow> length (cs_caches t) = length (cs_caches s)
     \<and> (\<forall>i. ca_config (cache_at t i) = ca_config (cache_at s i))
     \<and> cs_first_level t = cs_first_level s \<and> cs_last_level t = cs_last_level s"

lemma same_shape_refl [simp]: "same_shape s s"
  by (simp add: same_shape_def)

lemma same_shape_trans: "same_shape s t \<Longrightarrow> same_shape t u \<Longrightarrow> same_shape s u"
  by (simp add: same_shape_def)

lemma same_shape_level: "same_shape s t \<Longrightarrow> ca_level (cache_at t i) = ca_level (cache_at s i)"
  using ca_config_fields(1) [of "cache_at t i" "cache_at s i"] by (simp add: same_shape_def)

lemma only_cache_shape: "only_cache i s t \<Longrightarrow> same_shape s t"
  by (auto simp: same_shape_def only_cache_def)

lemma cache_inv_mono: "cache_inv n c \<Longrightarrow> n \<le> m \<Longrightarrow> cache_inv m c"
  using store_ok_mono by (auto simp: cache_inv_def)

text \<open>A step that changes one L1 cache and keeps its invariant keeps the invariant of the system.\<close>

lemma caches_ok_step:
  assumes ok: "caches_ok s" and only: "only_cache i s t" and lev: "ca_level (cache_at s i) = L1"
    and n: "cs_next_id s \<le> cs_next_id t" and l1: "l1_ok i t"
  shows "caches_ok t"
proof -
  have len: "length (cs_caches t) = length (cs_caches s)" using only by (simp add: only_cache_def)
  note lv = same_shape_level [OF only_cache_shape [OF only]]
  have "cache_ok t j" if "j < length (cs_caches t)" for j
  proof (cases "j = i")
    case True
    then show ?thesis using l1 lev lv by (simp add: cache_ok_def)
  next
    case False
    then have c: "cache_at t j = cache_at s j" using only by (simp add: only_cache_def)
    have o: "cache_ok s j" using ok that len by (simp add: caches_ok_def)
    show ?thesis
    proof (cases "ca_level (cache_at s j)")
      case L1
      then show ?thesis using o c len cache_inv_mono [OF _ n, of "cache_at s j"] by (simp add: cache_ok_def l1_ok_def)
    qed (use o c len lv in \<open>simp_all add: cache_ok_def level_above_def\<close>)
  qed
  then show ?thesis using ok only by (simp add: caches_ok_def only_cache_def)
qed

section \<open>Accesses\<close>

lemma replied_l1_ok:
  assumes "l1_ok i s" "spec_send i req s = (r, C)" "replied i req s r C s'"
  shows "l1_ok i s'"
proof -
  have o: "only_cache i s s'" "contents_of (cache_at s' i) = C" "cs_next_id s' = cs_next_id s + reply_ids r"
    using assms(3) by (simp_all add: replied_def Let_def)
  have cf: "ca_config (cache_at s' i) = ca_config (cache_at s i)" using o(1) by (simp add: only_cache_def)
  have "store_ok (cs_next_id s + reply_ids r) (cache_at s i) (fst C) (snd C)"
    using lru_send_ok [OF l1_okD(6,2) [OF assms(1)], of "rq_addr req" "rq_type req = WRITE" r "fst C" "snd C"]
      assms(2) by (simp add: contents_of_def)
  then have "cache_inv (cs_next_id s') (cache_at s' i)"
    using o(2,3) store_ok_config [OF cf] by (auto simp: cache_inv_def contents_of_def)
  then show ?thesis using assms(1) o(1) l1_cache_config [OF cf] by (simp add: l1_ok_def only_cache_def)
qed

lemma reply_ids_nonneg [simp]: "0 \<le> reply_ids r"
  by (cases r) auto

lemma send_caches_ok:
  assumes "caches_ok s" "i < length (cs_caches s)" "ca_level (cache_at s i) = L1"
    "rq_type req = WRITE \<or> rq_type req = READ"
  shows "\<exists>ok s'. cache_send (Suc n) i req s = Inr (ok, s') \<and> caches_ok s' \<and> same_shape s s'"
proof -
  have l1: "l1_ok i s" by (rule caches_okD(1) [OF assms(1-3)])
  obtain r C s' where s': "spec_send i req s = (r, C)" "cache_send (Suc n) i req s = Inr (r \<noteq> Stalled, s')"
    "replied i req s r C s'" using l1_send_refines [OF l1 assms(4)] by blast
  have "only_cache i s s'" "cs_next_id s \<le> cs_next_id s'" using s'(3) by (simp_all add: replied_def Let_def)
  then show ?thesis
    using s'(2) caches_ok_step [OF assms(1) _ assms(3) _ replied_l1_ok [OF l1 s'(1,3)]] only_cache_shape by blast
qed

section \<open>Responses\<close>

lemma erase_mshr_ok:
  assumes "cache_inv n c" "cache_geo c"
  shows "\<exists>c'. erase_mshr adr c = Inr c' \<and> ca_config c' = ca_config c \<and> cache_inv n c' \<and> hit_mshr c' adr = None"
proof (cases "hit_mshr c adr")
  case None
  then show ?thesis using assms(1) by (simp add: erase_mshr_def)
next
  case (Some e)
  obtain a ix i where e: "e = (a, ix, i)" by (cases e) auto
  note D = store_okD [OF assms(1) [unfolded cache_inv_def]]
  note h = hit_mshr_Some [OF Some, unfolded e]
  obtain l where l: "l \<in> set (lines_at c ix)" "ln_id l = i" using D(5) [OF h(1)] by blast
  from upd_line_ok [OF l(1), of "\<lambda>l. l\<lparr>ln_lock := False\<rparr>", unfolded l(2)] obtain c' where
    c': "upd_line (ix, i) (\<lambda>l. l\<lparr>ln_lock := False\<rparr>) c = Inr c'" "ca_config c' = ca_config c"
    "ca_mshr_entries c' = ca_mshr_entries c" "lines_at c' = (lines_at c)(ix := map (unlock i) (lines_at c ix))"
    unfolding unlock_def by blast
  define d where "d = c'\<lparr>ca_mshr_entries := remove1 (a, ix, i) (ca_mshr_entries c')\<rparr>"
  have cf: "ca_config d = ca_config c" using c'(2) by (simp add: d_def)
  have "store_ok n c (lines_at d) (ca_mshr_entries d)"
    using store_unlock [OF assms(1) [unfolded cache_inv_def] assms(2) h(1)] c'(3,4) by (simp add: d_def)
  then have "cache_inv n d" using store_ok_config [OF cf] by (simp add: cache_inv_def)
  moreover have "hit_mshr d adr = None"
  proof -
    have "x = (a, ix, i)" if "x \<in> set (ca_mshr_entries c)" "align c (fst x) = align c adr" for x
      using D(3) that h by (intro inj_onD [of "align c \<circ> fst" "set (ca_mshr_entries c)"]) (auto simp: distinct_map)
    moreover have "distinct (ca_mshr_entries c)" using D(3) by (simp add: distinct_map)
    ultimately show ?thesis
      using ca_config_fields(11) [OF cf] c'(3) by (fastforce simp: hit_mshr_def find_None_iff d_def)
  qed
  ultimately show ?thesis using c'(1) cf Some e by (simp add: erase_mshr_def d_def)
qed

lemma upd_cache_id [simp]: "upd_cache i (\<lambda>_. cache_at s i) s = s"
  by (simp add: upd_cache_def cache_at_def)

lemma callback_l1:
  assumes "caches_ok s" "i < length (cs_caches s)" "ca_level (cache_at s i) = L1"
  shows "\<exists>s'. cache_callback (Suc n) req i s = Inr s' \<and> caches_ok s' \<and> same_shape s s'"
proof -
  have l1: "l1_ok i s" by (rule caches_okD(1) [OF assms])
  obtain c where c: "erase_mshr (rq_addr req) (cache_at s i) = Inr c" "ca_config c = ca_config (cache_at s i)"
    "cache_inv (cs_next_id s) c"
    using erase_mshr_ok [of "cs_next_id s" "cache_at s i" "rq_addr req"] l1 by (auto simp: l1_ok_def l1_cache_def)
  define t where "t = upd_cache i (\<lambda>_. c) s"
  have only: "only_cache i s t" using c(2) assms(2) by (simp add: only_cache_def t_def)
  have "l1_ok i t" using l1 c l1_cache_config [OF c(2)] by (simp add: l1_ok_def t_def)
  then have "caches_ok t" by (intro caches_ok_step [OF assms(1) only assms(3)]) (simp_all add: t_def)
  moreover have "cache_callback (Suc n) req i s = Inr t"
    using c(1) ca_config_fields(3) [OF c(2)] l1_okD(5) [OF l1] by (simp add: t_def)
  ultimately show ?thesis using only_cache_shape [OF only] by blast
qed

lemma callback_quiet:
  assumes "quiet (cache_at s i)"
  shows "cache_callback (Suc n) req i s = foldR (cache_callback n req) (ca_higher_cache (cache_at s i)) s"
  using assms by (simp add: erase_mshr_def hit_mshr_def quiet_def)

lemma callback_above:
  assumes IH: "\<And>h t. caches_ok t \<Longrightarrow> h < length (cs_caches t) \<Longrightarrow> ca_level (cache_at t h) = lev \<Longrightarrow>
      \<exists>s'. cache_callback n req h t = Inr s' \<and> caches_ok s' \<and> same_shape t s'"
    and "caches_ok s" "quiet (cache_at s i)" "level_above s i lev"
  shows "\<exists>s'. cache_callback (Suc n) req i s = Inr s' \<and> caches_ok s' \<and> same_shape s s'"
  unfolding callback_quiet [OF assms(3)]
proof (rule foldR_total)
  fix h t
  assume h: "h \<in> set (ca_higher_cache (cache_at s i))" and t: "caches_ok t \<and> same_shape s t"
  have "h < length (cs_caches t)" "ca_level (cache_at t h) = lev"
    using assms(4) h t same_shape_level [of s t h] by (auto simp: same_shape_def level_above_def)
  then show "\<exists>s'. cache_callback n req h t = Inr s' \<and> caches_ok s' \<and> same_shape s s'"
    using IH t same_shape_trans by blast
qed (simp add: assms(2))

lemma callback_l2:
  assumes "caches_ok s" "i < length (cs_caches s)" "ca_level (cache_at s i) = L2"
  shows "\<exists>s'. cache_callback (Suc (Suc n)) req i s = Inr s' \<and> caches_ok s' \<and> same_shape s s'"
  by (rule callback_above [OF callback_l1 assms(1) conjunct1 conjunct2, OF _ _ _ caches_okD(2) [OF assms]
      caches_okD(2) [OF assms]])

lemma callback_l3:
  assumes "caches_ok s" "i < length (cs_caches s)" "ca_level (cache_at s i) = L3"
  shows "\<exists>s'. cache_callback (Suc (Suc (Suc n))) req i s = Inr s' \<and> caches_ok s' \<and> same_shape s s'"
  by (rule callback_above [OF callback_l2 assms(1) conjunct1 conjunct2, OF _ _ _ caches_okD(3) [OF assms]
      caches_okD(3) [OF assms]])

section \<open>Construction\<close>

lemma new_cache_fields:
  assumes "new_cache sz assoc bs num lev pim s = Inr c"
  shows "ca_level c = lev" "ca_is_first_level c \<longleftrightarrow> lev = cs_first_level s" "ca_is_last_level c \<longleftrightarrow> lev = cs_last_level s"
    "ca_higher_cache c = []" "quiet c" "ca_assoc c = assoc" "ca_mshr_entry_num c = num" "ca_lower_cache c = None"
  using assms by (auto simp: new_cache_def Let_def quiet_def lines_at_def split: if_splits)

lemma new_l1_ok:
  assumes "new_cache (2 ^ 15) (2 ^ 3) (2 ^ 6) 16 L1 pim s = Inr c" "cs_first_level s = L1" "cs_last_level s = L1"
  shows "l1_cache c" "cache_inv n c"
proof -
  note F = new_cache_fields [OF assms(1)]
  show "l1_cache c" using new_cache_geo [OF assms(1)] F assms(2,3) by (simp add: l1_cache_def)
  show "cache_inv n c" using F by (auto simp: cache_inv_def quiet_def store_ok_def set_ok_def)
qed

lemma new_core_cache_total:
  "\<exists>c. new_cache (2 ^ 15) (2 ^ 3) (2 ^ 6) 16 L1 pim s = Inr c"
  "\<exists>c. new_cache (if pim then 2 ^ 6 else 2 ^ 18) (2 ^ 3) (2 ^ 6) 16 L2 pim s = Inr c"
  "\<exists>c. new_cache (2 ^ 23) (2 ^ 3) (2 ^ 6) num L3 pim s = Inr c"
proof -
  have "calc_log2 0 = Some 0" by (simp add: calc_log2_def shift_loop_step [of 0])
  moreover have "calc_log2 64 = Some 6" "calc_log2 512 = Some 9" "calc_log2 16384 = Some 14"
    using calc_log2_pow [of 6] calc_log2_pow [of 9] calc_log2_pow [of 14] by simp_all
  ultimately show
    "\<exists>c. new_cache (2 ^ 15) (2 ^ 3) (2 ^ 6) 16 L1 pim s = Inr c"
    "\<exists>c. new_cache (if pim then 2 ^ 6 else 2 ^ 18) (2 ^ 3) (2 ^ 6) 16 L2 pim s = Inr c"
    "\<exists>c. new_cache (2 ^ 23) (2 ^ 3) (2 ^ 6) num L3 pim s = Inr c"
    by (simp_all add: new_cache_def Let_def)
qed

lemma caches_ok_upd:
  assumes "caches_ok s" "i < length (cs_caches s)" "ca_level (f (cache_at s i)) = ca_level (cache_at s i)"
    "cache_ok (upd_cache i f s) i"
  shows "caches_ok (upd_cache i f s)"
proof -
  let ?t = "upd_cache i f s"
  have lv: "ca_level (cache_at ?t h) = ca_level (cache_at s h)" for h using assms(2,3) by (cases "h = i") simp_all
  have "cache_ok ?t j" if "j < length (cs_caches s)" "j \<noteq> i" for j
    using caches_okD(5) [OF assms(1) that(1)] that lv
    by (auto simp: cache_ok_def level_above_def l1_ok_def split: cache_level.splits)
  then show ?thesis using assms(1,4) by (auto simp: caches_ok_def)
qed

lemma add_cache_simps [simp]:
  "length (cs_caches (add_cache c s)) = Suc (length (cs_caches s))" "cs_next_id (add_cache c s) = cs_next_id s"
  "cache_at (add_cache c s) (length (cs_caches s)) = c" "i < length (cs_caches s) \<Longrightarrow> cache_at (add_cache c s) i = cache_at s i"
  "cs_first_level (add_cache c s) = cs_first_level s" "cs_last_level (add_cache c s) = cs_last_level s"
  by (simp_all add: add_cache_def cache_at_def nth_append)

lemma caches_ok_add:
  assumes "caches_ok s" "ca_higher_cache c = []"
    "ca_level c = L2 \<and> quiet c \<or> ca_level c = L3 \<and> quiet c \<or> ca_level c = L1 \<and> l1_cache c \<and> cache_inv (cs_next_id s) c"
  shows "caches_ok (add_cache c s)"
proof -
  have "cache_ok (add_cache c s) i" if "i < length (cs_caches s)" for i
    using caches_okD(5) [OF assms(1) that] that
    by (auto simp: cache_ok_def level_above_def l1_ok_def split: cache_level.splits)
  moreover have "cache_ok (add_cache c s) (length (cs_caches s))"
    using assms(2,3) by (auto simp: cache_ok_def level_above_def l1_ok_def)
  ultimately show ?thesis using assms(1) by (auto simp: caches_ok_def less_Suc_eq)
qed

lemma lower_cache_irrelevant [simp]:
  "quiet (c\<lparr>ca_lower_cache := x\<rparr>) = quiet c" "l1_cache (c\<lparr>ca_lower_cache := x\<rparr>) = l1_cache c"
  "cache_inv n (c\<lparr>ca_lower_cache := x\<rparr>) = cache_inv n c" "quiet (c\<lparr>ca_higher_cache := h\<rparr>) = quiet c"
  by (simp_all add: quiet_def l1_cache_def cache_geo_def cache_inv_def store_ok_def set_ok_def line_ok_def
    lines_at_def get_index_def get_tag_def align_def comp_def)

lemma caches_ok_concat:
  assumes ok: "caches_ok s" and len: "i < length (cs_caches s)" "j < length (cs_caches s)"
    and lev: "ca_level (cache_at s i) = L1 \<and> ca_level (cache_at s j) = L2 \<or>
      ca_level (cache_at s i) = L2 \<and> ca_level (cache_at s j) = L3"
  shows "caches_ok (concatlower i j s)"
    and "length (cs_caches (concatlower i j s)) = length (cs_caches s)"
    and "ca_level (cache_at (concatlower i j s) h) = ca_level (cache_at s h)"
proof -
  define t where "t = upd_cache i (\<lambda>c. c\<lparr>ca_lower_cache := Some j\<rparr>) s"
  have lv: "ca_level (cache_at t h) = ca_level (cache_at s h)" for h
    using len(1) by (cases "h = i") (simp_all add: t_def)
  have ij: "i \<noteq> j" using lev by auto
  have "cache_ok t i" using caches_okD(5) [OF ok len(1)] len(1) lv
    by (auto simp: cache_ok_def level_above_def l1_ok_def t_def split: cache_level.splits)
  then have t: "caches_ok t" using caches_ok_upd [OF ok len(1)] len(1) by (simp add: t_def)
  have c: "concatlower i j s = upd_cache j (\<lambda>c. c\<lparr>ca_higher_cache := ca_higher_cache c @ [i]\<rparr>) t"
    by (simp add: concatlower_def t_def)
  have tl: "length (cs_caches t) = length (cs_caches s)" by (simp add: t_def)
  have lv2: "ca_level (cache_at (concatlower i j s) h) = ca_level (cache_at t h)" for h
    unfolding c using len(2) tl by (cases "h = j") simp_all
  have "cache_ok (concatlower i j s) j"
    using caches_okD(5) [OF t, of j] len lev lv lv2 [unfolded c] tl unfolding cache_ok_def lv2
    by (auto simp: level_above_def c split: cache_level.splits)
  then show "caches_ok (concatlower i j s)" using caches_ok_upd [OF t, of j] len(2) tl by (simp add: c)
  show "length (cs_caches (concatlower i j s)) = length (cs_caches s)" by (simp add: c tl)
  show "ca_level (cache_at (concatlower i j s) h) = ca_level (cache_at s h)" by (simp add: lv lv2)
qed

definition cores_ok :: "(nat \<times> nat) list \<Rightarrow> cache_system \<Rightarrow> bool" where
  "cores_ok cores s \<longleftrightarrow> 0 < length (cs_caches s) \<and> ca_level (cache_at s 0) = L3 \<and>
     (\<forall>(l2, l1)\<in>set cores. l2 < length (cs_caches s) \<and> ca_level (cache_at s l2) = L2
        \<and> l1 < length (cs_caches s) \<and> ca_level (cache_at s l1) = L1)"

lemma cores_ok_shape: "cores_ok cores s \<Longrightarrow> same_shape s t \<Longrightarrow> cores_ok cores t"
  using same_shape_level [of s t] by (auto simp: cores_ok_def same_shape_def)

lemma new_core_caches_ok:
  assumes ok: "caches_ok s" and cores: "cores_ok cores s" and llc: "llc = None \<or> llc = Some 0"
  shows "\<exists>p s'. new_core_caches pim llc s = Inr (p, s') \<and> caches_ok s' \<and> cores_ok (cores @ [p]) s'"
proof -
  let ?n = "length (cs_caches s)"
  obtain c2 where c2: "new_cache (if pim then 2 ^ 6 else 2 ^ 18) (2 ^ 3) (2 ^ 6) 16 L2 pim s = Inr c2"
    using new_core_cache_total(2) by blast
  obtain c1 where c1: "new_cache (2 ^ 15) (2 ^ 3) (2 ^ 6) 16 L1 pim s = Inr c1" using new_core_cache_total(1) by blast
  note F1 = new_cache_fields [OF c1] and F2 = new_cache_fields [OF c2]
  have lev: "cs_first_level s = L1" "cs_last_level s = L1" using ok by (simp_all add: caches_ok_def)
  define s1 where "s1 = add_cache c1 (add_cache c2 s)"
  have s1: "caches_ok s1" unfolding s1_def
    using F1 F2 new_l1_ok [OF c1 lev] by (intro caches_ok_add caches_ok_add [OF ok]) auto
  have at: "length (cs_caches s1) = Suc (Suc ?n)" "cache_at s1 ?n = c2" "cache_at s1 (Suc ?n) = c1"
    "\<And>i. i < ?n \<Longrightarrow> cache_at s1 i = cache_at s i"
    by (simp_all add: s1_def add_cache_def cache_at_def nth_append)
  have n: "0 < ?n" using cores by (simp add: cores_ok_def)
  define s2 where "s2 = (case llc of None \<Rightarrow> s1 | Some j \<Rightarrow> concatlower ?n j s1)"
  have l3: "ca_level (cache_at s1 ?n) = L2 \<and> ca_level (cache_at s1 0) = L3"
    using at n F2 cores by (simp add: cores_ok_def)
  have s2: "caches_ok s2" "length (cs_caches s2) = Suc (Suc ?n)" "ca_level (cache_at s2 h) = ca_level (cache_at s1 h)" for h
    using llc s1 at(1) caches_ok_concat [OF s1, of ?n 0] l3 n by (auto simp: s2_def)
  have "ca_level (cache_at s2 (Suc ?n)) = L1 \<and> ca_level (cache_at s2 ?n) = L2" using s2(3) at F1 F2 by simp
  note s3 = caches_ok_concat [OF s2(1), of "Suc ?n" ?n, unfolded s2(2), OF _ _ disjI1 [OF this], simplified]
  have "cores_ok (cores @ [(?n, Suc ?n)]) (concatlower (Suc ?n) ?n s2)"
    unfolding cores_ok_def s3(2,3) s2(2,3)
  proof (intro conjI ballI, goal_cases)
    case (3 p)
    then show ?case using cores at F1(1) F2(1) by (auto simp: cores_ok_def less_SucI)
  qed (use l3 in auto)
  moreover have "new_core_caches pim llc s = Inr ((?n, Suc ?n), concatlower (Suc ?n) ?n s2)"
    unfolding new_core_caches_def Let_def c1 c2 s2_def s1_def by simp
  ultimately show ?thesis using s3(1) by blast
qed

lemma processor_caches_ok:
  "\<exists>cores s. processor_caches pim True l3 g tn nc = Inr (cores, s) \<and> caches_ok s \<and> cores_ok cores s
     \<and> length cores = nc"
proof -
  define s0 where "s0 = new_cache_system g True l3"
  obtain c where c: "new_cache (2 ^ 23) (2 ^ 3) (2 ^ 6) (16 * int tn) L3 pim s0 = Inr c"
    using new_core_cache_total(3) by blast
  note F = new_cache_fields [OF c]
  have s0: "caches_ok s0" "cs_caches s0 = []" by (simp_all add: s0_def new_cache_system_def caches_ok_def Let_def)
  have s1: "caches_ok (add_cache c s0)" using F by (intro caches_ok_add [OF s0(1)]) auto
  have "cores_ok [] (add_cache c s0)"
    using F(1) s0(2) by (simp add: cores_ok_def add_cache_def cache_at_def)
  have "\<exists>cs. foldR (\<lambda>_ (cores, s). if True then bindR (new_core_caches pim (if l3 then Some 0 else None) s)
      (\<lambda>(p, s'). Inr (cores @ [p], s')) else Inr (cores, s)) [0..<k] ([], add_cache c s0) = Inr cs
      \<and> caches_ok (snd cs) \<and> cores_ok (fst cs) (snd cs) \<and> length (fst cs) = k" for k
  proof (induction k)
    case 0
    then show ?case using s1 \<open>cores_ok [] _\<close> by simp
  next
    case (Suc k)
    then obtain cores s where k: "foldR (\<lambda>_ (cores, s). if True then bindR (new_core_caches pim (if l3 then Some 0 else None) s)
      (\<lambda>(p, s'). Inr (cores @ [p], s')) else Inr (cores, s)) [0..<k] ([], add_cache c s0) = Inr (cores, s)"
      "caches_ok s" "cores_ok cores s" "length cores = k" by auto
    with new_core_caches_ok [OF k(2,3), of "if l3 then Some 0 else None" pim] show ?case
      by (auto simp: foldR_append)
  qed
  from this [of nc] c show ?thesis by (auto simp: processor_caches_def Let_def simp flip: s0_def)
qed

section \<open>Reachable states\<close>

text \<open>
  The events a running processor causes in its caches: an access of a core (to its L1), a response
  that reaches \<open>Processor::receive\<close>, a tick; the memory behind \<open>send_memory\<close> moves on its own.
\<close>

inductive caches_reach ::
  "('m \<Rightarrow> request \<Rightarrow> (bool \<times> 'm) res) \<Rightarrow> bool \<Rightarrow> (nat \<times> nat) list \<Rightarrow> cache_system \<Rightarrow> 'm \<Rightarrow> bool"
  for send_memory l3 cores where
  Start: "processor_caches pim True l3 g tn nc = Inr (cores, s) \<Longrightarrow> caches_reach send_memory l3 cores s m"
| Access: "caches_reach send_memory l3 cores s m \<Longrightarrow> (l2, l1) \<in> set cores \<Longrightarrow>
     rq_type req = WRITE \<or> rq_type req = READ \<Longrightarrow> cache_send 3 l1 req s = Inr (ok, s') \<Longrightarrow>
     caches_reach send_memory l3 cores s' m"
| Response: "caches_reach send_memory l3 cores s m \<Longrightarrow> receive_caches l3 cores req s = Inr s' \<Longrightarrow>
     caches_reach send_memory l3 cores s' m"
| Tick: "caches_reach send_memory l3 cores s m \<Longrightarrow> cache_tick send_memory s m = Inr (called, s', m') \<Longrightarrow>
     caches_reach send_memory l3 cores s' m'"
| Memory: "caches_reach send_memory l3 cores s m \<Longrightarrow> caches_reach send_memory l3 cores s m'"

lemma receive_caches_ok:
  assumes "caches_ok s" "cores_ok cores s"
  shows "\<exists>s'. receive_caches l3 cores req s = Inr s' \<and> caches_ok s' \<and> same_shape s s'"
proof (cases l3)
  case True
  then show ?thesis
    using callback_l3 [OF assms(1), of 0 0 req] assms(2) by (simp add: receive_caches_def cores_ok_def numeral_3_eq_3)
next
  case False
  have "\<exists>s'. foldR (\<lambda>(l2, l1). cache_callback 3 req l2) cores s = Inr s' \<and> (caches_ok s' \<and> same_shape s s')"
  proof (rule foldR_total)
    fix p t
    assume p: "p \<in> set cores" and t: "caches_ok t \<and> same_shape s t"
    obtain l2 l1 where "p = (l2, l1)" by (cases p)
    then have l2: "l2 < length (cs_caches t)" "ca_level (cache_at t l2) = L2"
      using p cores_ok_shape [OF assms(2)] t by (fastforce simp: cores_ok_def)+
    show "\<exists>s'. (case p of (l2, l1) \<Rightarrow> cache_callback 3 req l2) t = Inr s' \<and> (caches_ok s' \<and> same_shape s s')"
      using callback_l2 [OF conjunct1 [OF t] l2, of 1 req] t same_shape_trans \<open>p = _\<close> by (auto simp: numeral_3_eq_3)
  qed (simp add: assms(1))
  then show ?thesis using False by (simp add: receive_caches_def)
qed

lemma caches_ok_lists:
  assumes "caches_ok s" "cs_caches t = cs_caches s" "cs_next_id t = cs_next_id s"
    "cs_first_level t = cs_first_level s" "cs_last_level t = cs_last_level s"
  shows "caches_ok t" "same_shape s t"
proof -
  have c: "cache_at t = cache_at s" using assms(2) by (simp add: cache_at_def fun_eq_iff)
  show "same_shape s t" using assms c by (simp add: same_shape_def)
  show "caches_ok t"
    using assms(1) unfolding caches_ok_def cache_ok_def level_above_def l1_ok_def c assms(2-5) .
qed

lemma cache_tick_keeps:
  assumes "cache_tick send_memory s m = Inr (called, s', m')"
  shows "cs_caches s' = cs_caches s" "cs_next_id s' = cs_next_id s" "cs_first_level s' = cs_first_level s"
    "cs_last_level s' = cs_last_level s" "cs_clk s' = cs_clk s + 1"
  using assms by (auto simp: cache_tick_def Let_def)

lemma caches_reach_ok: "caches_reach send_memory l3 cores s m \<Longrightarrow> caches_ok s \<and> cores_ok cores s"
proof (induction rule: caches_reach.induct)
  case (Start pim g tn nc s m)
  then show ?case using processor_caches_ok [of pim l3 g tn nc] by auto
next
  case (Access s m l2 l1 req ok s')
  then have "l1 < length (cs_caches s)" "ca_level (cache_at s l1) = L1" by (auto simp: cores_ok_def)
  with send_caches_ok [of s l1 req 2] Access show ?case by (auto simp: numeral_3_eq_3 intro: cores_ok_shape)
next
  case (Response s m req s')
  then show ?case using receive_caches_ok [of s cores l3 req] by (auto intro: cores_ok_shape)
next
  case (Tick s m called s' m')
  then show ?case using cache_tick_keeps [OF Tick(2)] caches_ok_lists [of s s'] cores_ok_shape by blast
qed

lemma wait_loop_total:
  assumes "\<forall>m r. \<exists>ok m'. send_memory m r = Inr (ok, m')"
  shows "\<exists>w' m'. wait_loop send_memory clk w m = Inr (w', m')"
proof (induction w arbitrary: m)
  case (Cons x w)
  obtain t r where x: "x = (t, r)" by (cases x)
  obtain ok m1 where "send_memory m r = Inr (ok, m1)" using assms by blast
  with Cons [of m1] show ?case by (auto simp: x)
qed simp

lemma cache_tick_total:
  assumes "\<forall>m r. \<exists>ok m'. send_memory m r = Inr (ok, m')"
  shows "\<exists>called s' m'. cache_tick send_memory s m = Inr (called, s', m')"
  using wait_loop_total [OF assms, of "cs_clk s + 1" "cs_wait_list s" m]
  by (auto simp: cache_tick_def Let_def)

lemma reach_l1:
  assumes "caches_reach send_memory l3 cores s m" "(l2, l1) \<in> set cores"
  shows "l1_ok l1 s"
  using caches_reach_ok [OF assms(1)] assms(2) caches_okD(1) [of s l1] by (auto simp: cores_ok_def)

text \<open>A first access to an empty cache that is not the last level and has no lower cache.\<close>

lemma quiet_send_null:
  assumes "i < length (cs_caches s)" "quiet (cache_at s i)" "\<not> ca_is_last_level (cache_at s i)"
    "ca_lower_cache (cache_at s i) = None" "0 < ca_assoc (cache_at s i)" "ca_mshr_entry_num (cache_at s i) \<noteq> 0"
    "rq_type req = WRITE \<or> rq_type req = READ"
  shows "cache_send (Suc n) i req s = Inl NullPointer"
proof -
  define t where "t = upd_stats i (count_miss req) (upd_cache i (\<lambda>c. set_lines (rq_addr req) (get_lines c (rq_addr req)) c)
    (upd_stats i (count_access req) s))"
  define c where "c = cache_at t i"
  have "same_contents i s t" unfolding t_def using assms(1)
    by (intro same_contents_trans [OF same_contents_trans [OF same_contents_stats same_contents_lines] same_contents_stats])
      (auto simp: upd_stats_def)
  then have cf: "ca_config c = ca_config (cache_at s i)" and i: "i < length (cs_caches t)"
    and q: "lines_at c = lines_at (cache_at s i)" "ca_mshr_entries c = ca_mshr_entries (cache_at s i)"
    using assms(1) by (simp_all add: same_contents_def only_cache_def contents_of_def c_def)
  have empty: "get_lines c adr = []" "hit_mshr c adr = None" "ca_mshr_entries c = []" for adr
    using assms(2) q by (simp_all add: quiet_def get_lines_at hit_mshr_def)
  note F = ca_config_fields [OF cf]
  have "send_mshr lower n i req t = Inl NullPointer" for lower
    using i assms(3-6) F empty
    by (simp add: send_mshr_def Let_def all_sets_locked_def allocate_line_def need_eviction_def find_line_def
      upd_line_def set_lines_def mk_line_def findR_def flip: c_def)
  moreover have "cache_send (Suc n) i req s = send_mshr (cache_send n) n i req t"
  proof -
    define u where "u = upd_cache i (\<lambda>c. set_lines (rq_addr req) (get_lines c (rq_addr req)) c) (upd_stats i (count_access req) s)"
    have "get_lines (cache_at u i) (rq_addr req) = []"
      using assms(1,2) by (simp add: u_def get_lines_at quiet_def upd_stats_def)
    then show ?thesis unfolding cache_send.simps Let_def u_def [symmetric] t_def
      using assms(7) by (auto simp: is_hit_def find_line_def send_miss_def)
  qed
  ultimately show ?thesis by simp
qed

section \<open>Properties\<close>

text \<open>
  C25.  In every state that the constructors, accesses, responses and ticks can produce, an access of a
  core returns, a response is delivered to the caches without failing, and so does a tick whose memory
  does not fail: no assertion of \<open>Cache.cpp\<close> fails (\<open>need_eviction\<close>, \<open>evict\<close>, \<open>invalidate\<close>), no null
  pointer and no erased line is used.
\<close>

theorem caches_never_fail:
  assumes "caches_reach send_memory l3 cores s m" "(l2, l1) \<in> set cores"
    and "rq_type req = WRITE \<or> rq_type req = READ"
    and "\<forall>m r. \<exists>ok m'. send_memory m r = Inr (ok, m')"
  shows "\<not> isl (cache_send 3 l1 req s) \<and> \<not> isl (receive_caches l3 cores resp s) \<and> \<not> isl (cache_tick send_memory s m)"
proof -
  have ok: "caches_ok s" "cores_ok cores s" using caches_reach_ok [OF assms(1)] by auto
  have "l1 < length (cs_caches s)" "ca_level (cache_at s l1) = L1" using ok(2) assms(2) by (auto simp: cores_ok_def)
  from send_caches_ok [OF ok(1) this assms(3), of 2] receive_caches_ok [OF ok, of l3 resp]
    cache_tick_total [OF assms(4), of s m]
  show ?thesis by (auto simp: numeral_3_eq_3 simp del: cache_send.simps)
qed

text \<open>A processor with one core, without a shared cache, right after construction.\<close>

lemma sample_caches:
  "\<exists>s s'. caches_reach (\<lambda>m r. Inr (True, m)) False [(1, 2)] s ()
     \<and> cache_send 3 2 (mk_request 4096 WRITE 0) s = Inr (True, s')"
proof -
  let ?ok = "\<lambda>s. case cache_send 3 2 (mk_request 4096 WRITE 0) s of Inl _ \<Rightarrow> False | Inr (ok, s') \<Rightarrow> ok"
  have "case processor_caches False True False L1 1 1 of Inl _ \<Rightarrow> False | Inr (cores, s) \<Rightarrow> cores = [(1, 2)] \<and> ?ok s"
    by code_simp
  then obtain s where s: "processor_caches False True False L1 1 1 = Inr ([(1, 2)], s)" "?ok s"
    by (cases "processor_caches False True False L1 1 1") (auto simp del: cache_send.simps)
  then obtain s' where "cache_send 3 2 (mk_request 4096 WRITE 0) s = Inr (True, s')"
    by (cases "cache_send 3 2 (mk_request 4096 WRITE 0) s") (auto simp del: cache_send.simps)
  with s(1) show ?thesis using Start [of False False L1 1 1 "[(1, 2)]" s "\<lambda>m r. Inr (True, m)" "()"] by blast
qed

lemma sample_request: "rq_type (mk_request 4096 WRITE 0) = WRITE" "rq_addr (mk_request 4096 WRITE 0) = 4096"
  by (simp_all add: mk_request_def)

theorem caches_never_fail_witness:
  "\<exists>s. caches_reach (\<lambda>m r. Inr (True, m)) False [(1, 2)] s ()
     \<and> \<not> isl (cache_send 3 2 (mk_request 4096 WRITE 0) s)
     \<and> \<not> isl (receive_caches False [(1, 2)] (mk_request 4096 READ 0) s) \<and> \<not> isl (cache_tick (\<lambda>m r. Inr (True, m)) s ())"
proof -
  obtain s where s: "caches_reach (\<lambda>m r. Inr (True, m)) False [(1, 2)] s ()" using sample_caches by blast
  have "\<forall>m r. \<exists>ok m'. (\<lambda>m r. Inr (True, m) :: (bool \<times> unit) res) m (r :: request) = Inr (ok, m')" by blast
  with caches_never_fail [OF s, of 1 2 "mk_request 4096 WRITE 0" "mk_request 4096 READ 0"] s sample_request(1)
  show ?thesis by (intro exI [of _ s] conjI) auto
qed

text \<open>
  C26.  \<open>Cache::send\<close> of an L1 refines the abstract cache with least-recently-used replacement: in every
  reachable state it returns false exactly when the abstract cache stalls, its lines and MSHR entries
  become those of the abstract cache, a hit is scheduled on the hit list after the latency of the level,
  a fetch (preceded by the write-back of a dirty victim) on the wait list, and no other cache changes.
\<close>

theorem l1_refines_lru:
  assumes "caches_reach send_memory l3 cores s m" "(l2, l1) \<in> set cores"
    and "rq_type req = WRITE \<or> rq_type req = READ"
  shows "\<exists>r C s'. lru_send (cache_at s l1) (cs_next_id s) (rq_addr req) (rq_type req = WRITE)
        (contents_of (cache_at s l1)) = (r, C)
      \<and> cache_send 3 l1 req s = Inr (r \<noteq> Stalled, s') \<and> replied l1 req s r C s'"
  using l1_send_refines [OF reach_l1 [OF assms(1,2)] assms(3), of 2] by (simp only: numeral_3_eq_3 One_nat_def Suc_1 numeral_2_eq_2)

theorem l1_refines_lru_witness:
  "\<exists>s r C s'. lru_send (cache_at s 2) (cs_next_id s) 4096 True (contents_of (cache_at s 2)) = (r, C)
      \<and> cache_send 3 2 (mk_request 4096 WRITE 0) s = Inr (r \<noteq> Stalled, s')
      \<and> replied 2 (mk_request 4096 WRITE 0) s r C s'"
proof -
  obtain s where s: "caches_reach (\<lambda>m r. Inr (True, m)) False [(1, 2)] s ()" using sample_caches by blast
  from l1_refines_lru [OF s, of 1 2 "mk_request 4096 WRITE 0"] show ?thesis
    unfolding sample_request by (intro exI [of _ s]) simp
qed

text \<open>
  C27.  No dirty block is lost: after an access that is accepted, the blocks that were dirty in the L1 and
  the block that was written are exactly those that are dirty in it now and the one whose write-back was
  put on the wait list.
\<close>

theorem l1_no_lost_write:
  assumes "caches_reach send_memory l3 cores s m" "(l2, l1) \<in> set cores"
    and "rq_type req = WRITE \<or> rq_type req = READ" "cache_send 3 l1 req s = Inr (True, s')"
  shows "dirty_block (cache_at s l1) (lines_at (cache_at s l1)) a
        \<or> rq_type req = WRITE \<and> align (cache_at s l1) a = align (cache_at s l1) (rq_addr req)
    \<longleftrightarrow> dirty_block (cache_at s l1) (lines_at (cache_at s' l1)) a
        \<or> (\<exists>t b. (t, mk_request b WRITE 0) \<in> set (drop (length (cs_wait_list s)) (cs_wait_list s'))
             \<and> align (cache_at s l1) a = align (cache_at s l1) b)"
proof -
  note l1 = reach_l1 [OF assms(1,2)]
  obtain r C where r: "spec_send l1 req s = (r, C)" "r \<noteq> Stalled" "replied l1 req s r C s'"
    using l1_send_refines [OF l1 assms(3), of 2] assms(4) by (auto simp: numeral_3_eq_3 simp del: cache_send.simps)
  have C: "C = (lines_at (cache_at s' l1), ca_mshr_entries (cache_at s' l1))"
    using r(3) by (auto simp: replied_def contents_of_def Let_def)
  have w: "drop (length (cs_wait_list s)) (cs_wait_list s')
      = reply_waits r (cs_clk s + ca_latency (cache_at s l1) ! level_num (ca_level (cache_at s l1))) req"
    using r(3) by (simp add: replied_def Let_def)
  have wb: "(\<exists>t. (t, mk_request b WRITE 0) \<in> set (reply_waits r t' req)) \<longleftrightarrow> r = Fetch (Some b)" for b t'
    by (cases "(r, t', req)" rule: reply_waits.cases) (auto simp: mk_request_def dest: arg_cong [where f = rq_type])
  have "(\<exists>t b. (t, mk_request b WRITE 0) \<in> set (drop (length (cs_wait_list s)) (cs_wait_list s'))
      \<and> align (cache_at s l1) a = align (cache_at s l1) b)
    \<longleftrightarrow> (\<exists>b. r = Fetch (Some b) \<and> align (cache_at s l1) a = align (cache_at s l1) b)"
    unfolding w using wb by blast
  then show ?thesis
    using lru_send_dirty [OF l1_okD(6,2) [OF l1] r(1) [unfolded C contents_of_def] r(2), of a] by simp
qed

theorem l1_no_lost_write_witness:
  "\<exists>s s'. cache_send 3 2 (mk_request 4096 WRITE 0) s = Inr (True, s')
     \<and> (dirty_block (cache_at s 2) (lines_at (cache_at s' 2)) 4096
        \<or> (\<exists>t b. (t, mk_request b WRITE 0) \<in> set (drop (length (cs_wait_list s)) (cs_wait_list s'))
             \<and> align (cache_at s 2) 4096 = align (cache_at s 2) b))"
proof -
  obtain s s' where s: "caches_reach (\<lambda>m r. Inr (True, m)) False [(1, 2)] s ()"
    and s': "cache_send 3 2 (mk_request 4096 WRITE 0) s = Inr (True, s')" using sample_caches by blast
  have "(1, 2) \<in> set [(1 :: nat, 2 :: nat)]" by simp
  from l1_no_lost_write [OF s this _ s', of 4096] s' show ?thesis
    unfolding sample_request by (intro exI [of _ s] exI [of _ s'] conjI) simp_all
qed

text \<open>
  C28.  The L1 of a core is a well-formed set-associative cache in every reachable state: a set never
  holds more lines than the associativity nor two lines of one tag, there are at most
  \<open>mshr_entry_num\<close> MSHR entries, no two of them for the same block, and a line is locked exactly as
  long as an MSHR entry points to it.
\<close>

theorem l1_wellformed:
  assumes "caches_reach send_memory l3 cores s m" "(l2, l1) \<in> set cores"
  shows "store_ok (cs_next_id s) (cache_at s l1) (lines_at (cache_at s l1)) (ca_mshr_entries (cache_at s l1))"
  by (rule l1_okD(6) [OF reach_l1 [OF assms]])

theorem l1_wellformed_witness:
  "\<exists>s. caches_reach (\<lambda>m r. Inr (True, m)) False [(1, 2)] s ()
     \<and> store_ok (cs_next_id s) (cache_at s 2) (lines_at (cache_at s 2)) (ca_mshr_entries (cache_at s 2))"
proof -
  obtain s where s: "caches_reach (\<lambda>m r. Inr (True, m)) False [(1, 2)] s ()" using sample_caches by blast
  with l1_wellformed [OF s, of 1 2] show ?thesis by (intro exI [of _ s] conjI) simp_all
qed

text \<open>
  C29.  The constructor of \<open>CacheSystem\<close> sets both the first and the last level to L1, so a miss of an L1
  goes to the memory directly: in every reachable state the L2 and L3 caches hold no line and no MSHR
  entry.
\<close>

theorem lower_levels_unused:
  assumes "caches_reach send_memory l3 cores s m" "i < length (cs_caches s)"
    and "ca_level (cache_at s i) = L2 \<or> ca_level (cache_at s i) = L3"
  shows "quiet (cache_at s i)"
  using caches_reach_ok [OF assms(1)] caches_okD(2,3) [OF _ assms(2)] assms(3) by auto

theorem lower_levels_unused_witness:
  "\<exists>s. caches_reach (\<lambda>m r. Inr (True, m)) False [(1, 2)] s () \<and> quiet (cache_at s 1)"
proof -
  obtain s where s: "caches_reach (\<lambda>m r. Inr (True, m)) False [(1, 2)] s ()" using sample_caches by blast
  have "1 < length (cs_caches s)" "ca_level (cache_at s 1) = L2"
    using caches_reach_ok [OF s] by (simp_all add: cores_ok_def)
  then show ?thesis using lower_levels_unused [OF s, of 1] s by blast
qed

text \<open>
  C30.  With a shared cache and no core caches a core sends its requests to the L3, which is neither the
  first nor the last level and has no lower cache: the first request dereferences a null pointer.
\<close>

theorem l3_only_null_pointer:
  assumes "0 < tn" "rq_type req = WRITE \<or> rq_type req = READ"
  shows "\<exists>s. processor_caches pim False True g tn nc = Inr ([], s) \<and> cache_send (Suc n) 0 req s = Inl NullPointer"
proof -
  define s0 where "s0 = new_cache_system g False True"
  obtain c where c: "new_cache (2 ^ 23) (2 ^ 3) (2 ^ 6) (16 * int tn) L3 pim s0 = Inr c"
    using new_core_cache_total(3) by blast
  note F = new_cache_fields [OF c]
  have first: "cs_last_level s0 = L1" and s0: "cs_caches s0 = []" by (simp_all add: s0_def new_cache_system_def Let_def)
  have "foldR (\<lambda>_ (cores, s). if False then f s else Inr (cores, s)) xs p = Inr p" for f xs and p :: "'b \<times> 'c"
    by (induction xs) auto
  then have P: "processor_caches pim False True g tn nc = Inr ([], add_cache c s0)"
    using c by (simp add: processor_caches_def Let_def split_def flip: s0_def)
  define s where "s = add_cache c s0"
  have at: "length (cs_caches s) = 1" "cache_at s 0 = c"
    using s0 by (simp_all add: s_def add_cache_def cache_at_def)
  have "cache_send (Suc n) 0 req s = Inl NullPointer"
    using at F first assms by (intro quiet_send_null) simp_all
  then show ?thesis using P by (simp add: s_def)
qed

theorem l3_only_null_pointer_witness:
  "\<exists>s. processor_caches False False True L1 1 4 = Inr ([], s) \<and> cache_send 3 0 (mk_request 64 READ 0) s = Inl NullPointer"
  using l3_only_null_pointer [of 1 "mk_request 64 READ 0" False L1 4 2]
  by (simp only: numeral_3_eq_3 numeral_2_eq_2) (simp add: mk_request_def)

end
