(* ===== verification/Processor_Inv.thy ===== *)
theory Processor_Inv
  imports Processor_Mem Core_Props Cache_System
begin

text \<open>
  The processor, its caches and the memory together.  \<open>sys_ok\<close> is the invariant of what the cores
  call; the interface \<open>core_port\<close> is instantiated with it, so that a cycle of the processor and the
  arrival of a response never fail.
\<close>

section \<open>The lists of the cache system\<close>

definition lists_ok :: "nat \<Rightarrow> cache_system \<Rightarrow> bool" where
  "lists_ok n s \<longleftrightarrow>
     (\<forall>(t, r)\<in>set (cs_wait_list s). (rq_type r = READ \<or> rq_type r = WRITE) \<and> rq_is_first_command r \<and> core_in (int n) r)
     \<and> (\<forall>(t, r)\<in>set (cs_hit_list s). 0 \<le> rq_coreid r \<and> rq_coreid r < int n)"

lemma reply_lists:
  assumes "rq_is_first_command req" "core_in n req"
  shows "\<forall>(t, r)\<in>set (reply_waits re u req). (rq_type r = READ \<or> rq_type r = WRITE) \<and> rq_is_first_command r \<and> core_in n r"
    "\<forall>(t, r)\<in>set (reply_hits re u req). r = req"
  using assms by (cases "(re, u, req)" rule: reply_waits.cases; simp add: mk_request_def core_in_def) (simp add: reply_hits_def)

lemma send_lists_ok:
  assumes "caches_ok s" "i < length (cs_caches s)" "ca_level (cache_at s i) = L1" "lists_ok n s"
    "rq_type req = READ \<or> rq_type req = WRITE" "rq_is_first_command req" "0 \<le> rq_coreid req" "rq_coreid req < int n"
  shows "\<exists>ok s'. cache_send (Suc k) i req s = Inr (ok, s') \<and> caches_ok s' \<and> same_shape s s' \<and> lists_ok n s'"
proof -
  have ty: "rq_type req = WRITE \<or> rq_type req = READ" using assms(5) by blast
  obtain ok s' where s': "cache_send (Suc k) i req s = Inr (ok, s')" "caches_ok s'" "same_shape s s'"
    using send_caches_ok [OF assms(1-3) ty] by blast
  obtain r C where "replied i req s r C s'"
    using l1_send_refines [OF caches_okD(1) [OF assms(1-3)] ty, of k] s'(1) by auto
  then have "\<exists>t. cs_hit_list s' = cs_hit_list s @ reply_hits r t req \<and> cs_wait_list s' = cs_wait_list s @ reply_waits r t req"
    by (auto simp: replied_def Let_def)
  then have "lists_ok n s'"
    using assms(4,7,8) reply_lists [OF assms(6), of "int n" r] unfolding lists_ok_def core_in_def by fastforce
  with s' show ?thesis by blast
qed

lemma erase_mshr_lists: "cs_hit_list (upd_cache i f s) = cs_hit_list s" "cs_wait_list (upd_cache i f s) = cs_wait_list s"
  by (simp_all add: upd_cache_def)

lemma callback_lists:
  "cache_callback n req i s = Inr s' \<Longrightarrow> cs_hit_list s' = cs_hit_list s \<and> cs_wait_list s' = cs_wait_list s"
proof (induction n arbitrary: i s s')
  case (Suc n)
  have fold: "foldR (\<lambda>h. cache_callback n req h) hs t = Inr t' \<Longrightarrow>
      cs_hit_list t' = cs_hit_list t \<and> cs_wait_list t' = cs_wait_list t" for hs t t'
    by (induction hs arbitrary: t) (auto dest: Suc.IH)
  show ?case using Suc.prems by (auto simp: erase_mshr_lists dest!: fold)
qed simp

lemma receive_lists:
  assumes "receive_caches l3 cores req s = Inr s'"
  shows "lists_ok n s' = lists_ok n s"
proof -
  have fold: "foldR (\<lambda>(l2, l1). cache_callback 3 req l2) cs t = Inr t' \<Longrightarrow>
      cs_hit_list t' = cs_hit_list t \<and> cs_wait_list t' = cs_wait_list t" for cs t t'
    by (induction cs arbitrary: t) (auto dest: callback_lists simp del: cache_callback.simps)
  have "cs_hit_list s' = cs_hit_list s \<and> cs_wait_list s' = cs_wait_list s"
    using assms callback_lists [of 3 req 0 s s'] fold [of cores s s']
    by (cases l3) (simp_all add: receive_caches_def del: cache_callback.simps)
  then show ?thesis by (simp add: lists_ok_def)
qed

lemma hit_loop_sets: "set (fst (hit_loop clk h)) \<subseteq> set h \<and> set (snd (hit_loop clk h)) \<subseteq> snd ` set h"
  by (induction h rule: hit_loop.induct) (auto simp: Let_def split_def)

lemma wait_loop_ok:
  assumes "\<And>t r m. (t, r) \<in> set w \<Longrightarrow> ok m \<Longrightarrow> \<exists>b m'. snd_mem m r = Inr (b, m') \<and> ok m'" and "ok m"
  shows "\<exists>w' m'. wait_loop snd_mem clk w m = Inr (w', m') \<and> set w' \<subseteq> set w \<and> ok m'"
  using assms
proof (induction w arbitrary: m)
  case (Cons x w)
  obtain t r where x: "x = (t, r)" by (cases x)
  obtain b m1 where b: "snd_mem m r = Inr (b, m1)" "ok m1" using Cons.prems(1) [of t r m] Cons.prems(2) x by auto
  have "\<exists>w' m'. wait_loop snd_mem clk w m1 = Inr (w', m') \<and> set w' \<subseteq> set w \<and> ok m'"
    by (rule Cons.IH [OF Cons.prems(1) b(2)]) (erule list.set_intros(2), assumption)
  then obtain w' m2 where "wait_loop snd_mem clk w m1 = Inr (w', m2)" "set w' \<subseteq> set w" "ok m2" by blast
  with b Cons.prems(2) show ?case by (auto simp: x)
qed simp

lemma cache_tick_ok:
  assumes "\<And>r m. rq_type r = READ \<or> rq_type r = WRITE \<Longrightarrow> rq_is_first_command r \<Longrightarrow> core_in (int n) r \<Longrightarrow> ok m \<Longrightarrow>
      \<exists>b m'. snd_mem m r = Inr (b, m') \<and> ok m'"
    and "ok m" "lists_ok n s"
  shows "\<exists>called s' m'. cache_tick snd_mem s m = Inr (called, s', m') \<and> ok m' \<and> lists_ok n s'
    \<and> (\<forall>r\<in>set called. 0 \<le> rq_coreid r \<and> rq_coreid r < int n)"
proof -
  have "\<exists>w' m'. wait_loop snd_mem (cs_clk s + 1) (cs_wait_list s) m = Inr (w', m') \<and> set w' \<subseteq> set (cs_wait_list s) \<and> ok m'"
    by (rule wait_loop_ok [where ok = ok]) (use assms in \<open>auto simp: lists_ok_def\<close>)
  then obtain w m' where w: "wait_loop snd_mem (cs_clk s + 1) (cs_wait_list s) m = Inr (w, m')"
    "set w \<subseteq> set (cs_wait_list s)" "ok m'" by blast
  note h = hit_loop_sets [of "cs_clk s + 1" "cs_hit_list s"]
  have "lists_ok n (s\<lparr>cs_clk := cs_clk s + 1, cs_wait_list := w, cs_hit_list := fst (hit_loop (cs_clk s + 1) (cs_hit_list s))\<rparr>)"
    using assms(3) w(2) h by (auto simp: lists_ok_def)
  moreover have "\<forall>r\<in>set (snd (hit_loop (cs_clk s + 1) (cs_hit_list s))). 0 \<le> rq_coreid r \<and> rq_coreid r < int n"
    using assms(3) h by (fastforce simp: lists_ok_def)
  ultimately show ?thesis using w by (auto simp: cache_tick_def Let_def)
qed

section \<open>The invariant\<close>

definition sys_ok :: "proc \<Rightarrow> sys \<Rightarrow> bool" where
  "sys_ok p e \<longleftrightarrow>
     mem_inv (fst (snd e)) \<and> pages_ok (fst (snd e)) \<and> mm_core_num (fst (snd e)) = int (length (pr_cores p))
     \<and> (if pr_no_core_caches p then pr_no_shared_cache p \<and> pr_core_caches p = []
        else caches_ok (fst e) \<and> cores_ok (pr_core_caches p) (fst e)
          \<and> length (pr_core_caches p) = length (pr_cores p) \<and> lists_ok (length (pr_cores p)) (fst e))"

definition cores_inv :: "proc \<Rightarrow> bool" where
  "cores_inv p \<longleftrightarrow> (\<forall>i<length (pr_cores p). core_ok (pr_cores p ! i) \<and> co_id (pr_cores p ! i) = int i)"

text \<open>What stays the same of a processor.\<close>

definition same_proc :: "proc \<Rightarrow> proc \<Rightarrow> bool" where
  "same_proc p q \<longleftrightarrow> length (pr_cores q) = length (pr_cores p) \<and> pr_core_caches q = pr_core_caches p
     \<and> pr_no_core_caches q = pr_no_core_caches p \<and> pr_no_shared_cache q = pr_no_shared_cache p
     \<and> pr_early_exit q = pr_early_exit p \<and> pr_cpu_cycles q = pr_cpu_cycles p"

lemma same_proc_refl [simp]: "same_proc p p"
  by (simp add: same_proc_def)

lemma same_proc_trans: "same_proc p q \<Longrightarrow> same_proc q r \<Longrightarrow> same_proc p r"
  by (simp add: same_proc_def)

lemma same_proc_sys: "same_proc p q \<Longrightarrow> sys_ok q e = sys_ok p e"
  by (simp add: same_proc_def sys_ok_def)

lemma same_proc_env: "same_proc p q \<Longrightarrow> proc_env rnd q i = proc_env rnd p i"
  by (simp add: same_proc_def proc_env_def core_send_def fun_eq_iff)

lemma same_proc_core:
  assumes "cores_inv p" "core_ok c" "co_id c = int i"
  shows "cores_inv (p\<lparr>pr_cores := (pr_cores p)[i := c]\<rparr>) \<and> same_proc p (p\<lparr>pr_cores := (pr_cores p)[i := c]\<rparr>)"
  using assms
  by (cases "i < length (pr_cores p)") (auto simp: cores_inv_def same_proc_def nth_list_update list_update_beyond)

section \<open>What a core relies on\<close>

definition mem_ok :: "nat \<Rightarrow> int \<Rightarrow> hmem \<Rightarrow> bool" where
  "mem_ok n clk mk \<longleftrightarrow> mem_inv (fst mk) \<and> pages_ok (fst mk) \<and> mm_core_num (fst mk) = int n \<and> mm_clk (fst mk) = clk"

lemma send_memory_ok:
  assumes "rq_type r = READ \<or> rq_type r = WRITE" "rq_is_first_command r" "core_in (int n) r" "mem_ok n clk mk"
  shows "\<exists>b mk'. send_memory mk r = Inr (b, mk') \<and> mem_ok n clk mk'"
proof -
  obtain b m' where s: "send (fst mk) r = Inr (b, m')" "mem_inv m'" "mm_core_num m' = int n"
    using send_step [of "fst mk" r] assms by (auto simp: mem_ok_def)
  then show ?thesis
    using send_frame [OF s(1)] pages_ok_cong [of m' "fst mk"] assms(4) by (simp add: send_memory_def mem_ok_def)
qed

lemma hmc_page_ok:
  assumes "mem_ok n clk mk" "0 \<le> i"
  shows "\<exists>a mk'. hmc_page rnd adr i mk = Inr (a, mk') \<and> mem_ok n clk mk'"
proof -
  obtain a m' where a: "page_allocator (fst mk) adr i (rnd (snd mk)) = Inr (a, m')" "pages_ok m'"
    using page_allocator_ok_mem [of "fst mk" i adr "rnd (snd mk)"] assms by (auto simp: mem_ok_def)
  then show ?thesis
    using same_memory_inv [OF page_allocator_frame [OF a(1)]] assms(1) by (simp add: hmc_page_def mem_ok_def)
qed

definition port_ok :: "proc \<Rightarrow> nat \<Rightarrow> int \<Rightarrow> sys \<Rightarrow> bool" where
  "port_ok p i clk e \<longleftrightarrow> sys_ok p e \<and> i < length (pr_cores p) \<and> mm_clk (fst (snd e)) = clk"

lemma port_ok_mem: "port_ok p i clk (s, mk) \<Longrightarrow> mem_ok (length (pr_cores p)) clk mk"
  by (simp add: port_ok_def sys_ok_def mem_ok_def)

lemma port_ok_upd: "port_ok p i clk (s, mk) \<Longrightarrow> mem_ok (length (pr_cores p)) clk mk' \<Longrightarrow> port_ok p i clk (s, mk')"
  by (auto simp: port_ok_def sys_ok_def mem_ok_def split: if_splits)

lemma core_send_ok:
  assumes "port_ok p i clk e" "rq_type r = READ \<or> rq_type r = WRITE" "rq_is_first_command r" "rq_coreid r = int i"
  shows "\<exists>b e'. core_send p i r e = Inr (b, e') \<and> port_ok p i clk e'"
proof (cases "pr_no_core_caches p")
  case True
  obtain s mk where e: "e = (s, mk)" by (cases e)
  obtain b mk' where "send_memory mk r = Inr (b, mk')" "mem_ok (length (pr_cores p)) clk mk'"
    using send_memory_ok [OF assms(2,3) _ port_ok_mem [OF assms(1) [unfolded e]]] assms(1,4)
    by (auto simp: core_in_def port_ok_def)
  moreover have "pr_no_shared_cache p" using assms(1) True by (simp add: port_ok_def sys_ok_def)
  ultimately show ?thesis using port_ok_upd [OF assms(1) [unfolded e]] True by (simp add: core_send_def e)
next
  case False
  obtain s mk where e: "e = (s, mk)" by (cases e)
  note P = assms(1) [unfolded e port_ok_def sys_ok_def]
  have i: "i < length (pr_core_caches p)" using P False by simp
  obtain l2 l1 where l: "pr_core_caches p ! i = (l2, l1)" by (cases "pr_core_caches p ! i")
  have "(l2, l1) \<in> set (pr_core_caches p)" using i l by (metis nth_mem)
  then have l1: "l1 < length (cs_caches s)" "ca_level (cache_at s l1) = L1" using P False by (auto simp: cores_ok_def)
  have "\<exists>ok s'. cache_send (Suc 2) l1 r s = Inr (ok, s') \<and> caches_ok s' \<and> same_shape s s' \<and> lists_ok (length (pr_cores p)) s'"
    using P False assms(2-4) l1 by (intro send_lists_ok) auto
  then obtain b s' where s': "cache_send 3 l1 r s = Inr (b, s')" "caches_ok s'" "same_shape s s'" "lists_ok (length (pr_cores p)) s'"
    by (auto simp: numeral_3_eq_3 simp del: cache_send.simps)
  have "port_ok p i clk (s', mk)" using P s' False cores_ok_shape [of _ s s'] by (simp add: port_ok_def sys_ok_def)
  then show ?thesis using i l s'(1) False by (simp add: core_send_def e nthR_lt del: cache_send.simps)
qed

interpretation hmc_port: core_port "proc_env rnd p i" "port_ok p i clk" "int i" for rnd p i clk
proof unfold_locales
  fix e and r :: request
  assume "port_ok p i clk e" "rq_type r = READ \<or> rq_type r = WRITE" "rq_is_first_command r" "rq_coreid r = int i"
  then show "\<exists>b e'. ce_send (proc_env rnd p i) r e = Inr (b, e') \<and> port_ok p i clk e'"
    using core_send_ok by (simp add: proc_env_def)
next
  fix e :: sys and j adr :: int
  assume ok: "port_ok p i clk e" and "0 \<le> j"
  obtain s mk where e: "e = (s, mk)" by (cases e)
  obtain a mk' where "hmc_page rnd adr j mk = Inr (a, mk')" "mem_ok (length (pr_cores p)) clk mk'"
    using hmc_page_ok [OF port_ok_mem [OF ok [unfolded e]] \<open>0 \<le> j\<close>] by blast
  then show "\<exists>a e'. ce_page_allocator (proc_env rnd p i) adr j e = Inr (a, e') \<and> port_ok p i clk e'"
    using port_ok_upd [OF ok [unfolded e]] by (simp add: proc_env_def e)
next
  fix e j
  assume "port_ok p i clk e"
  then show "port_ok p i clk (ce_record_core (proc_env rnd p i) j e)" by (simp add: proc_env_def)
qed

section \<open>Responses\<close>

text \<open>How far a core got: at most \<open>k\<close> more instructions retired and \<open>j\<close> more issued.\<close>

definition advanced :: "int \<Rightarrow> int \<Rightarrow> core \<Rightarrow> core \<Rightarrow> bool" where
  "advanced k j c d \<longleftrightarrow> co_cpu_type d = co_cpu_type c
     \<and> co_retired c \<le> co_retired d \<and> co_retired d \<le> co_retired c + k
     \<and> cr_cpu_inst (co_stats c) \<le> cr_cpu_inst (co_stats d) \<and> cr_cpu_inst (co_stats d) \<le> cr_cpu_inst (co_stats c) + j
     \<and> (co_cpu_type c = ''outOrder'' \<and> accounted c \<longrightarrow> accounted d)"

lemma advanced_refl [simp]: "0 \<le> k \<Longrightarrow> 0 \<le> j \<Longrightarrow> advanced k j c c"
  by (simp add: advanced_def)

lemma advanced_trans: "advanced 0 0 c d \<Longrightarrow> advanced k j d f \<Longrightarrow> advanced k j c f"
  by (simp add: advanced_def)

lemma cycled_advanced: "cycled c d \<Longrightarrow> advanced 4 5 c d"
  by (simp add: cycled_def advanced_def)

definition received :: "proc \<Rightarrow> proc \<Rightarrow> bool" where
  "received p q \<longleftrightarrow> same_proc p q \<and> cores_inv q \<and> (\<forall>i<length (pr_cores p). advanced 0 0 (pr_cores p ! i) (pr_cores q ! i))"

lemma received_refl: "cores_inv p \<Longrightarrow> received p p"
  by (simp add: received_def)

lemma received_trans: "received p q \<Longrightarrow> received q r \<Longrightarrow> received p r"
  unfolding received_def by (auto simp: same_proc_def intro: advanced_trans)

lemma proc_receive_ok:
  assumes "sys_ok p (s, mk)" "cores_inv p" "0 \<le> rq_coreid req" "rq_coreid req < int (length (pr_cores p))"
  shows "\<exists>p' s'. proc_receive req (p, s) = Inr (p', s') \<and> sys_ok p' (s', mk) \<and> received p p'"
proof -
  define i where "i = nat (rq_coreid req)"
  have i: "i < length (pr_cores p)" "rq_coreid req = int i" using assms(3,4) by (simp_all add: i_def)
  have "\<exists>s'. receive_caches (\<not> pr_no_shared_cache p) (pr_core_caches p) req s = Inr s' \<and> sys_ok p (s', mk)"
  proof (cases "pr_no_core_caches p")
    case True
    then show ?thesis using assms(1) by (simp add: sys_ok_def receive_caches_def)
  next
    case False
    then have ok: "caches_ok s" "cores_ok (pr_core_caches p) s" using assms(1) by (simp_all add: sys_ok_def)
    obtain s' where s': "receive_caches (\<not> pr_no_shared_cache p) (pr_core_caches p) req s = Inr s'" "caches_ok s'" "same_shape s s'"
      using receive_caches_ok [OF ok] by blast
    then show ?thesis
      using assms(1) False receive_lists [OF s'(1)] cores_ok_shape [OF ok(2) s'(3)] by (simp add: sys_ok_def)
  qed
  then obtain s' where s': "receive_caches (\<not> pr_no_shared_cache p) (pr_core_caches p) req s = Inr s'" "sys_ok p (s', mk)" by blast
  have "core_ok (pr_cores p ! i)" "co_id (pr_cores p ! i) = int i" using assms(2) i(1) by (simp_all add: cores_inv_def)
  from core_receive_ok [OF this(1), of req] this(2) obtain c where c: "core_receive req (pr_cores p ! i) = Inr c" "core_ok c"
    "co_id c = int i" "advanced 0 0 (pr_cores p ! i) c" by (auto simp: advanced_def)
  let ?p = "p\<lparr>pr_cores := (pr_cores p)[i := c]\<rparr>"
  have "received p ?p"
    using same_proc_core [OF assms(2) c(2,3)] c(4) i(1) by (auto simp: received_def nth_list_update)
  moreover have "proc_receive req (p, s) = Inr (?p, s')"
    using s'(1) c(1) i by (simp add: proc_receive_def indexR_lt)
  moreover have "sys_ok ?p (s', mk)" using same_proc_sys [of p ?p] same_proc_core [OF assms(2) c(2,3)] s'(2) by blast
  ultimately show ?thesis by blast
qed

lemma receive_all_ok:
  assumes "sys_ok p (s, mk)" "cores_inv p" "\<forall>r\<in>set rs. 0 \<le> rq_coreid r \<and> rq_coreid r < int (length (pr_cores p))"
  shows "\<exists>p' s'. foldR proc_receive rs (p, s) = Inr (p', s') \<and> sys_ok p' (s', mk) \<and> received p p'"
proof -
  have "\<exists>x. foldR proc_receive rs (p, s) = Inr x \<and> (sys_ok (fst x) (snd x, mk) \<and> received p (fst x))"
  proof (rule foldR_total)
    fix r and x :: "proc \<times> cache_system"
    assume r: "r \<in> set rs" and x: "sys_ok (fst x) (snd x, mk) \<and> received p (fst x)"
    then have q: "cores_inv (fst x)" "length (pr_cores (fst x)) = length (pr_cores p)" by (auto simp: received_def same_proc_def)
    obtain p' s' where "proc_receive r (fst x, snd x) = Inr (p', s')" "sys_ok p' (s', mk)" "received (fst x) p'"
      using proc_receive_ok [of "fst x" "snd x" mk r] q x r assms(3) by auto
    then show "\<exists>y. proc_receive r x = Inr y \<and> (sys_ok (fst y) (snd y, mk) \<and> received p (fst y))"
      using x received_trans by auto
  qed (use assms received_refl in simp)
  then show ?thesis by auto
qed

section \<open>A cycle\<close>

lemma tick_caches_ok:
  assumes "sys_ok p e" "cores_inv p"
  shows "\<exists>p' e'. tick_caches p e = Inr (p', e') \<and> sys_ok p' e' \<and> received p p' \<and> mm_clk (fst (snd e')) = mm_clk (fst (snd e))"
proof (cases "pr_no_core_caches p")
  case True
  then show ?thesis using assms received_refl by (simp add: tick_caches_def sys_ok_def)
next
  case False
  obtain s mk where e: "e = (s, mk)" by (cases e)
  define clk where "clk = mm_clk (fst mk)"
  note S = assms(1) [unfolded e sys_ok_def fst_conv snd_conv if_not_P [OF False]]
  have "mem_ok (length (pr_cores p)) clk mk" using S by (simp add: mem_ok_def clk_def)
  from cache_tick_ok [where ok = "mem_ok (length (pr_cores p)) clk" and n = "length (pr_cores p)" and snd_mem = send_memory, OF send_memory_ok this] S
  obtain called s' mk' where t: "cache_tick send_memory s mk = Inr (called, s', mk')" "mem_ok (length (pr_cores p)) clk mk'"
    "lists_ok (length (pr_cores p)) s'" "\<forall>r\<in>set called. 0 \<le> rq_coreid r \<and> rq_coreid r < int (length (pr_cores p))"
    by blast
  note k = cache_tick_keeps [OF t(1)]
  have "caches_ok s'" "same_shape s s'" using caches_ok_lists [OF _ k(1-4)] S by auto
  then have "sys_ok p (s', mk')" using S t(2,3) False cores_ok_shape [of _ s s'] by (simp add: sys_ok_def mem_ok_def)
  from receive_all_ok [OF this assms(2) t(4)] obtain p' s'' where
    "foldR proc_receive called (p, s') = Inr (p', s'')" "sys_ok p' (s'', mk')" "received p p'" by blast
  with t(1,2) False show ?thesis by (simp add: tick_caches_def e mem_ok_def clk_def)
qed

definition ticked :: "nat \<Rightarrow> proc \<Rightarrow> proc \<Rightarrow> bool" where
  "ticked k p q \<longleftrightarrow> same_proc p q \<and> cores_inv q
     \<and> (\<forall>i<length (pr_cores p). if i < k then advanced 4 5 (pr_cores p ! i) (pr_cores q ! i) else pr_cores q ! i = pr_cores p ! i)"

lemma tick_core_ok:
  assumes "sys_ok q e" "ticked i p q" "i < length (pr_cores p)"
  shows "\<exists>q' e'. tick_core rnd i (q, e) = Inr (q', e') \<and> sys_ok q' e' \<and> ticked (Suc i) p q'
    \<and> mm_clk (fst (snd e')) = mm_clk (fst (snd e))"
proof -
  have i: "i < length (pr_cores q)" "length (pr_cores q) = length (pr_cores p)" "same_proc p q" "cores_inv q"
    "pr_cores q ! i = pr_cores p ! i" using assms(2,3) by (simp_all add: ticked_def same_proc_def)
  have c: "core_ok (pr_cores q ! i)" "co_id (pr_cores q ! i) = int i" using i(1,4) by (simp_all add: cores_inv_def)
  have "port_ok q i (mm_clk (fst (snd e))) e" using assms(1) i(1) by (simp add: port_ok_def)
  from hmc_port.core_tick_ok [OF c(1) this c(2), of rnd] obtain d e' where
    d: "core_tick (proc_env rnd q i) (pr_cores q ! i) e = Inr (d, e')" "cycled (pr_cores q ! i) d"
      "port_ok q i (mm_clk (fst (snd e))) e'" by blast
  let ?q = "q\<lparr>pr_cores := (pr_cores q)[i := d]\<rparr>"
  have "core_ok d" "co_id d = int i" using d(2) c(2) by (simp_all add: cycled_def)
  from same_proc_core [OF i(4) this] have q: "cores_inv ?q" "same_proc q ?q" by auto
  have "ticked (Suc i) p ?q"
    using q same_proc_trans [OF i(3) q(2)] assms(2) i cycled_advanced [OF d(2)]
    by (auto simp: ticked_def nth_list_update less_Suc_eq)
  moreover have "tick_core rnd i (q, e) = Inr (?q, e')" using d(1) i(1) by (simp add: tick_core_def nthR_lt)
  moreover have "sys_ok ?q e'" "mm_clk (fst (snd e')) = mm_clk (fst (snd e))"
    using d(3) same_proc_sys [OF q(2)] by (simp_all add: port_ok_def)
  ultimately show ?thesis by blast
qed

text \<open>A cycle of the processor: it does not fail, and every core gets at most as far as the width of its window allows.\<close>

definition proc_cycled :: "proc \<Rightarrow> proc \<Rightarrow> bool" where
  "proc_cycled p q \<longleftrightarrow> same_proc (p\<lparr>pr_cpu_cycles := pr_cpu_cycles p + 1\<rparr>) q
     \<and> (\<forall>i<length (pr_cores p). advanced 4 5 (pr_cores p ! i) (pr_cores q ! i))"

lemma proc_tick_ok:
  assumes "sys_ok p e" "cores_inv p"
  shows "\<exists>p' e'. proc_tick rnd p e = Inr (p', e') \<and> sys_ok p' e' \<and> cores_inv p' \<and> proc_cycled p p'
    \<and> mm_clk (fst (snd e')) = mm_clk (fst (snd e))"
proof -
  define p0 where "p0 = p\<lparr>pr_cpu_cycles := pr_cpu_cycles p + 1\<rparr>"
  have "sys_ok p0 e" "cores_inv p0" using assms by (simp_all add: p0_def sys_ok_def cores_inv_def)
  then obtain p1 e1 where 1: "tick_caches p0 e = Inr (p1, e1)" "sys_ok p1 e1" "received p0 p1"
    "mm_clk (fst (snd e1)) = mm_clk (fst (snd e))" using tick_caches_ok by blast
  have "\<exists>x. foldR (tick_core rnd) [0..<length (pr_cores p1)] (p1, e1) = Inr x
    \<and> (sys_ok (fst x) (snd x) \<and> ticked (length (pr_cores p1)) p1 (fst x) \<and> mm_clk (fst (snd (snd x))) = mm_clk (fst (snd e)))"
  proof (rule foldR_upt_total)
    fix i and x :: "proc \<times> sys"
    assume "i < length (pr_cores p1)"
      and "sys_ok (fst x) (snd x) \<and> ticked i p1 (fst x) \<and> mm_clk (fst (snd (snd x))) = mm_clk (fst (snd e))"
    then show "\<exists>y. tick_core rnd i x = Inr y \<and> (sys_ok (fst y) (snd y) \<and> ticked (Suc i) p1 (fst y)
        \<and> mm_clk (fst (snd (snd y))) = mm_clk (fst (snd e)))"
      using tick_core_ok [of "fst x" "snd x" i p1 rnd] by auto
  qed (use 1 in \<open>simp add: ticked_def received_def\<close>)
  then obtain p2 e2 where 2: "foldR (tick_core rnd) [0..<length (pr_cores p1)] (p1, e1) = Inr (p2, e2)" "sys_ok p2 e2"
    "ticked (length (pr_cores p1)) p1 p2" "mm_clk (fst (snd e2)) = mm_clk (fst (snd e))" by auto
  have "same_proc p0 p2" using 1(3) 2(3) same_proc_trans by (auto simp: received_def ticked_def)
  moreover have "advanced 4 5 (pr_cores p ! i) (pr_cores p2 ! i)" if "i < length (pr_cores p)" for i
  proof (rule advanced_trans)
    have l: "length (pr_cores p1) = length (pr_cores p)" using 1(3) by (simp add: received_def same_proc_def p0_def)
    show "advanced 0 0 (pr_cores p ! i) (pr_cores p1 ! i)" using 1(3) that by (simp add: received_def p0_def)
    show "advanced 4 5 (pr_cores p1 ! i) (pr_cores p2 ! i)" using 2(3) that l by (simp add: ticked_def)
  qed
  ultimately have "proc_cycled p p2" by (simp add: proc_cycled_def p0_def)
  moreover have "cores_inv p2" using 2(3) by (simp add: ticked_def)
  moreover have "proc_tick rnd p e = Inr (p2, e2)" using 1(1) 2(1) by (simp add: proc_tick_def p0_def)
  ultimately show ?thesis using 2(2,4) by blast
qed

end
