(* ===== verification/Processor_System.thy ===== *)
theory Processor_System
  imports Processor_Inv
begin

text \<open>
  The simulator as a whole: the processor that the constructor makes from a trace, its caches and the HMC
  memory, and the states that their cycles and responses lead to.
\<close>

section \<open>Construction\<close>

definition core_list_ok :: "nat \<Rightarrow> core list \<Rightarrow> bool" where
  "core_list_ok n cs \<longleftrightarrow> length cs = n \<and> (\<forall>i<n. core_ok (cs ! i) \<and> co_id (cs ! i) = int i)"

lemma core_list_new: "core_list_ok n (map (\<lambda>i. new_core (int i) ty limit) [0..<n])"
proof -
  have "co_id (new_core (int i) ty limit) = int i" for i by (simp add: new_core_def)
  then show ?thesis using new_core_ok by (simp add: core_list_ok_def)
qed

lemma push_core_ok:
  assumes "push_core i r cs = Inr cs'" "core_list_ok n cs"
  shows "core_list_ok n cs'"
proof -
  obtain c where c: "nat i < length cs" "c = cs ! nat i"
    "cs' = cs[nat i := c\<lparr>co_rqst_queue := push_request (fst r) (fst (snd r)) (snd (snd r)) (co_rqst_queue c)\<rparr>]"
    using assms(1) by (auto simp: push_core_def)
  have "core_ok (c\<lparr>co_rqst_queue := push_request b a ty (co_rqst_queue c)\<rparr>)" if "core_ok c" for b a ty
    using that queue_ok_push by (simp add: core_ok_def)
  then show ?thesis using assms(2) c by (auto simp: core_list_ok_def nth_list_update)
qed

lemma place_unfiltered_ok:
  "place_unfiltered m r cs = Inr cs' \<Longrightarrow> core_list_ok n cs \<Longrightarrow> core_list_ok n cs'"
  using push_core_ok [of _ r cs cs' n] by (auto simp: place_unfiltered_def)

lemma place_vault_ok:
  assumes "place_vault v r (rr, cs) = Inr (rr', cs')" "core_list_ok n cs"
  shows "core_list_ok n cs'"
  using assms push_core_ok [of _ r cs cs' n] by (auto simp: place_vault_def Let_def split: if_splits)

lemma next_list_ok: "core_list_ok n cs \<Longrightarrow> core_list_ok n (map next_from_queue cs)"
  by (simp add: core_list_ok_def next_from_queue_ok next_from_queue_counts)

lemma hmc_page_mem:
  "hmc_page rnd adr i mk = Inr (a, mk') \<Longrightarrow> mem_ok n clk mk \<Longrightarrow> 0 \<le> i \<Longrightarrow> mem_ok n clk mk'"
  using hmc_page_ok [of n clk mk i rnd adr] by auto

lemma place_cpu_ok:
  assumes "place_cpu rnd z (oc, cs, mk) = Inr (oc', cs', mk')" "core_list_ok n cs" "mem_ok n clk mk"
    "\<forall>k\<in>set oc. 0 \<le> k" "0 \<le> zr_cpu_id z"
  shows "core_list_ok n cs' \<and> mem_ok n clk mk' \<and> (\<forall>k\<in>set oc'. 0 \<le> k)"
proof -
  obtain i a where a: "0 \<le> i" "\<forall>k\<in>set oc'. 0 \<le> k" "hmc_page rnd (zr_addr z) i mk = Inr (a, mk')"
    "\<exists>j. push_core j (zr_bubble_cnt z, a, zr_type z) cs = Inr cs'"
  proof (cases "int (length cs) \<le> 256")
    case True
    then show ?thesis using assms that by (auto simp: place_cpu_def Let_def)
  next
    case False
    let ?k = "oc ! nat (zr_cpu_id z)"
    have k: "nat (zr_cpu_id z) < length oc" "oc' = oc[nat (zr_cpu_id z) := ?k + 1]"
      "\<exists>a. hmc_page rnd (zr_addr z) (zr_cpu_id z + ?k * 256) mk = Inr (a, mk')
        \<and> (\<exists>j. push_core j (zr_bubble_cnt z, a, zr_type z) cs = Inr cs')"
      using assms(1) False by (auto simp: place_cpu_def Let_def)
    have "0 \<le> ?k" using k(1) assms(4) nth_mem by blast
    then have "\<forall>k\<in>set oc'. 0 \<le> k" "0 \<le> zr_cpu_id z + ?k * 256"
      using assms(4,5) k(2) by (auto dest!: set_update_subset_insert [THEN subsetD])
    with k(3) show ?thesis using that by blast
  qed
  then show ?thesis using push_core_ok assms(2) hmc_page_mem [OF a(3) assms(3)] by blast
qed

lemma place_zsim_ok:
  assumes "place_zsim rnd d z (rr, oc, cs, mk) = Inr (rr', oc', cs', mk')" "core_list_ok n cs" "mem_ok n clk mk"
    "\<forall>k\<in>set oc. 0 \<le> k" "0 \<le> zr_cpu_id z"
  shows "core_list_ok n cs' \<and> mem_ok n clk mk' \<and> (\<forall>k\<in>set oc'. 0 \<le> k)"
proof (cases "zr_addr z = -1 \<or> d")
  case True
  then show ?thesis using assms place_cpu_ok [of rnd z oc cs mk oc' cs' mk' n clk]
    by (auto simp: place_zsim_def split: if_splits)
next
  case False
  then obtain a where "hmc_page rnd (zr_addr z) 0 mk = Inr (a, mk')" "oc' = oc"
    "place_vault (vault_target (fst mk') a) (zr_bubble_cnt z, a, zr_type z) (rr, cs) = Inr (rr', cs')"
    using assms(1) by (auto simp: place_zsim_def)
  then show ?thesis using assms(2-4) hmc_page_mem place_vault_ok by auto
qed

lemma read_zsim_cpu: "0 \<le> zr_cpu_id z \<Longrightarrow> \<forall>x\<in>set (read_zsim t z). 0 \<le> zr_cpu_id x"
proof (induction t z rule: read_zsim.induct)
  case (1 t z)
  obtain b z' t' where g: "get_zsim_request t z = (b, z', t')" using prod_cases3 by blast
  have "0 \<le> zr_cpu_id z'" if b
  proof -
    obtain l u where "getline [] t = (l, u)" by force
    with g that have "z' = z\<lparr>zr_addr := -1\<rparr> \<or> zsim_line (split_str l) z = Inr z'"
      by (auto simp: get_zsim_request_def split: if_splits sum.splits)
    then show ?thesis using zsim_line_typed [of "split_str l" z z'] 1(2) by auto
  qed
  with 1(1) [OF g [symmetric]] g show ?case by (subst read_zsim.simps) auto
qed

lemma load_zsim_ok:
  assumes "load_zsim rnd d z t cs mk = Inr (cs', mk')" "core_list_ok n cs" "mem_ok n clk mk" "0 \<le> zr_cpu_id z"
  shows "core_list_ok n cs' \<and> mem_ok n clk mk'"
proof -
  obtain rr oc ds where f: "foldR (place_zsim rnd d) (read_zsim t z) (replicate 32 0, replicate 256 0, cs, mk)
      = Inr (rr, oc, ds, mk')" "cs' = map next_from_queue ds"
    using assms(1) by (auto simp: load_zsim_def)
  let ?P = "\<lambda>(rr :: int list, oc, cs, mk). core_list_ok n cs \<and> mem_ok n clk mk \<and> (\<forall>k\<in>set oc. (0 :: int) \<le> k)"
  have "?P (rr, oc, ds, mk')"
  proof (rule foldR_invariant [OF f(1), where P = ?P])
    fix x s s'
    assume x: "x \<in> set (read_zsim t z)" "?P s" "place_zsim rnd d x s = Inr s'"
    obtain r1 o1 c1 m1 r2 o2 c2 m2 where s: "s = (r1, o1, c1, m1)" "s' = (r2, o2, c2, m2)" by (metis surj_pair)
    have "0 \<le> zr_cpu_id x" using read_zsim_cpu [OF assms(4)] x(1) by blast
    then show "?P s'" using place_zsim_ok [of rnd d x r1 o1 c1 m1 r2 o2 c2 m2 n clk] x(2,3) unfolding s by simp
  qed (use assms(2,3) in auto)
  then show ?thesis using f(2) next_list_ok by auto
qed

lemma load_single_ok:
  assumes "load_single rnd cfg z t cs mk = Inr (cs', mk')" "core_list_ok n cs" "mem_ok n clk mk"
  shows "core_list_ok n cs' \<and> mem_ok n clk mk'"
proof (cases "cf_format cfg")
  case ZSIM
  then show ?thesis using assms load_zsim_ok [of rnd _ "z\<lparr>zr_addr := -1, zr_cpu_id := 0\<rparr>"] by (simp add: load_single_def)
next
  case PIN
  then obtain rs ds where f: "foldR (place_unfiltered (fst mk)) rs cs = Inr ds" "cs' = map next_from_queue ds" "mk' = mk"
    using assms(1) by (auto simp: load_single_def load_unfiltered_def)
  have "core_list_ok n ds" by (rule foldR_invariant [OF f(1), where P = "core_list_ok n"]) (use assms(2) place_unfiltered_ok in auto)
  then show ?thesis using f(2,3) assms(3) next_list_ok by simp
next
  case PISA
  then obtain rs rr ds where f: "foldR (\<lambda>r. place_vault (vault_target (fst mk) (fst (snd r))) r) rs (replicate 32 0, cs) = Inr (rr, ds)"
    "cs' = map next_from_queue ds" "mk' = mk"
    using assms(1) by (auto simp: load_single_def load_pisa_def)
  have "core_list_ok n (snd (rr, ds))"
    by (rule foldR_invariant [OF f(1), where P = "\<lambda>x. core_list_ok n (snd x)"]) (use assms(2) place_vault_ok in auto)
  then show ?thesis using f(2,3) assms(3) next_list_ok by simp
qed

lemma load_split_ok:
  assumes "sys_ok p e" "cores_inv p" "i < length (pr_cores p)"
  shows "\<exists>p' e'. load_split rnd files base i (p, e) = Inr (p', e') \<and> sys_ok p' e' \<and> cores_inv p' \<and> same_proc p p'
    \<and> mm_clk (fst (snd e')) = mm_clk (fst (snd e))"
proof -
  define c where "c = (pr_cores p ! i)\<lparr>co_trace_per_core := open_trace files False (base @ ''.'' @ show_digits 10 i),
    co_split_trace := True\<rparr>"
  have c: "core_ok c" "co_id c = int i" "co_split_trace c" using assms(2,3) by (simp_all add: cores_inv_def c_def core_ok_def)
  have "port_ok p i (mm_clk (fst (snd e))) e" using assms(1,3) by (simp add: port_ok_def)
  from hmc_port.next_request_ok [OF c(1) this, of rnd] c(3) obtain d e' where
    d: "next_from_trace (proc_env rnd p i) c e = Inr (d, e')" "core_ok d" "co_id d = co_id c"
      "port_ok p i (mm_clk (fst (snd e))) e'" by auto
  note q = same_proc_core [OF assms(2) d(2), of i]
  have "load_split rnd files base i (p, e) = Inr (p\<lparr>pr_cores := (pr_cores p)[i := d]\<rparr>, e')"
    using d(1) assms(3) by (simp add: load_split_def nthR_lt Let_def c_def)
  then show ?thesis using q d(3,4) c(2) same_proc_sys [of p "p\<lparr>pr_cores := (pr_cores p)[i := d]\<rparr>" e'] by (simp add: port_ok_def)
qed

lemma load_all_split_ok:
  assumes "sys_ok p e" "cores_inv p" "n \<le> length (pr_cores p)"
  shows "\<exists>p' e'. foldR (load_split rnd files base) [0..<n] (p, e) = Inr (p', e') \<and> sys_ok p' e' \<and> cores_inv p'
    \<and> same_proc p p' \<and> mm_clk (fst (snd e')) = mm_clk (fst (snd e))"
proof -
  have "\<exists>x. foldR (load_split rnd files base) [0..<n] (p, e) = Inr x
    \<and> (sys_ok (fst x) (snd x) \<and> cores_inv (fst x) \<and> same_proc p (fst x) \<and> mm_clk (fst (snd (snd x))) = mm_clk (fst (snd e)))"
  proof (rule foldR_total)
    fix i and x :: "proc \<times> sys"
    assume i: "i \<in> set [0..<n]" and x: "sys_ok (fst x) (snd x) \<and> cores_inv (fst x) \<and> same_proc p (fst x)
        \<and> mm_clk (fst (snd (snd x))) = mm_clk (fst (snd e))"
    then have "i < length (pr_cores (fst x))" using assms(3) by (simp add: same_proc_def)
    then obtain p' e' where y: "load_split rnd files base i (fst x, snd x) = Inr (p', e')" "sys_ok p' e'" "cores_inv p'"
      "same_proc (fst x) p'" "mm_clk (fst (snd e')) = mm_clk (fst (snd (snd x)))"
      using load_split_ok [of "fst x" "snd x" i rnd files base] x by blast
    show "\<exists>y. load_split rnd files base i x = Inr y
        \<and> (sys_ok (fst y) (snd y) \<and> cores_inv (fst y) \<and> same_proc p (fst y) \<and> mm_clk (fst (snd (snd y))) = mm_clk (fst (snd e)))"
      using x y same_proc_trans [of p "fst x" p'] by (intro exI [of _ "(p', e')"]) simp
  qed (use assms in simp)
  then show ?thesis by auto
qed

lemma processor_caches_lists:
  assumes "processor_caches pim cc l3 g tn nc = Inr (cores, s)"
  shows "cs_wait_list s = [] \<and> cs_hit_list s = [] \<and> (\<not> cc \<longrightarrow> cores = [])"
proof -
  define f where "f = (\<lambda>(_ :: nat) (cores, s). if cc then bindR (new_core_caches pim (if l3 then Some 0 else None) s)
    (\<lambda>(p, s'). Inr (cores @ [p], s')) else Inr (cores, s))"
  obtain c where c: "foldR f [0..<nc] ([], add_cache c (new_cache_system g cc l3)) = Inr (cores, s)"
    using assms by (auto simp: processor_caches_def Let_def f_def)
  let ?P = "\<lambda>x. cs_wait_list (snd x) = [] \<and> cs_hit_list (snd x) = [] \<and> (\<not> cc \<longrightarrow> fst x = ([] :: (nat \<times> nat) list))"
  have "?P (cores, s)"
  proof (rule foldR_invariant [OF c, where P = ?P])
    show "?P ([], add_cache c (new_cache_system g cc l3))" by (simp add: add_cache_def new_cache_system_def Let_def)
  next
    fix i x x'
    assume "?P x" "f i x = Inr x'"
    then show "?P x'"
      by (cases x) (auto simp: f_def new_core_caches_def Let_def concatlower_def add_cache_def upd_cache_def
        split: if_splits option.splits)
  qed
  then show ?thesis by simp
qed

text \<open>The configurations without L3 cache, or with caches for the cores and an L3 cache.\<close>

definition caches_config :: "proc_config \<Rightarrow> bool" where
  "caches_config cfg \<longleftrightarrow> cf_core_caches cfg \<or> \<not> cf_l3_cache cfg"

lemma new_processor_ok:
  assumes "new_processor rnd cfg g z files ts (m, k) = Inr (p, e)" "caches_config cfg" "mem_inv m" "pages_ok m"
    "mm_core_num m = int (cf_core_num cfg)"
  shows "sys_ok p e \<and> cores_inv p \<and> pr_cpu_cycles p = 0 \<and> mm_clk (fst (snd e)) = mm_clk m"
proof -
  define n where "n = cf_core_num cfg"
  define cores where "cores = map (\<lambda>i. new_core (int i) (cf_cpu_type cfg) (cf_limit cfg)) [0..<n]"
  obtain cc s where c: "processor_caches (cf_pim_mode cfg) (cf_core_caches cfg) (cf_l3_cache cfg) g (length ts) n = Inr (cc, s)"
    using assms(1) by (auto simp: new_processor_def n_def)
  define q where "q = \<lparr>pr_cores = cores, pr_core_caches = cc, pr_no_core_caches = \<not> cf_core_caches cfg,
    pr_no_shared_cache = \<not> cf_l3_cache cfg, pr_early_exit = cf_early_exit cfg, pr_cpu_cycles = 0\<rparr>"
  have q: "core_list_ok n cores" unfolding cores_def by (rule core_list_new)
  have env: "sys_ok (q\<lparr>pr_cores := cs\<rparr>) (s, mk) \<and> cores_inv (q\<lparr>pr_cores := cs\<rparr>)"
    if "core_list_ok n cs" "mem_ok n (mm_clk m) mk" for cs mk
    using that processor_caches_lists [OF c] processor_caches_ok [of "cf_pim_mode cfg" "cf_l3_cache cfg" g "length ts" n] c assms(2)
    by (cases "cf_core_caches cfg")
       (auto simp: sys_ok_def cores_inv_def core_list_ok_def mem_ok_def q_def lists_ok_def caches_config_def)
  have mk: "mem_ok n (mm_clk m) (m, k)" using assms(3-5) by (simp add: mem_ok_def n_def)
  show ?thesis
  proof (cases "cf_split_trace cfg")
    case True
    have "sys_ok q (s, m, k)" "cores_inv q" using env [OF q mk] by (simp_all add: q_def)
    then obtain p' e' where "foldR (load_split rnd files (ts ! 0)) [0..<n] (q, s, m, k) = Inr (p', e')" "sys_ok p' e'" "cores_inv p'"
      "pr_cpu_cycles p' = 0" "mm_clk (fst (snd e')) = mm_clk m"
      using load_all_split_ok [of q "(s, m, k)" n rnd files "ts ! 0"] q by (auto simp: q_def core_list_ok_def same_proc_def)
    moreover have "foldR (load_split rnd files (ts ! 0)) [0..<n] (q, s, m, k) = Inr (p, e)"
      using assms(1) c True by (auto simp: new_processor_def n_def [symmetric] q_def cores_def Let_def)
    ultimately show ?thesis by simp
  next
    case False
    then obtain cs mk' where "load_single rnd cfg z (open_trace files (cf_pim_mode cfg) (ts ! 0)) cores (m, k) = Inr (cs, mk')"
      "p = q\<lparr>pr_cores := cs\<rparr>" "e = (s, mk')"
      using assms(1) c by (auto simp: new_processor_def n_def [symmetric] q_def cores_def [symmetric] Let_def)
    moreover have "core_list_ok n cs \<and> mem_ok n (mm_clk m) mk'" using load_single_ok [OF calculation(1) q mk] .
    ultimately show ?thesis using env [of cs mk'] by (simp add: q_def mem_ok_def)
  qed
qed

section \<open>Reachable states\<close>

lemma capacity_ge: "geometry m \<Longrightarrow> 4096 \<le> mm_capacity_per_stack m"
proof -
  assume g: "geometry m"
  have "(2::int) ^ 12 \<le> 2 ^ 24" by simp
  also have "\<dots> \<le> org_counts (mm_hmc m) ! 0 * org_counts (mm_hmc m) ! 1 * org_counts (mm_hmc m) ! 2 * org_counts (mm_hmc m) ! 3"
    by (cases "hm_org (mm_hmc m)") (simp_all add: org_counts_def org_entry.defs)
  also have "\<dots> = 2 ^ (mm_addr_bits m ! 0 + mm_addr_bits m ! 1 + mm_addr_bits m ! 2 + mm_addr_bits m ! 3)"
    using g by (simp add: geometry_def power_add)
  also have "\<dots> \<le> 2 ^ (5 + total_bits (mm_addr_bits m))" by (intro power_increasing) (simp_all add: total_bits_def)
  finally show ?thesis using g by (simp add: geometry_def)
qed

lemma mem_reach_pages: "mem_reach m \<Longrightarrow> pages_ok m"
proof (induction rule: mem_reach.induct)
  case (Start h rec unlimited pim transl addressing garbage pt k m)
  obtain cs lays where n: "new_hmc_mem h cs pim 1 transl addressing lays k = Inr m"
    using Start(1) by (auto simp: start_run_HMC_def)
  from new_hmc_mem_geometry [OF n] have "4096 \<le> mm_max_address m" using capacity_ge [of m] by simp
  then show ?case using new_hmc_mem_pages [OF n] by (simp add: pages_ok_def)
next
  case (Step m m')
  from Step(2) have "page_state m' = page_state m"
    by (cases rule: mem_step.cases) (use mem_tick_frame send_frame in blast)+
  then show ?case using pages_ok_cong Step.IH by blast
qed

lemma mem_tick_sys:
  assumes "sys_ok p (s, m, k)" "mem_tick m = Inr m'"
  shows "sys_ok p (s, m', k)"
proof -
  have "mem_inv m" using assms(1) by (simp add: sys_ok_def)
  from mem_tick_step [OF this] assms(2) have "mem_inv m'" "mm_core_num m' = mm_core_num m" by auto
  then show ?thesis
    using assms(1) pages_ok_cong [of m' m] mem_tick_frame [OF assms(2)] by (auto simp: sys_ok_def split: if_splits)
qed

text \<open>A cycle of the memory and the responses it gives to the cores.\<close>

lemma sim_tick_memory_ok:
  assumes "sys_ok p e" "cores_inv p"
  shows "\<exists>p' e'. sim_tick_memory p e = Inr (p', e') \<and> sys_ok p' e' \<and> received p p'
    \<and> mm_clk (fst (snd e')) = mm_clk (fst (snd e)) + 1"
proof -
  obtain s m k where e: "e = (s, m, k)" by (cases e)
  have "mem_inv m" using assms(1) by (simp add: sys_ok_def e)
  then obtain m' where m: "mem_tick m = Inr m'" using mem_tick_total by blast
  have ok: "sys_ok p (s, m', k)" by (rule mem_tick_sys [OF assms(1) [unfolded e] m])
  then have "mem_inv m'" "mm_core_num m' = int (length (pr_cores p))" by (simp_all add: sys_ok_def)
  with responses_core [of m' m] have "\<forall>r\<in>set (responses m m'). 0 \<le> rq_coreid r \<and> rq_coreid r < int (length (pr_cores p))"
    by (simp add: core_in_def)
  from receive_all_ok [OF ok assms(2) this] obtain p' s' where
    "foldR proc_receive (responses m m') (p, s) = Inr (p', s')" "sys_ok p' (s', m', k)" "received p p'" by blast
  with m show ?thesis using mem_tick_frame [OF m] by (simp add: sim_tick_memory_def e)
qed

text \<open>
  The events of the simulator, in any order: a cycle of the processor, and a cycle of the memory with the
  responses it gives to the cores.  The memory was built for the number of cores of the configuration.
\<close>

inductive sim_reach :: "(nat \<Rightarrow> int) \<Rightarrow> proc \<Rightarrow> sys \<Rightarrow> bool" for rnd where
  Start: "mem_reach m \<Longrightarrow> mm_core_num m = int (cf_core_num cfg) \<Longrightarrow> caches_config cfg \<Longrightarrow>
    new_processor rnd cfg g z files ts (m, 0) = Inr (p, e) \<Longrightarrow> sim_reach rnd p e"
| Cycle: "sim_reach rnd p e \<Longrightarrow> proc_tick rnd p e = Inr (p', e') \<Longrightarrow> sim_reach rnd p' e'"
| Memory: "sim_reach rnd p e \<Longrightarrow> sim_tick_memory p e = Inr (p', e') \<Longrightarrow> sim_reach rnd p' e'"

lemma sim_reach_ok: "sim_reach rnd p e \<Longrightarrow> sys_ok p e \<and> cores_inv p"
proof (induction rule: sim_reach.induct)
  case (Start m cfg g z files ts p e)
  then show ?case using new_processor_ok mem_reach_inv mem_reach_pages by blast
next
  case (Cycle p e p' e')
  then show ?case using proc_tick_ok [of p e rnd] by auto
next
  case (Memory p e p' e')
  then show ?case using sim_tick_memory_ok [of p e] by (auto simp: received_def)
qed

section \<open>Properties\<close>

text \<open>
  C1.  The simulator never fails, in these configurations: one HMC stack of at most 32 vaults with one to
  eight host links, \<open>no_DRAM_latency\<close> off, and no L3 cache without caches of the cores (there the first
  request dereferences a null pointer).  If the constructor returns for the given trace files then in every state that cycles of the
  processor and of the memory produce, in any order, a further cycle of the processor succeeds, and so
  does a further cycle of the memory with the delivery of all its responses to the cores: no assertion of
  the window, the caches, the pages, the memory or its statistics fails, and no index is out of range.  Any
  other response to a core is received as well.  In its cycle every core retires at most four instructions
  and issues at most five, and an out-of-order core keeps its instruction counts consistent.
\<close>

theorem simulator_never_fails:
  assumes "sim_reach rnd p (s, m, k)"
  shows "(\<exists>p' e'. proc_tick rnd p (s, m, k) = Inr (p', e') \<and> proc_cycled p p')
    \<and> (\<exists>p' e'. sim_tick_memory p (s, m, k) = Inr (p', e'))
    \<and> (\<forall>req. 0 \<le> rq_coreid req \<and> rq_coreid req < int (length (pr_cores p)) \<longrightarrow> (\<exists>x. proc_receive req (p, s) = Inr x))"
proof -
  have ok: "sys_ok p (s, m, k)" "cores_inv p" using sim_reach_ok [OF assms] by auto
  show ?thesis using proc_tick_ok [OF ok, of rnd] sim_tick_memory_ok [OF ok] proc_receive_ok [OF ok] by blast
qed

text \<open>Two cores with caches, each reading its own trace.\<close>

definition sample_config :: proc_config where
  "sample_config = \<lparr>cf_pim_mode = False, cf_core_num = 2, cf_cpu_type = ''outOrder'', cf_format = ZSIM,
     cf_split_trace = True, cf_disable_per_scheduling = True, cf_core_caches = True, cf_l3_cache = True,
     cf_early_exit = False, cf_weighted_speedup = False, cf_limit = 0\<rparr>"

definition sample_files :: "string \<Rightarrow> string option" where
  "sample_files name = (if name = ''t.0'' then Some ''0 0 3 L 4096'' else None)"

lemma sample_processor:
  assumes "sample_start 0 = Inr m"
  shows "\<exists>p e. new_processor rnd sample_config L1 sample_zsim sample_files [''t''] (m, 0) = Inr (p, e)
    \<and> sim_reach rnd p e \<and> length (pr_cores p) = 2"
proof -
  obtain cc s where c: "processor_caches False True True L1 1 2 = Inr (cc, s)" "caches_ok s" "cores_ok cc s" "length cc = 2"
    using processor_caches_ok by blast
  define q where "q = \<lparr>pr_cores = map (\<lambda>i. new_core (int i) ''outOrder'' 0) [0..<2], pr_core_caches = cc,
    pr_no_core_caches = False, pr_no_shared_cache = False, pr_early_exit = False, pr_cpu_cycles = 0\<rparr>"
  have m: "mem_inv m" "pages_ok m" "mm_core_num m = 2"
    using mem_reach_inv mem_reach_pages sample_start_reach [OF assms] sample_cores [OF assms] by blast+
  have "lists_ok 2 s" using processor_caches_lists [OF c(1)] by (simp add: lists_ok_def)
  then have "sys_ok q (s, m, 0)" using c m by (simp add: sys_ok_def q_def)
  moreover have "cores_inv q" using core_list_new [of 2 "''outOrder''" 0] by (simp add: cores_inv_def q_def core_list_ok_def)
  ultimately obtain p e where p: "foldR (load_split rnd sample_files ''t'') [0..<2] (q, s, m, 0) = Inr (p, e)" "same_proc q p"
    using load_all_split_ok [of q "(s, m, 0)" 2 rnd sample_files "''t''"] by (auto simp: q_def)
  have new: "new_processor rnd sample_config L1 sample_zsim sample_files [''t''] (m, 0) = Inr (p, e)"
    using c(1) p(1) by (simp add: new_processor_def sample_config_def q_def nthR_def Let_def del: upt_Suc)
  moreover have "caches_config sample_config" by (simp add: caches_config_def sample_config_def)
  moreover have "mm_core_num m = int (cf_core_num sample_config)" using m(3) by (simp add: sample_config_def)
  ultimately have "sim_reach rnd p e" using sim_reach.Start [OF sample_start_reach [OF assms]] by blast
  moreover have "length (pr_cores p) = 2" using p(2) by (simp add: same_proc_def q_def)
  ultimately show ?thesis using new by blast
qed

theorem simulator_never_fails_witness:
  "\<exists>p s m k p' e' p'' e'' x. sim_reach (\<lambda>_. 0) p (s, m, k) \<and> length (pr_cores p) = 2
     \<and> proc_tick (\<lambda>_. 0) p (s, m, k) = Inr (p', e') \<and> sim_tick_memory p (s, m, k) = Inr (p'', e'')
     \<and> proc_receive (mk_request 4096 READ 1) (p, s) = Inr x"
proof -
  obtain m0 where m0: "sample_start 0 = Inr m0" using sample_start_ok by blast
  obtain p e where p: "sim_reach (\<lambda>_. 0) p e" "length (pr_cores p) = 2" using sample_processor [OF m0] by blast
  obtain s m k where e: "e = (s, m, k)" by (cases e)
  note n = simulator_never_fails [OF p(1) [unfolded e]]
  obtain p' e' where "proc_tick (\<lambda>_. 0) p (s, m, k) = Inr (p', e')" using n by blast
  moreover obtain p'' e'' where "sim_tick_memory p (s, m, k) = Inr (p'', e'')" using n by blast
  moreover obtain x where "proc_receive (mk_request 4096 READ 1) (p, s) = Inr x"
    using n [THEN conjunct2, THEN conjunct2, rule_format, of "mk_request 4096 READ 1"] p(2) by (auto simp: mk_request_def)
  ultimately show ?thesis using p e by blast
qed

end
