(* ===== verification/Simulation.thy ===== *)
theory Simulation
  imports Processor_System
begin

text \<open>
  The loop of \<open>run_cputrace\<close>: how often the processor and the memory are clocked, and when the loop is left.
\<close>

section \<open>Periods\<close>

lemma c_rem_nonneg: "0 \<le> u \<Longrightarrow> 0 \<le> v \<Longrightarrow> c_rem u v = u mod v"
  by (cases "u = 0") (simp_all add: c_rem_def)

lemma gcd_loop_eq: "0 \<le> u \<Longrightarrow> 0 \<le> v \<Longrightarrow> gcd_loop u v = gcd u v"
proof (induction u v rule: gcd_loop.induct)
  case (1 u v)
  show ?case
  proof (cases "v = 0")
    case False
    have "0 \<le> c_rem u v" using 1(2,3) False c_rem_nonneg [of u v] by simp
    from 1(1) [OF False 1(3) this] have "gcd_loop u v = gcd v (c_rem u v)" by (subst gcd_loop.simps) (simp add: False)
    also have "\<dots> = gcd u v" using 1(2,3) by (simp add: c_rem_nonneg flip: gcd_red_int)
    finally show ?thesis .
  qed (use 1(2) in \<open>simp add: gcd_loop.simps\<close>)
qed

lemma tick_gcd_eq: "0 \<le> u \<Longrightarrow> 0 \<le> v \<Longrightarrow> tick_gcd u v = gcd u v"
  by (simp add: tick_gcd_def gcd_loop_eq gcd.commute)

section \<open>Iterations\<close>

definition next_tick :: "int \<Rightarrow> int \<Rightarrow> int" where
  "next_tick c i = c * (i div c + 1) - 1"

lemma next_tick_Suc:
  assumes "0 < c"
  shows "i = next_tick c i \<Longrightarrow> (i + 1) div c = i div c + 1 \<and> next_tick c (i + 1) = next_tick c i + c"
    "i \<noteq> next_tick c i \<Longrightarrow> (i + 1) div c = i div c \<and> next_tick c (i + 1) = next_tick c i"
proof -
  define q r where "q = i div c" and "r = i mod c"
  have i: "i = c * q + r" and r: "0 \<le> r" "r < c" using assms by (simp_all add: q_def r_def)
  have n: "next_tick c i = c * q + c - 1" by (simp add: next_tick_def q_def algebra_simps)
  {
    assume "i = next_tick c i"
    then have "i + 1 = c * (q + 1)" using n by (simp add: algebra_simps)
    then show "(i + 1) div c = i div c + 1 \<and> next_tick c (i + 1) = next_tick c i + c"
      using assms by (simp add: next_tick_def q_def algebra_simps)
  next
    assume "i \<noteq> next_tick c i"
    then have "r + 1 < c" using n i r by linarith
    then have "(r + 1) div c = 0" using r(1) by (intro div_pos_pos_trivial) simp_all
    then have "(r + 1 + q * c) div c = q" using assms div_mult_self1 [of c "r + 1" q] by simp
    moreover have "i + 1 = r + 1 + q * c" using i by (simp add: mult.commute)
    ultimately have "(i + 1) div c = i div c" by (simp only: q_def)
    then show "(i + 1) div c = i div c \<and> next_tick c (i + 1) = next_tick c i" by (simp add: next_tick_def)
  }
qed

text \<open>The state before iteration \<open>i\<close>, when the memory had the clock \<open>t\<close> at the start.\<close>

definition sim_inv :: "int \<Rightarrow> int \<Rightarrow> int \<Rightarrow> sim \<Rightarrow> bool" where
  "sim_inv c d t st \<longleftrightarrow>
     sys_ok (sm_proc st) (sm_sys st) \<and> cores_inv (sm_proc st)
     \<and> sm_next_cpu_tick st = next_tick c (sm_i st) \<and> sm_next_mem_tick st = next_tick d (sm_i st)
     \<and> pr_cpu_cycles (sm_proc st) = sm_i st div c \<and> mm_clk (fst (snd (sm_sys st))) = t + sm_i st div d"

lemma sim_tick_memory_inv:
  assumes "sim_tick_memory p e = Inr (p', e')" "sys_ok p e" "cores_inv p"
  shows "sys_ok p' e' \<and> cores_inv p' \<and> pr_cpu_cycles p' = pr_cpu_cycles p
    \<and> mm_clk (fst (snd e')) = mm_clk (fst (snd e)) + 1"
  using sim_tick_memory_ok [OF assms(2,3)] assms(1) by (auto simp: received_def same_proc_def)

lemma sim_cpu_inv:
  assumes "proc_tick rnd p e = Inr (p', e')" "sys_ok p e" "cores_inv p"
  shows "sys_ok p' e' \<and> cores_inv p' \<and> pr_cpu_cycles p' = pr_cpu_cycles p + 1
    \<and> mm_clk (fst (snd e')) = mm_clk (fst (snd e))"
  using proc_tick_ok [OF assms(2,3), of rnd] assms(1) by (auto simp: proc_cycled_def same_proc_def)

text \<open>The state in which the loop is left: the processor was clocked once more than the iterations before require.\<close>

definition sim_left :: "proc_config \<Rightarrow> int \<Rightarrow> int \<Rightarrow> int \<Rightarrow> sim \<Rightarrow> bool" where
  "sim_left cfg c d t st \<longleftrightarrow>
     sim_done cfg (sm_proc st) (sm_sys st) \<and> pr_cpu_cycles (sm_proc st) = (sm_i st + 1) div c
     \<and> mm_clk (fst (snd (sm_sys st))) = t + sm_i st div d"

lemma sim_iteration_inv:
  assumes "sim_iteration rnd cfg c d st = Inr (stop, st')" "sim_inv c d t st" "0 < c" "0 < d"
  shows "if stop then sim_left cfg c d t st' \<and> sm_i st' = sm_i st else sim_inv c d t st' \<and> sm_i st' = sm_i st + 1"
proof -
  let ?i = "sm_i st"
  note inv = assms(2) [unfolded sim_inv_def]
  define cpu where "cpu = (if ?i = sm_next_cpu_tick st then
      bindR (proc_tick rnd (sm_proc st) (sm_sys st)) (\<lambda>(p, e).
        Inr (sim_done cfg p e, st\<lparr>sm_next_cpu_tick := sm_next_cpu_tick st + c, sm_proc := p, sm_sys := e\<rparr>))
    else Inr (False, st))"
  obtain b st1 where 1: "cpu = Inr (b, st1)"
    using assms(1) by (cases cpu) (auto simp: sim_iteration_def simp flip: cpu_def)
  have st1: "sys_ok (sm_proc st1) (sm_sys st1) \<and> cores_inv (sm_proc st1) \<and> sm_i st1 = ?i
    \<and> sm_next_cpu_tick st1 = next_tick c (?i + 1) \<and> sm_next_mem_tick st1 = next_tick d ?i
    \<and> pr_cpu_cycles (sm_proc st1) = (?i + 1) div c \<and> mm_clk (fst (snd (sm_sys st1))) = t + ?i div d
    \<and> (b \<longrightarrow> sim_done cfg (sm_proc st1) (sm_sys st1))"
  proof (cases "?i = sm_next_cpu_tick st")
    case True
    then obtain p e where p: "proc_tick rnd (sm_proc st) (sm_sys st) = Inr (p, e)" "b = sim_done cfg p e"
      "st1 = st\<lparr>sm_next_cpu_tick := sm_next_cpu_tick st + c, sm_proc := p, sm_sys := e\<rparr>"
      using 1 by (auto simp: cpu_def)
    have "?i = next_tick c ?i" by (rule trans [OF True]) (use inv in blast)
    note n = next_tick_Suc(1) [OF assms(3) this]
    have "sys_ok p e \<and> cores_inv p \<and> pr_cpu_cycles p = ?i div c + 1 \<and> mm_clk (fst (snd e)) = t + ?i div d"
      using sim_cpu_inv [OF p(1)] inv by simp
    then show ?thesis using n inv by (simp add: p)
  next
    case False
    have "?i \<noteq> next_tick c ?i" using False inv by metis
    from next_tick_Suc(2) [OF assms(3) this] show ?thesis using 1 inv False by (simp add: cpu_def)
  qed
  show ?thesis
  proof (cases b)
    case True
    then have "stop" "st' = st1" using assms(1) 1 by (simp_all add: sim_iteration_def flip: cpu_def)
    then show ?thesis using st1 True by (simp add: sim_left_def)
  next
    case False
    note run = assms(1) [unfolded sim_iteration_def, folded cpu_def]
    have i1: "sm_i st1 = ?i" using st1 by blast
    show ?thesis
    proof (cases "sm_i st1 = sm_next_mem_tick st1")
      case True
      then obtain p e where p: "sim_tick_memory (sm_proc st1) (sm_sys st1) = Inr (p, e)" "\<not> stop"
        "st' = st1\<lparr>sm_next_mem_tick := sm_next_mem_tick st1 + d, sm_proc := p, sm_sys := e, sm_i := sm_i st1 + 1\<rparr>"
        using run 1 False by auto
      have "?i = next_tick d ?i" by (rule trans [OF trans [OF i1 [symmetric] True]]) (use st1 in blast)
      note n = next_tick_Suc(1) [OF assms(4) this]
      have "sys_ok p e \<and> cores_inv p \<and> pr_cpu_cycles p = (?i + 1) div c \<and> mm_clk (fst (snd e)) = t + ?i div d + 1"
        using sim_tick_memory_inv [OF p(1)] st1 by simp
      then show ?thesis using n st1 p(2) by (simp add: sim_inv_def p(3))
    next
      case no: False
      then have "st' = st1\<lparr>sm_i := sm_i st1 + 1\<rparr>" "\<not> stop" using run 1 False by auto
      moreover have "?i \<noteq> next_tick d ?i" using no st1 by metis
      ultimately show ?thesis using next_tick_Suc(2) [OF assms(4), of ?i] st1 by (simp add: sim_inv_def)
    qed
  qed
qed

lemma sim_iteration_total:
  assumes "sim_inv c d t st"
  shows "\<exists>x. sim_iteration rnd cfg c d st = Inr x"
proof -
  have mem: "\<exists>p' e'. sim_tick_memory p e = Inr (p', e')" if "sys_ok p e" "cores_inv p" for p e
    using sim_tick_memory_ok [OF that] by blast
  have ok: "sys_ok (sm_proc st) (sm_sys st)" "cores_inv (sm_proc st)" using assms by (simp_all add: sim_inv_def)
  obtain p e where p: "proc_tick rnd (sm_proc st) (sm_sys st) = Inr (p, e)" "sys_ok p e" "cores_inv p"
    using proc_tick_ok [OF ok, of rnd] by blast
  obtain q f where "sim_tick_memory p e = Inr (q, f)" using mem [OF p(2,3)] by blast
  moreover obtain q' f' where "sim_tick_memory (sm_proc st) (sm_sys st) = Inr (q', f')" using mem [OF ok] by blast
  ultimately show ?thesis
    using p(1) by (cases "sm_i st = sm_next_cpu_tick st"; cases "sm_i st = sm_next_mem_tick st"; cases "sim_done cfg p e")
      (simp_all add: sim_iteration_def ex_bool_eq)
qed

lemma sim_loop_total:
  assumes "sim_inv c d t st" "0 < c" "0 < d"
  shows "\<exists>stop st'. sim_loop rnd cfg c d n st = Inr (stop, st')"
  using assms
proof (induction n arbitrary: st)
  case (Suc n)
  obtain stop st' where s: "sim_iteration rnd cfg c d st = Inr (stop, st')"
    using sim_iteration_total [OF Suc.prems(1)] by fastforce
  show ?case
  proof (cases stop)
    case False
    then have "sim_inv c d t st'" using sim_iteration_inv [OF s Suc.prems] by simp
    from Suc.IH [OF this Suc.prems(2,3)] show ?thesis using s False by simp
  qed (use s in \<open>simp add: ex_bool_eq\<close>)
qed (simp add: ex_bool_eq)

lemma sim_loop_inv:
  assumes "sim_loop rnd cfg c d n st = Inr (stop, st')" "sim_inv c d t st" "0 < c" "0 < d"
  shows "if stop then sim_left cfg c d t st' \<and> sm_i st \<le> sm_i st' \<and> sm_i st' < sm_i st + int n else sim_inv c d t st' \<and> sm_i st' = sm_i st + int n"
  using assms
proof (induction n arbitrary: st)
  case (Suc n)
  obtain b st1 where 1: "sim_iteration rnd cfg c d st = Inr (b, st1)"
    "(if b then Inr (True, st1) else sim_loop rnd cfg c d n st1) = Inr (stop, st')"
    using Suc.prems(1) by auto
  note i = sim_iteration_inv [OF 1(1) Suc.prems(2-4)]
  show ?case
  proof (cases b)
    case True
    then show ?thesis using 1(2) i by simp
  next
    case False
    then have "sim_inv c d t st1" "sm_i st1 = sm_i st + 1" using i by simp_all
    with Suc.IH [of st1] 1(2) False Suc.prems(3,4) show ?thesis by (cases stop) simp_all
  qed
qed simp

lemma mem_finish_same [simp]:
  "mm_clk (mem_finish m) = mm_clk m" "pending_requests (mem_finish m) = pending_requests m"
  by (simp_all add: mem_finish_def pending_requests_def ctrl_finish_def comp_def)

lemma sim_done_finish: "sim_done cfg p (s, mem_finish m, k) = sim_done cfg p (s, m, k)"
  by (simp add: sim_done_def)

lemma start_sim_inv:
  assumes "mem_reach m" "mm_core_num m = int (cf_core_num cfg)" "caches_config cfg"
    "new_processor rnd cfg g z files ts (m, 0) = Inr (p, e)" "0 < c" "0 < d"
  shows "sim_inv c d (mm_clk m)
    \<lparr>sm_i = 0, sm_next_cpu_tick = c - 1, sm_next_mem_tick = d - 1, sm_proc = p, sm_sys = e\<rparr>"
  using new_processor_ok [OF assms(4,3) mem_reach_inv [OF assms(1)] mem_reach_pages [OF assms(1)] assms(2)] assms(5,6)
  by (simp add: sim_inv_def next_tick_def)

section \<open>Properties\<close>

text \<open>The periods after the division.\<close>

definition cpu_period :: "proc_config \<Rightarrow> int \<Rightarrow> int \<Rightarrow> int" where
  "cpu_period cfg cpu_tk mem_tk =
     (let c = (if cf_pim_mode cfg then mem_tk else cpu_tk) in c div gcd c mem_tk)"

definition mem_period :: "proc_config \<Rightarrow> int \<Rightarrow> int \<Rightarrow> int" where
  "mem_period cfg cpu_tk mem_tk =
     (let c = (if cf_pim_mode cfg then mem_tk else cpu_tk) in mem_tk div gcd c mem_tk)"

lemma periods_pos:
  assumes "0 < cpu_tk" "0 < mem_tk"
  shows "0 < cpu_period cfg cpu_tk mem_tk" "0 < mem_period cfg cpu_tk mem_tk"
proof -
  have "0 < u div gcd u v \<and> 0 < v div gcd u v" if "0 < u" "0 < v" for u v :: int
    using that zdvd_imp_le [of "gcd u v" u] zdvd_imp_le [of "gcd u v" v] by (simp add: pos_imp_zdiv_pos_iff)
  with assms show "0 < cpu_period cfg cpu_tk mem_tk" "0 < mem_period cfg cpu_tk mem_tk"
    by (simp_all add: cpu_period_def mem_period_def Let_def)
qed

lemma run_cputrace_loop:
  assumes "0 < cpu_tk" "0 < mem_tk" "new_processor rnd cfg g z files ts (m, 0) = Inr (p, e)"
  shows "run_cputrace rnd cfg g z files ts cpu_tk mem_tk n m =
    bindR (sim_loop rnd cfg (cpu_period cfg cpu_tk mem_tk) (mem_period cfg cpu_tk mem_tk) n
        \<lparr>sm_i = 0, sm_next_cpu_tick = cpu_period cfg cpu_tk mem_tk - 1, sm_next_mem_tick = mem_period cfg cpu_tk mem_tk - 1,
         sm_proc = p, sm_sys = e\<rparr>)
      (\<lambda>(stop, st). Inr (stop, if stop then st\<lparr>sm_sys := (fst (sm_sys st), mem_finish (fst (snd (sm_sys st))),
         snd (snd (sm_sys st)))\<rparr> else st))"
proof -
  define u where "u = (if cf_pim_mode cfg then mem_tk else cpu_tk)"
  have "0 < u" using assms(1,2) by (simp add: u_def)
  then have "tick_gcd u mem_tk = gcd u mem_tk" using assms(2) by (simp add: tick_gcd_eq)
  with \<open>0 < u\<close> assms(3) show ?thesis
    unfolding run_cputrace_def cpu_period_def mem_period_def Let_def u_def [symmetric] by simp
qed

text \<open>
  C31.  The simulation loop runs and keeps the two clocks in their ratio, in the configurations in which the
  simulator does not fail (the memory is built for the configured number of cores, \<open>no_DRAM_latency\<close> is off,
  and there is no L3 cache without caches of the cores).  If the processor can be constructed from the trace
  then \<open>n\<close> iterations succeed.  With the periods divided by their greatest common divisor (in memory mode the
  processor runs with the clock of the memory), they clock the processor \<open>n div cpu_period\<close> times and the
  memory \<open>n div mem_period\<close> times; neither sending, nor allocating pages, nor responses touch the clocks.  The
  loop is left before only in a cycle of the processor after which the condition of the code to stop holds:
  with weighted speedup that all cores have reached their limit; otherwise with early exit that one core has
  finished; otherwise that all cores have finished and no request is pending in the memory.
\<close>

theorem run_cputrace_clocks:
  assumes "mem_reach m" "mm_core_num m = int (cf_core_num cfg)" "caches_config cfg" "0 < cpu_tk" "0 < mem_tk"
    and "new_processor rnd cfg g z files ts (m, 0) = Inr (p, e)"
  shows "\<exists>stop st. run_cputrace rnd cfg g z files ts cpu_tk mem_tk n m = Inr (stop, st) \<and>
    (if stop
     then sim_left cfg (cpu_period cfg cpu_tk mem_tk) (mem_period cfg cpu_tk mem_tk) (mm_clk m) st \<and> 0 \<le> sm_i st \<and> sm_i st < int n
     else pr_cpu_cycles (sm_proc st) = int n div cpu_period cfg cpu_tk mem_tk
       \<and> mm_clk (fst (snd (sm_sys st))) = mm_clk m + int n div mem_period cfg cpu_tk mem_tk)"
proof -
  let ?c = "cpu_period cfg cpu_tk mem_tk" and ?d = "mem_period cfg cpu_tk mem_tk"
  note pos = periods_pos [OF assms(4,5), of cfg]
  note start = start_sim_inv [OF assms(1-3,6) pos]
  obtain stop st where r: "sim_loop rnd cfg ?c ?d n
      \<lparr>sm_i = 0, sm_next_cpu_tick = ?c - 1, sm_next_mem_tick = ?d - 1, sm_proc = p, sm_sys = e\<rparr> = Inr (stop, st)"
    using sim_loop_total [OF start pos] by blast
  from sim_loop_inv [OF r start pos] show ?thesis
    by (cases stop) (auto simp: run_cputrace_loop [OF assms(4-6)] r sim_left_def sim_inv_def sim_done_finish)
qed

theorem run_cputrace_clocks_witness:
  "\<exists>m stop st. sample_start 0 = Inr m
     \<and> run_cputrace (\<lambda>_. 0) sample_config L1 sample_zsim sample_files [''t''] 1 2 1 m = Inr (stop, st)
     \<and> pr_cpu_cycles (sm_proc st) = 1 \<and> mm_clk (fst (snd (sm_sys st))) = mm_clk m"
proof -
  obtain m where m: "sample_start 0 = Inr m" using sample_start_ok by blast
  obtain p e where p: "new_processor (\<lambda>_. 0) sample_config L1 sample_zsim sample_files [''t''] (m, 0) = Inr (p, e)"
    using sample_processor [OF m] by blast
  have per: "cpu_period sample_config 1 2 = 1" "mem_period sample_config 1 2 = 2"
    by (simp_all add: cpu_period_def mem_period_def sample_config_def)
  have "mm_core_num m = int (cf_core_num sample_config)" "caches_config sample_config"
    using sample_cores [OF m] by (simp_all add: caches_config_def sample_config_def)
  from run_cputrace_clocks [OF sample_start_reach [OF m] this _ _ p, of 1 2 1] m show ?thesis
    unfolding per by (auto simp: sim_left_def split: if_splits)
qed

end
