(* ===== verification/Trace_Schedule.thy ===== *)
theory Trace_Schedule
  imports Processor_Mem
begin

text \<open>
  How the constructor of the processor spreads a trace over the cores: every core is near some of the
  vaults and gets exactly the requests to them, in the order of the trace.
\<close>

definition queued :: "core \<Rightarrow> (int \<times> int \<times> req_type) list" where
  "queued c = (let q = co_rqst_queue c in zip (sq_bubble_cnt q) (zip (sq_req_addr q) (sq_req_type q)))"

text \<open>The vault to which the memory sends a request with this address.\<close>

definition vault_of :: "hmc_mem \<Rightarrow> int \<Rightarrow> int" where
  "vault_of m a = rq_addr_vec (locate m (mk_request a READ 0)) ! Vault"

lemma vault_target_of: "vault_target m a = vault_of m a"
  by (cases "mm_type m")
     (simp_all add: vault_target_def vault_of_def locate_def mk_request_def map_RoCoBaVa_def map_RoBaCoVa_def
       map_RoCoBaBgVa_def Let_def split_def)

text \<open>The requests of the cores after some of them were placed.\<close>

definition placed :: "hmc_mem \<Rightarrow> (int \<times> int \<times> req_type) list \<Rightarrow> core list \<Rightarrow> core list \<Rightarrow> bool" where
  "placed m rs cs ds \<longleftrightarrow> length ds = length cs
     \<and> (\<forall>i<length cs. length (sq_bubble_cnt (co_rqst_queue (ds ! i))) = length (sq_req_addr (co_rqst_queue (ds ! i)))
         \<and> length (sq_req_addr (co_rqst_queue (ds ! i))) = length (sq_req_type (co_rqst_queue (ds ! i)))
         \<and> queued (ds ! i) = queued (cs ! i) @ filter (\<lambda>r. vault_of m (fst (snd r)) mod int (length cs) = int i) rs)"

lemma place_one:
  assumes "placed m rs cs ds" "cs \<noteq> []"
  shows "\<exists>ds'. push_core (vault_of m (fst (snd r)) mod int (length cs)) r ds = Inr ds' \<and> placed m (rs @ [r]) cs ds'"
proof -
  define v where "v = vault_of m (fst (snd r)) mod int (length cs)"
  have "0 \<le> v" "v < int (length cs)" using assms(2) by (simp_all add: v_def)
  then have v: "nat v < length ds" "v = int (nat v)" using assms(1) by (simp_all add: placed_def)
  define d where "d = (ds ! nat v)\<lparr>co_rqst_queue := push_request (fst r) (fst (snd r)) (snd (snd r)) (co_rqst_queue (ds ! nat v))\<rparr>"
  have "push_core v r ds = Inr (ds[nat v := d])" using v \<open>0 \<le> v\<close> by (simp add: push_core_def indexR_lt d_def)
  moreover have "length (sq_bubble_cnt (co_rqst_queue (ds ! nat v))) = length (sq_req_addr (co_rqst_queue (ds ! nat v)))"
    "length (sq_req_addr (co_rqst_queue (ds ! nat v))) = length (sq_req_type (co_rqst_queue (ds ! nat v)))"
    using assms(1) v(1) by (simp_all add: placed_def)
  then have d: "queued d = queued (ds ! nat v) @ [r]"
    by (cases r) (simp add: d_def queued_def push_request_def Let_def)
  have "placed m (rs @ [r]) cs (ds[nat v := d])"
    unfolding placed_def
  proof (intro conjI allI impI)
    fix i
    assume i: "i < length cs"
    have "v = int i \<longleftrightarrow> i = nat v" using v(2) by linarith
    then show "queued (ds[nat v := d] ! i)
        = queued (cs ! i) @ filter (\<lambda>r. vault_of m (fst (snd r)) mod int (length cs) = int i) (rs @ [r])"
      using assms(1) i v(1) d by (auto simp: placed_def nth_list_update v_def)
  qed (use assms(1) v(1) in \<open>auto simp: placed_def nth_list_update d_def push_request_def\<close>)
  ultimately show ?thesis unfolding v_def [symmetric] by blast
qed

lemma place_all:
  assumes "cs \<noteq> []"
    and f: "\<And>r ds. length ds = length cs \<Longrightarrow> f r ds = push_core (vault_of m (fst (snd r)) mod int (length cs)) r ds"
    and "placed m rs0 cs ds"
  shows "\<exists>ds'. foldR f rs ds = Inr ds' \<and> placed m (rs0 @ rs) cs ds'"
  using assms(3)
proof (induction rs arbitrary: rs0 ds)
  case (Cons r rs)
  have "length ds = length cs" using Cons.prems by (simp add: placed_def)
  then obtain d where "f r ds = Inr d" "placed m (rs0 @ [r]) cs d" using place_one [OF Cons.prems assms(1)] f by metis
  with Cons.IH [OF this(2)] show ?case by auto
qed auto

lemma place_unfiltered_eq:
  assumes "ds \<noteq> []"
  shows "place_unfiltered m r ds = push_core (vault_of m (fst (snd r)) mod int (length ds)) r ds"
  using assms by (simp add: place_unfiltered_def modR_def vault_target_of)

lemma place_vault_eq:
  assumes "ds \<noteq> []" "length ds \<le> 32"
  shows "place_vault (vault_target m (fst (snd r))) r (rr, ds)
    = bindR (push_core (vault_of m (fst (snd r)) mod int (length ds)) r ds) (\<lambda>ds'. Inr (rr, ds'))"
  using assms by (simp add: place_vault_def modR_def vault_target_of Let_def)

lemma push_core_length: "push_core i r ds = Inr ds' \<Longrightarrow> length ds' = length ds"
  by (auto simp: push_core_def)

lemma place_vault_fold:
  assumes "ds \<noteq> []" "length ds \<le> 32"
  shows "foldR (\<lambda>r. place_vault (vault_target m (fst (snd r))) r) rs (rr, ds)
    = bindR (foldR (place_unfiltered m) rs ds) (\<lambda>ds'. Inr (rr, ds'))"
  using assms
proof (induction rs arbitrary: ds)
  case (Cons r rs)
  show ?case
  proof (cases "push_core (vault_of m (fst (snd r)) mod int (length ds)) r ds")
    case (Inl er)
    then show ?thesis using Cons.prems by (simp add: place_vault_eq place_unfiltered_eq)
  next
    case (Inr d)
    then have "d \<noteq> []" "length d \<le> 32" using push_core_length [OF Inr] Cons.prems by auto
    with Cons.IH [OF this] Inr Cons.prems show ?thesis by (simp add: place_vault_eq place_unfiltered_eq)
  qed
qed simp

definition new_cores :: "nat \<Rightarrow> string \<Rightarrow> int \<Rightarrow> core list" where
  "new_cores n ty limit = map (\<lambda>i. new_core (int i) ty limit) [0..<n]"

lemma placed_new: "placed m [] (new_cores n ty limit) (new_cores n ty limit)"
  by (simp add: placed_def new_cores_def new_core_def new_rqst_queue_def)

text \<open>
  C32.  Placing a trace on the cores never fails, whatever the addresses, and gives core \<open>i\<close> exactly the
  requests whose vault (the one to which the memory will send them) is \<open>i\<close> modulo the number of cores, in
  the order of the trace: no request is lost, duplicated or reordered.  With at most 32 cores the scheduling
  for PISA and zsim traces places them in the same way.
\<close>

theorem trace_placed_by_vault:
  assumes "0 < n"
  shows "\<exists>cs. foldR (place_unfiltered m) rs (new_cores n ty limit) = Inr cs \<and> length cs = n
    \<and> (\<forall>i<n. queued (cs ! i) = filter (\<lambda>r. vault_of m (fst (snd r)) mod int n = int i) rs)
    \<and> (n \<le> 32 \<longrightarrow> foldR (\<lambda>r. place_vault (vault_target m (fst (snd r))) r) rs (rr, new_cores n ty limit) = Inr (rr, cs))"
proof -
  let ?c = "new_cores n ty limit"
  have l: "length ?c = n" "?c \<noteq> []" using assms by (auto simp: new_cores_def)
  have q: "queued (?c ! i) = []" if "i < n" for i
    using that by (simp add: queued_def new_cores_def new_core_def new_rqst_queue_def)
  have "\<exists>cs. foldR (place_unfiltered m) rs ?c = Inr cs \<and> placed m ([] @ rs) ?c cs"
  proof (rule place_all [OF l(2) _ placed_new])
    fix r and ds :: "core list"
    assume "length ds = length ?c"
    moreover from this have "ds \<noteq> []" using l by auto
    ultimately show "place_unfiltered m r ds = push_core (vault_of m (fst (snd r)) mod int (length ?c)) r ds"
      using place_unfiltered_eq by simp
  qed
  then obtain cs where cs: "foldR (place_unfiltered m) rs ?c = Inr cs" "placed m rs ?c cs" by auto
  with l q show ?thesis using place_vault_fold [OF l(2), of m rs rr] by (auto simp: placed_def)
qed

theorem trace_placed_by_vault_witness:
  "\<forall>m. \<exists>cs. foldR (place_unfiltered m) [(3, 64, READ), (0, 4096, WRITE)] (new_cores 1 ''inOrder'' 0) = Inr cs
     \<and> queued (cs ! 0) = [(3, 64, READ), (0, 4096, WRITE)]"
proof
  fix m
  let ?rs = "[(3, 64, READ), (0, 4096, WRITE)]"
  obtain cs where "foldR (place_unfiltered m) ?rs (new_cores 1 ''inOrder'' 0) = Inr cs"
    "\<forall>i<1. queued (cs ! i) = filter (\<lambda>r. vault_of m (fst (snd r)) mod int 1 = int i) ?rs"
    using trace_placed_by_vault [OF zero_less_one, of m ?rs "''inOrder''" 0 "[]"] by blast
  then show "\<exists>cs. foldR (place_unfiltered m) ?rs (new_cores 1 ''inOrder'' 0) = Inr cs \<and> queued (cs ! 0) = ?rs"
    by (intro exI [of _ cs] conjI) simp_all
qed

end
