(* ===== verification/Config_Model.thy ===== *)
theory Config_Model
  imports Processor_Model
begin

text \<open>
  The configuration (\<open>Config\<close> in \<open>ramulator/src/Config.h\<close> and \<open>Config.cpp\<close>): reading the file, the
  entries that the command line of \<open>Main.cpp\<close> overrides, and the values the processor reads.  The
  parsed command line is a map from option names to values.
\<close>

section \<open>State\<close>

record config =
  cg_format :: trace_format
  cg_options :: "string \<rightharpoonup> string"
  cg_stacks :: int
  cg_channels :: int
  cg_ranks :: int
  cg_subarrays :: int
  cg_cpu_frequency :: int
  cg_core_num :: int
  cg_cacheline_size :: int
  cg_expected_limit_insts :: int
  cg_disable_per_scheduling :: bool
  cg_split_trace :: bool
  cg_org :: string

text \<open>The members without an initialiser keep what \<open>garbage\<close> holds.\<close>

definition new_config :: "config \<Rightarrow> config" where
  "new_config garbage =
     garbage\<lparr>cg_options := Map.empty, cg_core_num := 0, cg_cacheline_size := 64, cg_expected_limit_insts := 0,
       cg_disable_per_scheduling := False, cg_split_trace := False, cg_org := ''in_order''\<rparr>"

text \<open>A number that is no \<open>int\<close> is undefined behaviour of \<open>atoi\<close>; here it is reduced to 32 bits.\<close>

definition atoi :: "string \<Rightarrow> int" where
  "atoi s = (case strto 10 s of None \<Rightarrow> 0 | Some (neg, v, _) \<Rightarrow> signed_take_bit 31 (if neg then - v else v))"

definition parse_to_const :: "string \<Rightarrow> string \<Rightarrow> config \<Rightarrow> config" where
  "parse_to_const name val cfg =
     (if name = ''stacks'' then cfg\<lparr>cg_stacks := atoi val\<rparr>
      else if name = ''channels'' then cfg\<lparr>cg_channels := atoi val\<rparr>
      else if name = ''ranks'' then cfg\<lparr>cg_ranks := atoi val\<rparr>
      else if name = ''subarrays'' then cfg\<lparr>cg_subarrays := atoi val\<rparr>
      else if name = ''cpu_frequency'' then cfg\<lparr>cg_cpu_frequency := atoi val\<rparr>
      else if name = ''expected_limit_insts'' then cfg\<lparr>cg_expected_limit_insts := atoi val\<rparr>
      else cfg)"

section \<open>The file\<close>

definition is_delim :: "char \<Rightarrow> bool" where
  "is_delim c \<longleftrightarrow> c \<in> {CHR '' '', CHR 0x09, CHR ''=''}"

text \<open>The inner loop: the words of a line between the delimiters.\<close>

function tokens :: "string \<Rightarrow> string list" where
  "tokens l =
     (case dropWhile is_delim l of
        [] \<Rightarrow> []
      | c # s \<Rightarrow> takeWhile (\<lambda>c. \<not> is_delim c) (c # s) # tokens (dropWhile (\<lambda>c. \<not> is_delim c) (c # s)))"
  by auto

lemma drop_token: "dropWhile is_delim l = c # s \<Longrightarrow> length (dropWhile (\<lambda>c. \<not> is_delim c) (c # s)) < length l"
proof -
  assume d: "dropWhile is_delim l = c # s"
  then have "\<not> is_delim c" by (metis hd_dropWhile list.distinct(1) list.sel(1))
  then have "length (dropWhile (\<lambda>c. \<not> is_delim c) (c # s)) \<le> length s" by (simp add: length_dropWhile_le)
  also have "\<dots> < length l" using length_dropWhile_le [of is_delim l] d by simp
  finally show ?thesis .
qed

termination tokens
  by (relation "measure length") (auto dest: drop_token simp del: dropWhile.simps)

declare tokens.simps [simp del]

text \<open>The lines that \<open>getline\<close> returns.\<close>

function file_lines :: "string \<Rightarrow> string list" where
  "file_lines s =
     (if s = [] then []
      else takeWhile (\<lambda>c. c \<noteq> newline) s #
        (case dropWhile (\<lambda>c. c \<noteq> newline) s of [] \<Rightarrow> [] | _ # r \<Rightarrow> file_lines r))"
  by auto

lemma drop_line: "dropWhile (\<lambda>c. c \<noteq> newline) s = c # r \<Longrightarrow> length r < length s"
  using length_dropWhile_le [of "\<lambda>c. c \<noteq> newline" s] by simp

termination file_lines by (relation "measure length") (auto dest: drop_line)

declare file_lines.simps [simp del]

definition set_entry :: "string \<Rightarrow> string \<Rightarrow> config \<Rightarrow> config" where
  "set_entry name val cfg = parse_to_const name val (cfg\<lparr>cg_options := (cg_options cfg)(name \<mapsto> val)\<rparr>)"

definition parse_line :: "string \<Rightarrow> config \<Rightarrow> config res" where
  "parse_line l cfg =
     (case tokens l of
        [] \<Rightarrow> Inr cfg
      | t # ts \<Rightarrow>
          if hd t = CHR ''#'' then Inr cfg
          else bindR (guardR (length ts = 1)) (\<lambda>_. Inr (set_entry t (hd ts) cfg)))"

text \<open>The constructor; a file that cannot be opened fails the assertion.\<close>

definition parse :: "(string \<Rightarrow> string option) \<Rightarrow> string \<Rightarrow> config \<Rightarrow> config res" where
  "parse files fname cfg =
     (case files fname of
        None \<Rightarrow> Inl AssertFailed
      | Some content \<Rightarrow> foldR parse_line (file_lines content) cfg)"

section \<open>Entries\<close>

definition config_entry :: "config \<Rightarrow> string \<Rightarrow> string" where
  "config_entry cfg name = (case cg_options cfg name of None \<Rightarrow> [] | Some v \<Rightarrow> v)"

definition config_contains :: "config \<Rightarrow> string \<Rightarrow> bool" where
  "config_contains cfg name \<longleftrightarrow> cg_options cfg name \<noteq> None"

definition add_entry :: "string \<Rightarrow> string \<Rightarrow> config \<Rightarrow> config" where
  "add_entry name val cfg =
     (if config_contains cfg name then cfg else cfg\<lparr>cg_options := (cg_options cfg)(name \<mapsto> val)\<rparr>)"

definition get_int_value :: "config \<Rightarrow> string \<Rightarrow> int res" where
  "get_int_value cfg name =
     (case cg_options cfg name of None \<Rightarrow> Inl AssertFailed | Some v \<Rightarrow> Inr (atoi v))"

definition pim_mode_enabled :: "config \<Rightarrow> bool res" where
  "pim_mode_enabled cfg = bindR (get_int_value cfg ''pim_mode'') (\<lambda>n. Inr (n = 1))"

text \<open>The quotient is truncated; a frequency of 0 divides a \<open>double\<close> by 0 and the conversion is undefined.\<close>

definition get_cpu_tick :: "config \<Rightarrow> int res" where
  "get_cpu_tick cfg =
     bindR (get_int_value cfg ''cpu_frequency'') (\<lambda>f.
       if f = 0 then Inl DivideByZero else Inr (sgn f * (1000000 div \<bar>f\<bar>)))"

definition has_l3_cache :: "config \<Rightarrow> bool" where
  "has_l3_cache cfg \<longleftrightarrow> cg_options cfg ''cache'' = Some ''all'' \<or> cg_options cfg ''cache'' = Some ''L3''"

definition has_core_caches :: "config \<Rightarrow> bool" where
  "has_core_caches cfg \<longleftrightarrow> cg_options cfg ''cache'' = Some ''all'' \<or> cg_options cfg ''cache'' = Some ''L1L2''"

definition is_early_exit :: "config \<Rightarrow> bool" where
  "is_early_exit cfg \<longleftrightarrow> cg_options cfg ''early_exit'' \<noteq> Some ''off''"

definition calc_weighted_speedup :: "config \<Rightarrow> bool" where
  "calc_weighted_speedup cfg \<longleftrightarrow> cg_expected_limit_insts cfg \<noteq> 0"

definition record_cmd_trace :: "config \<Rightarrow> bool" where
  "record_cmd_trace cfg \<longleftrightarrow> cg_options cfg ''record_cmd_trace'' = Some ''on''"

definition print_cmd_trace :: "config \<Rightarrow> bool" where
  "print_cmd_trace cfg \<longleftrightarrow> cg_options cfg ''print_cmd_trace'' = Some ''on''"

text \<open>\<open>find\<close> of a string in a string.\<close>

definition occurs :: "string \<Rightarrow> string \<Rightarrow> bool" where
  "occurs w s = (\<exists>i\<in>set [0..<Suc (length s)]. take (length w) (drop i s) = w)"

definition set_trace_format :: "string \<Rightarrow> config \<Rightarrow> config" where
  "set_trace_format t cfg =
     cfg\<lparr>cg_format := (if occurs ''pisa'' t then PISA else if occurs ''zsim'' t then ZSIM else PIN)\<rparr>"

text \<open>What the processor reads; \<open>limit\<close> is the uninitialised member of the cores.\<close>

definition proc_config_of :: "config \<Rightarrow> int \<Rightarrow> proc_config res" where
  "proc_config_of cfg limit =
     bindR (pim_mode_enabled cfg) (\<lambda>pim.
       Inr \<lparr>cf_pim_mode = pim, cf_core_num = nat (cg_core_num cfg), cf_cpu_type = cg_org cfg,
            cf_format = cg_format cfg, cf_split_trace = cg_split_trace cfg,
            cf_disable_per_scheduling = cg_disable_per_scheduling cfg,
            cf_core_caches = has_core_caches cfg, cf_l3_cache = has_l3_cache cfg,
            cf_early_exit = is_early_exit cfg, cf_weighted_speedup = calc_weighted_speedup cfg,
            cf_limit = limit\<rparr>)"

section \<open>The command line\<close>

text \<open>The options that set an entry, in the order of \<open>main\<close>.\<close>

definition entry_options :: "(string \<times> string) list" where
  "entry_options =
     [(''channel'', ''channel''), (''rank'', ''rank''), (''cache'', ''cache''),
      (''print-cmd-trace'', ''print_cmd_trace''), (''inflight-limit'', ''inflight_limit''),
      (''cpu-frequency'', ''cpu_frequency''), (''translation'', ''translation''), (''org'', ''org''),
      (''expected-limit-insts'', ''expected_limit_insts''), (''no-DRAM-latency'', ''no_DRAM_latency''),
      (''unlimit-bandwidth'', ''unlimit_bandwidth'')]"

definition apply_option :: "(string \<rightharpoonup> string) \<Rightarrow> string \<times> string \<Rightarrow> config \<Rightarrow> config" where
  "apply_option vm o_e cfg = (case vm (fst o_e) of None \<Rightarrow> cfg | Some v \<Rightarrow> set_entry (snd o_e) v cfg)"

definition set_flags :: "(string \<rightharpoonup> string) \<Rightarrow> config \<Rightarrow> config" where
  "set_flags vm cfg =
     (let c1 = (if vm ''disable-perf-scheduling'' \<noteq> None then cfg\<lparr>cg_disable_per_scheduling := True\<rparr> else cfg)
      in if vm ''split-trace'' \<noteq> None then c1\<lparr>cg_split_trace := True\<rparr> else c1)"

text \<open>
  The options after the configuration file was read; \<open>None\<close> if \<open>main\<close> returns because of an invalid
  mode.  Reading an option that was not given throws an exception.
\<close>

definition main_config :: "(string \<rightharpoonup> string) \<Rightarrow> config \<Rightarrow> config option res" where
  "main_config vm cfg0 =
     (let c1 = set_flags vm (fold (apply_option vm) entry_options cfg0) in
      case (case vm ''mode'' of
              None \<Rightarrow> Some c1
            | Some m \<Rightarrow> if m = ''cpu'' then Some (add_entry ''trace_type'' ''CPU'' c1)
                        else if m = ''dram'' then Some (add_entry ''trace_type'' ''DRAM'' c1)
                        else None) of
        None \<Rightarrow> Inr None
      | Some c2 \<Rightarrow>
          bindR (findR (vm ''trace-format'')) (\<lambda>f.
          bindR (findR (vm ''number-cores'')) (\<lambda>n.
          bindR (findR (vm ''core-org'')) (\<lambda>org.
            let c3 = (set_trace_format f c2)\<lparr>cg_core_num := atoi n, cg_org := org\<rparr>
            in Inr (Some (if config_entry c3 ''unlimit_bandwidth'' = ''true''
                          then set_entry ''speed'' (config_entry c3 ''speed'' @ ''_unlimit_bandwidth'') c3
                          else c3))))))"

end
