(* ===== verification/Config_Props.thy ===== *)
theory Config_Props
  imports Config_Model
begin

text \<open>
  What the configuration file and the command line give: entries are read back as they were written, and
  which options reach the entries that the program reads.
\<close>

section \<open>Words and lines\<close>

text \<open>A word can be written as a name or a value.\<close>

definition option_word :: "string \<Rightarrow> bool" where
  "option_word w \<longleftrightarrow> w \<noteq> [] \<and> (\<forall>c\<in>set w. \<not> is_delim c \<and> c \<noteq> newline)"

definition option_line :: "string \<times> string \<Rightarrow> string" where
  "option_line p = fst p @ '' = '' @ snd p"

lemma tokens_word:
  assumes "w \<noteq> []" "\<forall>c\<in>set w. \<not> is_delim c"
  shows "tokens (w @ d) = takeWhile (\<lambda>c. \<not> is_delim c) (w @ d) # tokens (dropWhile (\<lambda>c. \<not> is_delim c) d)"
proof -
  obtain c s where w: "w = c # s" using assms(1) by (cases w) auto
  then have "\<not> is_delim c" using assms(2) by simp
  then have "dropWhile is_delim (w @ d) = w @ d" by (simp add: w)
  moreover have "dropWhile (\<lambda>c. \<not> is_delim c) (w @ d) = dropWhile (\<lambda>c. \<not> is_delim c) d"
    using assms(2) by (simp add: dropWhile_append2)
  ultimately show ?thesis by (subst tokens.simps) (simp add: w)
qed

lemma tokens_delim: "is_delim c \<Longrightarrow> tokens (c # s) = tokens s"
  by (subst (1 2) tokens.simps) simp

lemma tokens_empty [simp]: "tokens [] = []"
  by (simp add: tokens.simps)

lemma take_word: "\<forall>c\<in>set w. \<not> is_delim c \<Longrightarrow> is_delim d \<Longrightarrow> takeWhile (\<lambda>c. \<not> is_delim c) (w @ d # s) = w"
  by (simp add: takeWhile_append)

lemma option_line_tokens:
  assumes "option_word n" "option_word v"
  shows "tokens (option_line (n, v)) = [n, v]"
proof -
  have w: "n \<noteq> []" "v \<noteq> []" "\<forall>c\<in>set n. \<not> is_delim c" "\<forall>c\<in>set v. \<not> is_delim c"
    using assms by (auto simp: option_word_def)
  have d: "is_delim CHR '' ''" "is_delim CHR ''=''" by (simp_all add: is_delim_def)
  have "tokens (option_line (n, v)) = n # tokens ('' = '' @ v)"
    using tokens_word [OF w(1,3), of "'' = '' @ v"] w(3) d(1) by (simp add: option_line_def take_word)
  also have "tokens ('' = '' @ v) = tokens (v @ [])" using d by (simp add: tokens_delim)
  also have "\<dots> = [v]" using tokens_word [OF w(2,4), of "[]"] w(4) by (simp add: takeWhile_eq_all_conv [THEN iffD2])
  finally show ?thesis .
qed

lemma file_lines_Cons:
  assumes "newline \<notin> set l"
  shows "file_lines (l @ newline # s) = l # file_lines s"
proof -
  have "\<forall>c\<in>set l. c \<noteq> newline" using assms by auto
  then show ?thesis by (subst file_lines.simps) (simp add: takeWhile_append dropWhile_append)
qed

lemma file_lines_all:
  "\<forall>l\<in>set ls. newline \<notin> set l \<Longrightarrow> file_lines (concat (map (\<lambda>l. l @ [newline]) ls)) = ls"
proof (induction ls)
  case (Cons l ls)
  then show ?case using file_lines_Cons [of l "concat (map (\<lambda>l. l @ [newline]) ls)"] by simp
qed (simp add: file_lines.simps)

lemma option_line_newline: "option_word n \<Longrightarrow> option_word v \<Longrightarrow> newline \<notin> set (option_line (n, v))"
proof -
  have "newline \<noteq> CHR '' ''" "newline \<noteq> CHR ''=''" by (simp_all add: newline_def)
  then show "option_word n \<Longrightarrow> option_word v \<Longrightarrow> newline \<notin> set (option_line (n, v))"
    by (auto simp: option_line_def option_word_def)
qed

lemma set_entry_options: "cg_options (set_entry n v cfg) = (cg_options cfg)(n \<mapsto> v)"
  by (simp add: set_entry_def parse_to_const_def)

lemma parse_lines:
  assumes "\<forall>(n, v)\<in>set opts. option_word n \<and> option_word v \<and> hd n \<noteq> CHR ''#''"
  shows "\<exists>cfg'. foldR parse_line (map option_line opts) cfg = Inr cfg'
    \<and> cg_options cfg' = cg_options cfg ++ map_of (rev opts)"
  using assms
proof (induction opts arbitrary: cfg)
  case (Cons p opts)
  obtain n v where p: "p = (n, v)" by (cases p)
  have "parse_line (option_line p) cfg = Inr (set_entry n v cfg)"
    using Cons.prems option_line_tokens [of n v] by (simp add: p parse_line_def guardR_def)
  moreover have "\<exists>cfg'. foldR parse_line (map option_line opts) (set_entry n v cfg) = Inr cfg'
      \<and> cg_options cfg' = cg_options (set_entry n v cfg) ++ map_of (rev opts)"
    by (rule Cons.IH) (use Cons.prems in auto)
  ultimately show ?case by (simp add: p set_entry_options)
qed simp

section \<open>Properties\<close>

text \<open>
  C35.  A configuration file with one line \<open>name = value\<close> per entry is read without failing, and every entry
  has exactly the value written last for it, for any names and values without blanks, tabs, equality signs
  and newlines (a name must not start with the character that begins a comment).
\<close>

theorem config_roundtrip:
  assumes "\<forall>(n, v)\<in>set opts. option_word n \<and> option_word v \<and> hd n \<noteq> CHR ''#''"
    and "files fname = Some (concat (map (\<lambda>p. option_line p @ [newline]) opts))"
  shows "\<exists>cfg. parse files fname (new_config garbage) = Inr cfg \<and> cg_options cfg = map_of (rev opts)"
proof -
  have "\<forall>l\<in>set (map option_line opts). newline \<notin> set l" using assms(1) option_line_newline by auto
  then have "file_lines (concat (map (\<lambda>p. option_line p @ [newline]) opts)) = map option_line opts"
    using file_lines_all [of "map option_line opts"] by (simp add: comp_def)
  then show ?thesis
    using parse_lines [OF assms(1), of "new_config garbage"] assms(2) by (auto simp: parse_def new_config_def)
qed

theorem config_roundtrip_witness:
  "\<forall>garbage. \<exists>cfg. parse (\<lambda>_. Some (''standard = HMC'' @ [newline] @ ''stacks = 1'' @ [newline])) ''c'' (new_config garbage)
     = Inr cfg \<and> cg_options cfg ''standard'' = Some ''HMC''"
proof
  fix garbage
  let ?o = "[(''standard'', ''HMC''), (''stacks'', ''1'')]"
  have "\<forall>(n, v)\<in>set ?o. option_word n \<and> option_word v \<and> hd n \<noteq> CHR ''#''"
    by (simp add: option_word_def is_delim_def newline_def)
  from config_roundtrip [OF this, of "\<lambda>_. Some (concat (map (\<lambda>p. option_line p @ [newline]) ?o))" "''c''" garbage]
  show "\<exists>cfg. parse (\<lambda>_. Some (''standard = HMC'' @ [newline] @ ''stacks = 1'' @ [newline])) ''c'' (new_config garbage)
     = Inr cfg \<and> cg_options cfg ''standard'' = Some ''HMC''"
    by (auto simp: option_line_def)
qed

text \<open>
  The options \<open>--channel\<close> and \<open>--rank\<close> do not change the number of channels and ranks that the program
  reads, whatever else is given on the command line.
\<close>

lemma apply_option_other: "snd p \<noteq> name \<Longrightarrow> cg_options (apply_option vm p cfg) name = cg_options cfg name"
  by (simp add: apply_option_def set_entry_options split: option.splits)

lemma fold_options_other:
  "\<forall>p\<in>set ps. snd p \<noteq> name \<Longrightarrow> cg_options (fold (apply_option vm) ps cfg) name = cg_options cfg name"
  by (induction ps arbitrary: cfg) (auto simp: apply_option_other)

lemma set_flags_options: "cg_options (set_flags vm cfg) = cg_options cfg"
  by (simp add: set_flags_def Let_def)

lemma channel_option_ignored:
  "main_config vm cfg = Inr (Some cfg') \<Longrightarrow> name = ''channels'' \<or> name = ''ranks'' \<Longrightarrow>
    get_int_value cfg' name = get_int_value cfg name"
proof -
  assume run: "main_config vm cfg = Inr (Some cfg')" and name: "name = ''channels'' \<or> name = ''ranks''"
  define c1 where "c1 = set_flags vm (fold (apply_option vm) entry_options cfg)"
  have e: "\<forall>p\<in>set entry_options. snd p \<noteq> name" using name by (auto simp: entry_options_def)
  have "cg_options c1 name = cg_options cfg name"
    using fold_options_other [OF e] by (simp add: c1_def set_flags_options)
  moreover have "cg_options cfg' name = cg_options c1 name"
    using run name unfolding main_config_def c1_def [symmetric] Let_def
    by (auto simp: set_entry_options add_entry_def set_trace_format_def split: option.splits if_splits)
  ultimately show ?thesis by (simp add: get_int_value_def)
qed

end
