(* ===== verification/DDR_Common.thy ===== *)
theory DDR_Common
  imports DRAM_Bus
begin

text \<open>
  What the rank-based standards of \<open>ramulator/src\<close> (DDR3, DDR4, GDDR5) share: the lambda expressions
  of their \<open>init_prereq\<close>, \<open>init_rowhit\<close>, \<open>init_rowopen\<close> and \<open>init_lambda\<close> are the same text in every
  one of them, up to the depth at which a rank finds its banks, which is the argument \<open>banks\<close> here.
\<close>

section \<open>Configuration\<close>

text \<open>A \<open>switch\<close> whose default branch is \<open>assert(false)\<close>.\<close>

definition switch :: "(int \<times> 'a) list \<Rightarrow> int \<Rightarrow> 'a res" where
  "switch cases x = (case map_of cases x of None \<Rightarrow> Inl AssertFailed | Some y \<Rightarrow> Inr y)"

definition set_channel_number :: "int \<Rightarrow> org_entry \<Rightarrow> org_entry" where
  "set_channel_number channel e = e\<lparr>org_count := (org_count e)[0 := channel]\<rparr>"

definition set_rank_number :: "int \<Rightarrow> org_entry \<Rightarrow> org_entry" where
  "set_rank_number rank e = e\<lparr>org_count := (org_count e)[1 := rank]\<rparr>"

text \<open>\<open>operator[]\<close> of a name map: an unknown name is enumerator 0.\<close>

definition enum_of :: "(string \<times> 'e) list \<Rightarrow> 'e \<Rightarrow> string \<Rightarrow> 'e" where
  "enum_of names zero s = (case map_of names s of None \<Rightarrow> zero | Some e \<Rightarrow> e)"

section \<open>Prerequisites and row queries\<close>

definition prereq_RD_Rank :: "(command, dstate) dram \<Rightarrow> command \<Rightarrow> int \<Rightarrow> command option res" where
  "prereq_RD_Rank node cmd i =
     (case dn_state (dinfo node) of
        PowerUp \<Rightarrow> Inr None
      | ActPowerDown \<Rightarrow> Inr (Some PDX)
      | PrePowerDown \<Rightarrow> Inr (Some PDX)
      | SelfRefresh \<Rightarrow> Inr (Some SRX)
      | _ \<Rightarrow> Inl AssertFailed)"

definition prereq_RD_Bank :: "(command, dstate) dram \<Rightarrow> command \<Rightarrow> int \<Rightarrow> command option res" where
  "prereq_RD_Bank node cmd i =
     (case dn_state (dinfo node) of
        Closed \<Rightarrow> Inr (Some ACT)
      | Opened \<Rightarrow> (if dn_row_state (dinfo node) i \<noteq> None then Inr (Some cmd) else Inr (Some PRE))
      | _ \<Rightarrow> Inl AssertFailed)"

definition prereq_REF_Rank ::
  "((command, dstate) dram \<Rightarrow> (command, dstate) dram list) \<Rightarrow> (command, dstate) dram \<Rightarrow> command \<Rightarrow> int
   \<Rightarrow> command option res" where
  "prereq_REF_Rank banks node cmd i = (if all_closed (banks node) then Inr (Some REF) else Inr (Some PREA))"

definition prereq_PDE_Rank :: "(command, dstate) dram \<Rightarrow> command \<Rightarrow> int \<Rightarrow> command option res" where
  "prereq_PDE_Rank node cmd i =
     (case dn_state (dinfo node) of
        PowerUp \<Rightarrow> Inr (Some PDE)
      | ActPowerDown \<Rightarrow> Inr (Some PDE)
      | PrePowerDown \<Rightarrow> Inr (Some PDE)
      | SelfRefresh \<Rightarrow> Inr (Some SRX)
      | _ \<Rightarrow> Inl AssertFailed)"

definition prereq_SRE_Rank :: "(command, dstate) dram \<Rightarrow> command \<Rightarrow> int \<Rightarrow> command option res" where
  "prereq_SRE_Rank node cmd i =
     (case dn_state (dinfo node) of
        PowerUp \<Rightarrow> Inr (Some SRE)
      | ActPowerDown \<Rightarrow> Inr (Some PDX)
      | PrePowerDown \<Rightarrow> Inr (Some PDX)
      | SelfRefresh \<Rightarrow> Inr (Some SRE)
      | _ \<Rightarrow> Inl AssertFailed)"

definition ddr_prereq ::
  "nat \<Rightarrow> nat \<Rightarrow> ((command, dstate) dram \<Rightarrow> (command, dstate) dram list) \<Rightarrow> nat \<Rightarrow> command
   \<Rightarrow> ((command, dstate) dram \<Rightarrow> command \<Rightarrow> int \<Rightarrow> command option res) option" where
  "ddr_prereq rank bank banks lv cmd =
     (if lv = rank \<and> (cmd = RD \<or> cmd = WR) then Some prereq_RD_Rank
      else if lv = bank \<and> (cmd = RD \<or> cmd = WR) then Some prereq_RD_Bank
      else if lv = rank \<and> cmd = REF then Some (prereq_REF_Rank banks)
      else if lv = rank \<and> cmd = PDE then Some prereq_PDE_Rank
      else if lv = rank \<and> cmd = SRE then Some prereq_SRE_Rank
      else None)"

definition rowhit_RD_Bank :: "(command, dstate) dram \<Rightarrow> command \<Rightarrow> int \<Rightarrow> bool res" where
  "rowhit_RD_Bank node cmd i =
     (case dn_state (dinfo node) of
        Closed \<Rightarrow> Inr False
      | Opened \<Rightarrow> Inr (dn_row_state (dinfo node) i \<noteq> None)
      | _ \<Rightarrow> Inl AssertFailed)"

definition rowopen_RD_Bank :: "(command, dstate) dram \<Rightarrow> command \<Rightarrow> int \<Rightarrow> bool res" where
  "rowopen_RD_Bank node cmd i =
     (case dn_state (dinfo node) of
        Closed \<Rightarrow> Inr False
      | Opened \<Rightarrow> Inr True
      | _ \<Rightarrow> Inl AssertFailed)"

definition ddr_rowhit ::
  "nat \<Rightarrow> nat \<Rightarrow> command \<Rightarrow> ((command, dstate) dram \<Rightarrow> command \<Rightarrow> int \<Rightarrow> bool res) option" where
  "ddr_rowhit bank lv cmd = (if lv = bank \<and> (cmd = RD \<or> cmd = WR) then Some rowhit_RD_Bank else None)"

definition ddr_rowopen ::
  "nat \<Rightarrow> nat \<Rightarrow> command \<Rightarrow> ((command, dstate) dram \<Rightarrow> command \<Rightarrow> int \<Rightarrow> bool res) option" where
  "ddr_rowopen bank lv cmd = (if lv = bank \<and> (cmd = RD \<or> cmd = WR) then Some rowopen_RD_Bank else None)"

section \<open>State transitions\<close>

text \<open>\<open>on_banks f\<close> applies \<open>f\<close> to every bank of a rank.\<close>

definition ddr_lambda ::
  "nat \<Rightarrow> nat \<Rightarrow> ((command, dstate) dram \<Rightarrow> (command, dstate) dram list)
   \<Rightarrow> (((command, dstate) dram \<Rightarrow> (command, dstate) dram) \<Rightarrow> (command, dstate) dram \<Rightarrow> (command, dstate) dram)
   \<Rightarrow> nat \<Rightarrow> command \<Rightarrow> ((command, dstate) dram \<Rightarrow> int \<Rightarrow> (command, dstate) dram) option" where
  "ddr_lambda rank bank banks on_banks lv cmd =
     (if lv = bank then
        (case cmd of
           ACT \<Rightarrow> Some (\<lambda>node i. open_row i node)
         | PRE \<Rightarrow> Some (\<lambda>node i. close_bank node)
         | RD \<Rightarrow> Some (\<lambda>node i. node)
         | WR \<Rightarrow> Some (\<lambda>node i. node)
         | RDA \<Rightarrow> Some (\<lambda>node i. close_bank node)
         | WRA \<Rightarrow> Some (\<lambda>node i. close_bank node)
         | _ \<Rightarrow> None)
      else if lv = rank then
        (case cmd of
           PREA \<Rightarrow> Some (\<lambda>node i. on_banks close_bank node)
         | REF \<Rightarrow> Some (\<lambda>node i. node)
         | PDE \<Rightarrow> Some (\<lambda>node i. set_state
                     (if all_closed (banks node) then PrePowerDown else ActPowerDown) node)
         | PDX \<Rightarrow> Some (\<lambda>node i. set_state PowerUp node)
         | SRE \<Rightarrow> Some (\<lambda>node i. set_state SelfRefresh node)
         | SRX \<Rightarrow> Some (\<lambda>node i. set_state PowerUp node)
         | _ \<Rightarrow> None)
      else None)"

text \<open>The banks of a rank: its children, or the children of its bank groups.\<close>

definition group_banks :: "('c, 's) dram \<Rightarrow> ('c, 's) dram list" where
  "group_banks node = concat (map dchildren (dchildren node))"

definition on_group_banks :: "(('c, 's) dram \<Rightarrow> ('c, 's) dram) \<Rightarrow> ('c, 's) dram \<Rightarrow> ('c, 's) dram" where
  "on_group_banks f node = map_children (map_children f) node"

section \<open>The standard\<close>

text \<open>The fields of \<open>spec\<close> that the standards fill in the same way.\<close>

type_synonym dram_prereq =
  "nat \<Rightarrow> command \<Rightarrow> ((command, dstate) dram \<Rightarrow> command \<Rightarrow> int \<Rightarrow> command option res) option"
type_synonym dram_query = "nat \<Rightarrow> command \<Rightarrow> ((command, dstate) dram \<Rightarrow> command \<Rightarrow> int \<Rightarrow> bool res) option"
type_synonym dram_lambda = "nat \<Rightarrow> command \<Rightarrow> ((command, dstate) dram \<Rightarrow> int \<Rightarrow> (command, dstate) dram) option"

definition ddr_spec ::
  "(command \<Rightarrow> nat) \<Rightarrow> (nat \<Rightarrow> dstate) \<Rightarrow> nat \<Rightarrow> dram_prereq \<Rightarrow> dram_query \<Rightarrow> dram_query \<Rightarrow> dram_lambda
   \<Rightarrow> org_entry \<Rightarrow> (nat \<Rightarrow> command \<Rightarrow> command timing_entry list) \<Rightarrow> int \<Rightarrow> int \<Rightarrow> int \<Rightarrow> int
   \<Rightarrow> (command, dstate) spec" where
  "ddr_spec scope start bank prereq rowhit rowopen lambda org timing latency refi prefetch width =
     \<lparr>sp_scope = scope, sp_start = start, sp_row_level = Suc bank, sp_bank_level = bank,
      sp_level_max = bank + 3, sp_count = (\<lambda>lv. org_count org ! lv),
      sp_prereq = prereq, sp_rowhit = rowhit, sp_rowopen = rowopen, sp_lambda = lambda, sp_timing = timing,
      sp_is_opening = is_opening, sp_is_accessing = is_accessing, sp_is_closing = is_closing,
      sp_is_refreshing = is_refreshing, sp_translate = translate, sp_PRE = PRE,
      sp_read_latency = latency, sp_nREFI = refi, sp_prefetch_size = prefetch, sp_channel_width = width\<rparr>"

lemma ddr_spec_sel [simp]:
  "sp_scope (ddr_spec sc st b pr rh ro la org tm l r p w) = sc"
  "sp_start (ddr_spec sc st b pr rh ro la org tm l r p w) = st"
  "sp_row_level (ddr_spec sc st b pr rh ro la org tm l r p w) = Suc b"
  "sp_bank_level (ddr_spec sc st b pr rh ro la org tm l r p w) = b"
  "sp_count (ddr_spec sc st b pr rh ro la org tm l r p w) lv = org_count org ! lv"
  "sp_lambda (ddr_spec sc st b pr rh ro la org tm l r p w) = la"
  "sp_timing (ddr_spec sc st b pr rh ro la org tm l r p w) = tm"
  "sp_is_opening (ddr_spec sc st b pr rh ro la org tm l r p w) = is_opening"
  "sp_is_refreshing (ddr_spec sc st b pr rh ro la org tm l r p w) = is_refreshing"
  by (simp_all add: ddr_spec_def)

text \<open>The laws of \<open>dram_spec\<close>, reduced to the tables.\<close>

lemma ddr_spec_laws:
  assumes "\<And>f t. (\<And>u. view g (f u) = view g u) \<Longrightarrow> view g (ob f t) = view g t"
    and "\<And>lv. \<exists>ps. tm lv = entries_for ps \<and> list_all (push_ok is_refreshing is_opening) ps"
    and "\<And>lv. 0 < lv \<Longrightarrow> lv \<le> b \<Longrightarrow> 0 < org_count org ! lv"
    and "la = ddr_lambda 1 b bs ob" and "g = node_core (ddr_spec sc st b pr rh ro la org tm l r p w)"
  shows "dram_spec (ddr_spec sc st b pr rh ro la org tm l r p w)"
proof unfold_locales
  let ?sp = "ddr_spec sc st b pr rh ro la org tm l r p w"
  show "view (node_core ?sp) (f t i) = view (node_core ?sp) t" if "sp_lambda ?sp lv c = Some f" for lv c f t i
    using that assms(1) [of close_bank] unfolding assms(5)
    by (auto simp: assms(4) ddr_lambda_def split: if_splits command.splits)
  have e: "0 < te_dist e" "te_sibling e \<Longrightarrow> te_dist e = 1"
    "\<not> te_sibling e \<Longrightarrow> is_refreshing c \<Longrightarrow> is_opening (te_cmd e) \<Longrightarrow> te_dist e = 1"
    if "e \<in> set (tm lv c)" for e lv c
    using assms(2) [of lv] that entries_for_ok by auto
  show "0 < te_dist e" if "e \<in> set (sp_timing ?sp lv c)" for e lv c using e(1) that by simp
  show "te_dist e = 1" if "e \<in> set (sp_timing ?sp lv c)" "te_sibling e" for e lv c using e(2) that by simp
  show "te_dist e = 1" if "e \<in> set (sp_timing ?sp lv c)" "\<not> te_sibling e" "sp_is_refreshing ?sp c"
    "sp_is_opening ?sp (te_cmd e)" for e lv c using e(3) that by simp
qed (use assms(3) in auto)

end
