(* ===== verification/DDR3_Spec.thy ===== *)
theory DDR3_Spec
  imports DDR_Common
begin

text \<open>
  DDR3: \<open>ramulator/src/DDR3.h\<close> and \<open>DDR3.cpp\<close>.  The tree of a channel has the levels Channel (0),
  Rank (1) and Bank (2).  The tables are those of the source, entry by entry; \<open>init_speed\<close> completes
  an entry of the speed table from the organisation.
\<close>

section \<open>Organisation and speed\<close>

datatype ddr3_org =
    DDR3_512Mb_x4 | DDR3_512Mb_x8 | DDR3_512Mb_x16 | DDR3_1Gb_x4 | DDR3_1Gb_x8 |
    DDR3_1Gb_x16 | DDR3_2Gb_x4 | DDR3_2Gb_x8 | DDR3_2Gb_x16 | DDR3_4Gb_x4 | DDR3_4Gb_x8 |
    DDR3_4Gb_x16 | DDR3_8Gb_x4 | DDR3_8Gb_x8 | DDR3_8Gb_x16 | DDR3_2Gb_x16_bank16 |
    DDR3_2Gb_x16_bank32 | DDR3_2Gb_x16_bank64 | DDR3_2Gb_x16_bank128 | DDR3_2Gb_x16_bank256

fun ddr3_org_table :: "ddr3_org \<Rightarrow> org_entry" where
  "ddr3_org_table DDR3_512Mb_x4 = org_entry.make 512 4 [0, 0, 8, 8192, 2048]"
| "ddr3_org_table DDR3_512Mb_x8 = org_entry.make 512 8 [0, 0, 8, 8192, 1024]"
| "ddr3_org_table DDR3_512Mb_x16 = org_entry.make 512 16 [0, 0, 8, 4096, 1024]"
| "ddr3_org_table DDR3_1Gb_x4 = org_entry.make 1024 4 [0, 0, 8, 16384, 2048]"
| "ddr3_org_table DDR3_1Gb_x8 = org_entry.make 1024 8 [0, 0, 8, 16384, 1024]"
| "ddr3_org_table DDR3_1Gb_x16 = org_entry.make 1024 16 [0, 0, 8, 8192, 1024]"
| "ddr3_org_table DDR3_2Gb_x4 = org_entry.make 2048 4 [0, 0, 8, 32768, 2048]"
| "ddr3_org_table DDR3_2Gb_x8 = org_entry.make 2048 8 [0, 0, 8, 32768, 1024]"
| "ddr3_org_table DDR3_2Gb_x16 = org_entry.make 2048 16 [0, 0, 8, 16384, 1024]"
| "ddr3_org_table DDR3_4Gb_x4 = org_entry.make 4096 4 [0, 0, 8, 65536, 2048]"
| "ddr3_org_table DDR3_4Gb_x8 = org_entry.make 4096 8 [0, 0, 8, 65536, 1024]"
| "ddr3_org_table DDR3_4Gb_x16 = org_entry.make 4096 16 [0, 0, 8, 32768, 1024]"
| "ddr3_org_table DDR3_8Gb_x4 = org_entry.make 8192 4 [0, 0, 8, 65536, 4096]"
| "ddr3_org_table DDR3_8Gb_x8 = org_entry.make 8192 8 [0, 0, 8, 65536, 2048]"
| "ddr3_org_table DDR3_8Gb_x16 = org_entry.make 8192 16 [0, 0, 8, 65536, 1024]"
| "ddr3_org_table DDR3_2Gb_x16_bank16 = org_entry.make 2048 16 [0, 0, 16, 8192, 1024]"
| "ddr3_org_table DDR3_2Gb_x16_bank32 = org_entry.make 2048 16 [0, 0, 32, 4096, 1024]"
| "ddr3_org_table DDR3_2Gb_x16_bank64 = org_entry.make 2048 16 [0, 0, 64, 2048, 1024]"
| "ddr3_org_table DDR3_2Gb_x16_bank128 = org_entry.make 2048 16 [0, 0, 128, 1024, 1024]"
| "ddr3_org_table DDR3_2Gb_x16_bank256 = org_entry.make 2048 16 [0, 0, 256, 512, 1024]"

datatype ddr3_speed_grade =
    DDR3_800D | DDR3_800E | DDR3_1066E | DDR3_1066F | DDR3_1066G |
    DDR3_1333G | DDR3_1333H | DDR3_1600H | DDR3_1600J | DDR3_1600K | DDR3_1866K | DDR3_1866L |
    DDR3_2133L | DDR3_2133M | DDR3_2133_14 | DDR3_2133L_unlimit_bandwidth |
    DDR3_2133_14_unlimit_bandwidth

record ddr3_speed =
  d3_rate :: int
  d3_freq :: rat
  d3_tCK :: rat
  d3_nBL :: int
  d3_nCCD :: int
  d3_nRTRS :: int
  d3_nCL :: int
  d3_nRCD :: int
  d3_nRP :: int
  d3_nCWL :: int
  d3_nRAS :: int
  d3_nRC :: int
  d3_nRTP :: int
  d3_nWTR :: int
  d3_nWR :: int
  d3_nRRD :: int
  d3_nFAW :: int
  d3_nRFC :: int
  d3_nREFI :: int
  d3_nPD :: int
  d3_nXP :: int
  d3_nXPDLL :: int
  d3_nCKESR :: int
  d3_nXS :: int
  d3_nXSDLL :: int

fun ddr3_speed_table :: "ddr3_speed_grade \<Rightarrow> ddr3_speed" where
  "ddr3_speed_table DDR3_800D =
     ddr3_speed.make 800 400 (5/2) 4 4 2 5 5 5 5 15 20 4 4 6 0 0 0 3120 3 3 10 4 0 512"
| "ddr3_speed_table DDR3_800E =
     ddr3_speed.make 800 400 (5/2) 4 4 2 6 6 6 5 15 21 4 4 6 0 0 0 3120 3 3 10 4 0 512"
| "ddr3_speed_table DDR3_1066E =
     ddr3_speed.make 1066 (1600/3) (15/8) 4 4 2 6 6 6 6 20 26 4 4 8 0 0 0 4160 3 4 13 4 0 512"
| "ddr3_speed_table DDR3_1066F =
     ddr3_speed.make 1066 (1600/3) (15/8) 4 4 2 7 7 7 6 20 27 4 4 8 0 0 0 4160 3 4 13 4 0 512"
| "ddr3_speed_table DDR3_1066G =
     ddr3_speed.make 1066 (1600/3) (15/8) 4 4 2 8 8 8 6 20 28 4 4 8 0 0 0 4160 3 4 13 4 0 512"
| "ddr3_speed_table DDR3_1333G =
     ddr3_speed.make 1333 (2000/3) (3/2) 4 4 2 8 8 8 7 24 32 5 5 10 0 0 0 5200 4 4 16 5 0 512"
| "ddr3_speed_table DDR3_1333H =
     ddr3_speed.make 1333 (2000/3) (3/2) 4 4 2 9 9 9 7 24 33 5 5 10 0 0 0 5200 4 4 16 5 0 512"
| "ddr3_speed_table DDR3_1600H =
     ddr3_speed.make 1600 800 (5/4) 4 4 2 9 9 9 8 28 37 6 6 12 0 0 0 6240 4 5 20 5 0 512"
| "ddr3_speed_table DDR3_1600J =
     ddr3_speed.make 1600 800 (5/4) 4 4 2 10 10 10 8 28 38 6 6 12 0 0 0 6240 4 5 20 5 0 512"
| "ddr3_speed_table DDR3_1600K =
     ddr3_speed.make 1600 800 (5/4) 4 4 2 11 11 11 8 28 39 6 6 12 0 0 0 6240 4 5 20 5 0 512"
| "ddr3_speed_table DDR3_1866K =
     ddr3_speed.make 1866 (2800/3) (15/14) 4 4 2 11 11 11 9 32 43 7 7 14 0 0 0 7280 5 6 23 6 0 512"
| "ddr3_speed_table DDR3_1866L =
     ddr3_speed.make 1866 (2800/3) (15/14) 4 4 2 12 12 12 9 32 44 7 7 14 0 0 0 7280 5 6 23 6 0 512"
| "ddr3_speed_table DDR3_2133L =
     ddr3_speed.make 2133 (3200/3) (15/16) 4 4 2 12 12 12 10 36 48 8 8 16 0 0 0 8320 6 7 26 7 0 512"
| "ddr3_speed_table DDR3_2133M =
     ddr3_speed.make 2133 (3200/3) (15/16) 4 4 2 13 13 13 10 36 49 8 8 16 0 0 0 8320 6 7 26 7 0 512"
| "ddr3_speed_table DDR3_2133_14 =
     ddr3_speed.make 2133 (3200/3) (15/16) 4 4 2 14 14 14 13 36 50 8 8 16 0 0 0 8320 6 7 26 7 0 512"
| "ddr3_speed_table DDR3_2133L_unlimit_bandwidth =
     ddr3_speed.make 2133 (3200/3) (15/16) 0 1 2 12 12 12 10 36 48 8 8 16 0 0 0 8320 6 7 26 7 0 512"
| "ddr3_speed_table DDR3_2133_14_unlimit_bandwidth =
     ddr3_speed.make 2133 (3200/3) (15/16) 0 1 2 14 14 14 13 36 50 8 8 16 0 0 0 8320 6 7 26 7 0 512"

definition ddr3_org_of :: "string \<Rightarrow> ddr3_org" where
  "ddr3_org_of =
     enum_of
       [(''DDR3_512Mb_x4'', DDR3_512Mb_x4), (''DDR3_512Mb_x8'', DDR3_512Mb_x8),
        (''DDR3_512Mb_x16'', DDR3_512Mb_x16), (''DDR3_1Gb_x4'', DDR3_1Gb_x4),
        (''DDR3_1Gb_x8'', DDR3_1Gb_x8), (''DDR3_1Gb_x16'', DDR3_1Gb_x16),
        (''DDR3_2Gb_x4'', DDR3_2Gb_x4), (''DDR3_2Gb_x8'', DDR3_2Gb_x8),
        (''DDR3_2Gb_x16'', DDR3_2Gb_x16), (''DDR3_4Gb_x4'', DDR3_4Gb_x4),
        (''DDR3_4Gb_x8'', DDR3_4Gb_x8), (''DDR3_4Gb_x16'', DDR3_4Gb_x16),
        (''DDR3_8Gb_x4'', DDR3_8Gb_x4), (''DDR3_8Gb_x8'', DDR3_8Gb_x8),
        (''DDR3_8Gb_x16'', DDR3_8Gb_x16), (''DDR3_2Gb_x16_bank16'', DDR3_2Gb_x16_bank16),
        (''DDR3_2Gb_x16_bank32'', DDR3_2Gb_x16_bank32), (''DDR3_2Gb_x16_bank64'', DDR3_2Gb_x16_bank64),
        (''DDR3_2Gb_x16_bank128'', DDR3_2Gb_x16_bank128),
        (''DDR3_2Gb_x16_bank256'', DDR3_2Gb_x16_bank256)] DDR3_512Mb_x4"

definition ddr3_speed_of :: "string \<Rightarrow> ddr3_speed_grade" where
  "ddr3_speed_of =
     enum_of
       [(''DDR3_800D'', DDR3_800D), (''DDR3_800E'', DDR3_800E), (''DDR3_1066E'', DDR3_1066E),
        (''DDR3_1066F'', DDR3_1066F), (''DDR3_1066G'', DDR3_1066G), (''DDR3_1333G'', DDR3_1333G),
        (''DDR3_1333H'', DDR3_1333H), (''DDR3_1600H'', DDR3_1600H), (''DDR3_1600J'', DDR3_1600J),
        (''DDR3_1600K'', DDR3_1600K), (''DDR3_1866K'', DDR3_1866K), (''DDR3_1866L'', DDR3_1866L),
        (''DDR3_2133L'', DDR3_2133L), (''DDR3_2133M'', DDR3_2133M), (''DDR3_2133_14'', DDR3_2133_14),
        (''DDR3_2133L_unlimit_bandwidth'', DDR3_2133L_unlimit_bandwidth),
        (''DDR3_2133_14_unlimit_bandwidth'', DDR3_2133_14_unlimit_bandwidth)] DDR3_800D"

definition ddr3_init_speed :: "org_entry \<Rightarrow> ddr3_speed \<Rightarrow> ddr3_speed res" where
  "ddr3_init_speed org s =
     (let page = drop_bit 13 (org_dq org * org_count org ! 4); chip = org_size org in
      bindR (switch
        [(800, (if page = 1 then 4 else 4, if page = 1 then 16 else 20)),
         (1066, (if page = 1 then 4 else 6, if page = 1 then 20 else 27)),
         (1333, (if page = 1 then 4 else 5, if page = 1 then 20 else 30)),
         (1600, (if page = 1 then 5 else 6, if page = 1 then 24 else 32)),
         (1866, (if page = 1 then 5 else 6, if page = 1 then 26 else 33)),
         (2133, (if page = 1 then 5 else 6, if page = 1 then 27 else 34))] (d3_rate s)) (\<lambda>(nRRD, nFAW).
      let chip_value = (\<lambda>(a, b, c, d, e).
            if chip = 512 then a else if chip = 2 ^ 10 then b else if chip = 2 ^ 11 then c
            else if chip = 2 ^ 12 then d else e)
      in bindR (switch
        [(800, (36, 44, 64, 104, 140)), (1066, (48, 59, 86, 139, 187)), (1333, (60, 74, 107, 174, 234)),
         (1600, (72, 88, 128, 208, 280)), (1866, (84, 103, 150, 243, 327)), (2133, (96, 118, 171, 278, 374))]
        (d3_rate s)) (\<lambda>rfc. bindR (switch
        [(800, (40, 48, 68, 108, 144)), (1066, (54, 64, 91, 144, 192)), (1333, (67, 80, 114, 180, 240)),
         (1600, (80, 96, 136, 216, 288)), (1866, (94, 112, 159, 252, 336)), (2133, (107, 128, 182, 288, 384))]
        (d3_rate s)) (\<lambda>xs.
        Inr (s\<lparr>d3_nRRD := nRRD, d3_nFAW := nFAW, d3_nRFC := chip_value rfc, d3_nXS := chip_value xs\<rparr>)))))"

section \<open>Levels and states\<close>

fun ddr3_scope :: "command \<Rightarrow> nat" where
  "ddr3_scope ACT = 3"
| "ddr3_scope PRE = 2"
| "ddr3_scope PREA = 1"
| "ddr3_scope RD = 4"
| "ddr3_scope WR = 4"
| "ddr3_scope RDA = 4"
| "ddr3_scope WRA = 4"
| "ddr3_scope REF = 1"
| "ddr3_scope PDE = 1"
| "ddr3_scope PDX = 1"
| "ddr3_scope SRE = 1"
| "ddr3_scope SRX = 1"

definition ddr3_start :: "nat \<Rightarrow> dstate" where
  "ddr3_start lv = [StMAX, PowerUp, Closed, Closed, StMAX] ! lv"

section \<open>Prerequisites, row queries and state transitions\<close>

definition ddr3_prereq :: dram_prereq where
  "ddr3_prereq = ddr_prereq 1 2 dchildren"

definition ddr3_rowhit :: dram_query where
  "ddr3_rowhit = ddr_rowhit 2"

definition ddr3_rowopen :: dram_query where
  "ddr3_rowopen = ddr_rowopen 2"

definition ddr3_lambda :: dram_lambda where
  "ddr3_lambda = ddr_lambda 1 2 dchildren map_children"

section \<open>Timing\<close>

definition ddr3_timing_Channel :: "ddr3_speed \<Rightarrow> command pushes" where
  "ddr3_timing_Channel s =
     [push RD RD 1 (d3_nBL s), push RD RDA 1 (d3_nBL s), push RDA RD 1 (d3_nBL s),
      push RDA RDA 1 (d3_nBL s), push WR WR 1 (d3_nBL s), push WR WRA 1 (d3_nBL s),
      push WRA WR 1 (d3_nBL s), push WRA WRA 1 (d3_nBL s)]"

definition ddr3_timing_Rank :: "ddr3_speed \<Rightarrow> command pushes" where
  "ddr3_timing_Rank s =
     [push RD RD 1 (d3_nCCD s), push RD RDA 1 (d3_nCCD s), push RDA RD 1 (d3_nCCD s),
      push RDA RDA 1 (d3_nCCD s), push WR WR 1 (d3_nCCD s), push WR WRA 1 (d3_nCCD s),
      push WRA WR 1 (d3_nCCD s), push WRA WRA 1 (d3_nCCD s),
      push RD WR 1 (d3_nCL s + d3_nCCD s + 2 - d3_nCWL s),
      push RD WRA 1 (d3_nCL s + d3_nCCD s + 2 - d3_nCWL s),
      push RDA WR 1 (d3_nCL s + d3_nCCD s + 2 - d3_nCWL s),
      push RDA WRA 1 (d3_nCL s + d3_nCCD s + 2 - d3_nCWL s),
      push WR RD 1 (d3_nCWL s + d3_nBL s + d3_nWTR s),
      push WR RDA 1 (d3_nCWL s + d3_nBL s + d3_nWTR s),
      push WRA RD 1 (d3_nCWL s + d3_nBL s + d3_nWTR s),
      push WRA RDA 1 (d3_nCWL s + d3_nBL s + d3_nWTR s), push_sib RD RD 1 (d3_nBL s + d3_nRTRS s),
      push_sib RD RDA 1 (d3_nBL s + d3_nRTRS s), push_sib RDA RD 1 (d3_nBL s + d3_nRTRS s),
      push_sib RDA RDA 1 (d3_nBL s + d3_nRTRS s), push_sib RD WR 1 (d3_nBL s + d3_nRTRS s),
      push_sib RD WRA 1 (d3_nBL s + d3_nRTRS s), push_sib RDA WR 1 (d3_nBL s + d3_nRTRS s),
      push_sib RDA WRA 1 (d3_nBL s + d3_nRTRS s),
      push_sib RD WR 1 (d3_nCL s + d3_nBL s + d3_nRTRS s - d3_nCWL s),
      push_sib RD WRA 1 (d3_nCL s + d3_nBL s + d3_nRTRS s - d3_nCWL s),
      push_sib RDA WR 1 (d3_nCL s + d3_nBL s + d3_nRTRS s - d3_nCWL s),
      push_sib RDA WRA 1 (d3_nCL s + d3_nBL s + d3_nRTRS s - d3_nCWL s),
      push_sib WR RD 1 (d3_nCWL s + d3_nBL s + d3_nRTRS s - d3_nCL s),
      push_sib WR RDA 1 (d3_nCWL s + d3_nBL s + d3_nRTRS s - d3_nCL s),
      push_sib WRA RD 1 (d3_nCWL s + d3_nBL s + d3_nRTRS s - d3_nCL s),
      push_sib WRA RDA 1 (d3_nCWL s + d3_nBL s + d3_nRTRS s - d3_nCL s), push RD PREA 1 (d3_nRTP s),
      push WR PREA 1 (d3_nCWL s + d3_nBL s + d3_nWR s), push RD PDE 1 (d3_nCL s + d3_nBL s + 1),
      push RDA PDE 1 (d3_nCL s + d3_nBL s + 1), push WR PDE 1 (d3_nCWL s + d3_nBL s + d3_nWR s),
      push WRA PDE 1 (d3_nCWL s + d3_nBL s + d3_nWR s + 1), push PDX RD 1 (d3_nXP s),
      push PDX RDA 1 (d3_nXP s), push PDX WR 1 (d3_nXP s), push PDX WRA 1 (d3_nXP s),
      push ACT ACT 1 (d3_nRRD s), push ACT ACT 4 (d3_nFAW s), push ACT PREA 1 (d3_nRAS s),
      push PREA ACT 1 (d3_nRP s), push PRE REF 1 (d3_nRP s), push PREA REF 1 (d3_nRP s),
      push REF ACT 1 (d3_nRFC s), push ACT PDE 1 1, push PDX ACT 1 (d3_nXP s),
      push PDX PRE 1 (d3_nXP s), push PDX PREA 1 (d3_nXP s), push PRE SRE 1 (d3_nRP s),
      push PREA SRE 1 (d3_nRP s), push SRX ACT 1 (d3_nXS s), push REF REF 1 (d3_nRFC s),
      push REF PDE 1 1, push PDX REF 1 (d3_nXP s), push SRX REF 1 (d3_nXS s),
      push PDE PDX 1 (d3_nPD s), push PDX PDE 1 (d3_nXP s), push PDX SRE 1 (d3_nXP s),
      push SRX PDE 1 (d3_nXS s), push SRE SRX 1 (d3_nCKESR s), push SRX SRE 1 (d3_nXS s)]"

definition ddr3_timing_Bank :: "ddr3_speed \<Rightarrow> command pushes" where
  "ddr3_timing_Bank s =
     [push ACT RD 1 (d3_nRCD s), push ACT RDA 1 (d3_nRCD s), push ACT WR 1 (d3_nRCD s),
      push ACT WRA 1 (d3_nRCD s), push RD PRE 1 (d3_nRTP s),
      push WR PRE 1 (d3_nCWL s + d3_nBL s + d3_nWR s), push RDA ACT 1 (d3_nRTP s + d3_nRP s),
      push WRA ACT 1 (d3_nCWL s + d3_nBL s + d3_nWR s + d3_nRP s), push ACT ACT 1 (d3_nRC s),
      push ACT PRE 1 (d3_nRAS s), push PRE ACT 1 (d3_nRP s)]"

definition ddr3_timing :: "ddr3_speed \<Rightarrow> nat \<Rightarrow> command \<Rightarrow> command timing_entry list" where
  "ddr3_timing s lv =
     entries_for
       (if lv = 0 then ddr3_timing_Channel s
        else if lv = 1 then ddr3_timing_Rank s
        else if lv = 2 then ddr3_timing_Bank s
        else [])"

section \<open>The standard\<close>

definition ddr3_spec :: "org_entry \<Rightarrow> ddr3_speed \<Rightarrow> (command, dstate) spec" where
  "ddr3_spec org s =
     ddr_spec ddr3_scope ddr3_start 2 ddr3_prereq ddr3_rowhit ddr3_rowopen ddr3_lambda org (ddr3_timing s)
       (d3_nCL s + d3_nBL s) (d3_nREFI s) 8 64"

text \<open>The constructor, with the channel and rank numbers that \<open>start_run\<close> sets afterwards.\<close>

definition mk_ddr3 :: "ddr3_org \<Rightarrow> ddr3_speed_grade \<Rightarrow> int \<Rightarrow> int \<Rightarrow> (command, dstate) spec res" where
  "mk_ddr3 org speed channels ranks =
     bindR (ddr3_init_speed (ddr3_org_table org) (ddr3_speed_table speed)) (\<lambda>s.
       Inr (ddr3_spec (set_rank_number ranks (set_channel_number channels (ddr3_org_table org))) s))"

section \<open>The interfaces\<close>

lemma ddr3_init_speed_ok:
  "\<exists>s. ddr3_init_speed org (ddr3_speed_table g) = Inr s
     \<and> d3_nCL s = d3_nCL (ddr3_speed_table g) \<and> d3_nCWL s = d3_nCWL (ddr3_speed_table g)
     \<and> d3_nBL s = d3_nBL (ddr3_speed_table g) \<and> d3_nRTRS s = 2
     \<and> d3_nBL s \<le> d3_nCCD s + 2 \<and> 0 \<le> d3_nCL s \<and> 0 \<le> d3_nWTR s
     \<and> d3_nRC s = d3_nRAS s + d3_nRP s \<and> 4 * d3_nRRD s \<le> d3_nFAW s
     \<and> d3_nRFC s < d3_nXS s \<and> d3_nXS s < d3_nREFI s"
  by (cases g) (simp_all add: ddr3_init_speed_def switch_def ddr3_speed.defs Let_def)

lemma ddr3_timing_push_ok:
  "\<exists>ps. ddr3_timing s lv = entries_for ps \<and> list_all (push_ok is_refreshing is_opening) ps"
  by (rule exI, rule conjI, rule ddr3_timing_def)
    (simp add: ddr3_timing_Channel_def ddr3_timing_Rank_def ddr3_timing_Bank_def)

lemma ddr3_banks: "2 < length (org_count (ddr3_org_table org)) \<and> 0 < org_count (ddr3_org_table org) ! 2"
  by (cases org) (simp_all add: org_entry.defs)

definition ddr3_ranked :: "ddr3_org \<Rightarrow> int \<Rightarrow> nat \<Rightarrow> org_entry" where
  "ddr3_ranked org channels r = set_rank_number (1 + int r) (set_channel_number channels (ddr3_org_table org))"

lemma ddr3_ranked_count:
  "org_count (ddr3_ranked org c r) ! 1 = 1 + int r" "org_count (ddr3_ranked org c r) ! 2 = org_count (ddr3_org_table org) ! 2"
  using ddr3_banks [of org] by (simp_all add: ddr3_ranked_def set_rank_number_def set_channel_number_def)

interpretation ddr3: dram_spec "ddr3_spec (ddr3_ranked org c r) s" for org c r s
  unfolding ddr3_spec_def
proof (rule ddr_spec_laws [OF _ ddr3_timing_push_ok _ ddr3_lambda_def refl])
  show "0 < org_count (ddr3_ranked org c r) ! lv" if "0 < lv" "lv \<le> 2" for lv
    using that ddr3_ranked_count [of org c r] ddr3_banks [of org] by (cases "lv = 1") (auto simp: le_Suc_eq numeral_2_eq_2)
qed simp

definition ddr3_final :: "ddr3_org \<Rightarrow> ddr3_speed_grade \<Rightarrow> ddr3_speed" where
  "ddr3_final org g =
     (case ddr3_init_speed (ddr3_org_table org) (ddr3_speed_table g) of Inr s \<Rightarrow> s | Inl _ \<Rightarrow> ddr3_speed_table g)"

lemma ddr3_bus_table:
  assumes "d3_nBL s \<le> d3_nCCD s + 2" "0 \<le> d3_nCL s" "0 \<le> d3_nWTR s" "d3_nRTRS s = 2"
  shows "bus_ok (ddr3_spec org s) cas_commands (cas_lat (d3_nCL s) (d3_nCWL s)) (d3_nBL s)"
proof -
  have t: "sp_timing (ddr3_spec org s) 0 = entries_for (ddr3_timing_Channel s)"
    "sp_timing (ddr3_spec org s) 1 = entries_for (ddr3_timing_Rank s)"
    by (simp_all add: ddr3_spec_def ddr3_timing_def fun_eq_iff)
  show ?thesis using assms
    unfolding bus_ok_def separated_push [OF t(1)] separated_push [OF t(2)]
    by (simp add: ddr3_timing_Channel_def ddr3_timing_Rank_def cas_lat_def)
qed

interpretation ddr3_bus: data_bus "ddr3_spec (ddr3_ranked org c r) (ddr3_final org g)" cas_commands
  "cas_lat (d3_nCL (ddr3_speed_table g)) (d3_nCWL (ddr3_speed_table g))" "d3_nBL (ddr3_speed_table g)" for org c r g
proof unfold_locales
  obtain s where s: "ddr3_final org g = s" "d3_nCL s = d3_nCL (ddr3_speed_table g)"
    "d3_nCWL s = d3_nCWL (ddr3_speed_table g)" "d3_nBL s = d3_nBL (ddr3_speed_table g)"
    "d3_nBL s \<le> d3_nCCD s + 2" "0 \<le> d3_nCL s" "0 \<le> d3_nWTR s" "d3_nRTRS s = 2"
    using ddr3_init_speed_ok [of "ddr3_org_table org" g] by (auto simp: ddr3_final_def)
  show "bus_ok (ddr3_spec (ddr3_ranked org c r) (ddr3_final org g)) cas_commands
    (cas_lat (d3_nCL (ddr3_speed_table g)) (d3_nCWL (ddr3_speed_table g))) (d3_nBL (ddr3_speed_table g))"
    using ddr3_bus_table [OF s(5-8)] s(1-4) by simp
qed (auto simp: ddr3_spec_def)

section \<open>Properties\<close>

text \<open>
  C19.  Every DDR3 speed grade can be used with every organisation: \<open>init_speed\<close> reaches none of its
  assertions, and the completed timing parameters are consistent (\<open>nRC = nRAS + nRP\<close>, four
  activations at distance \<open>nRRD\<close> do not already violate \<open>nFAW\<close>, the exit from self refresh takes longer
  than a refresh, and both fit between two refreshes).
\<close>

theorem ddr3_speed_consistent:
  "\<exists>s. ddr3_init_speed org (ddr3_speed_table g) = Inr s
     \<and> d3_nRC s = d3_nRAS s + d3_nRP s \<and> 4 * d3_nRRD s \<le> d3_nFAW s
     \<and> d3_nRFC s < d3_nXS s \<and> d3_nXS s < d3_nREFI s"
  using ddr3_init_speed_ok [of org g] by blast

text \<open>
  C16.  On a DDR3 channel with any number of ranks, the bursts of two column accesses never overlap on
  the data bus: if every command was issued when \<open>check\<close> allowed it, the burst of the later access
  starts no earlier than the burst of the earlier one ends, across banks and ranks and for any
  mixture of reads and writes.
\<close>

theorem ddr3_bursts_apart:
  assumes "mk_ddr3 org g channels ranks = Inr sp" and "0 < ranks"
    and "hist_ok (rev xs)" and "\<forall>(c, a, k)\<in>set xs. addr_ok sp c a \<and> a ! 0 = i"
    and "issue_checked sp xs (new_dram sp 0 i) = Inr t" and "xs = ys @ (c, ad, clk) # zs"
    and "(c0, a, k) \<in> set ys" and "c0 \<in> set cas_commands" "c \<in> set cas_commands"
  shows "k + cas_lat (d3_nCL (ddr3_speed_table g)) (d3_nCWL (ddr3_speed_table g)) c0 + d3_nBL (ddr3_speed_table g)
    \<le> clk + cas_lat (d3_nCL (ddr3_speed_table g)) (d3_nCWL (ddr3_speed_table g)) c"
proof -
  have "sp = ddr3_spec (ddr3_ranked org channels (nat (ranks - 1))) (ddr3_final org g)"
    using assms(1,2) ddr3_init_speed_ok [of "ddr3_org_table org" g]
    by (auto simp: mk_ddr3_def ddr3_final_def ddr3_ranked_def)
  then show ?thesis using ddr3_bus.bursts_apart assms(3-9) by blast
qed

definition ddr3_run :: "command history" where
  "ddr3_run = [(ACT, [0, 0, 3, 7, 0], 0), (ACT, [0, 1, 3, 9, 0], 2), (RD, [0, 0, 3, 7, 0], 11), (WR, [0, 1, 3, 9, 0], 20)]"

lemma ddr3_run_ok:
  "\<exists>sp t. mk_ddr3 DDR3_2Gb_x8 DDR3_1600K 1 2 = Inr sp \<and> issue_checked sp ddr3_run (new_dram sp 0 0) = Inr t"
proof -
  obtain sp where sp: "mk_ddr3 DDR3_2Gb_x8 DDR3_1600K 1 2 = Inr sp"
    using ddr3_init_speed_ok [of "ddr3_org_table DDR3_2Gb_x8" DDR3_1600K] by (auto simp: mk_ddr3_def)
  have "\<not> isl (bindR (mk_ddr3 DDR3_2Gb_x8 DDR3_1600K 1 2) (\<lambda>sp. issue_checked sp ddr3_run (new_dram sp 0 0)))"
    by code_simp
  then show ?thesis using sp not_isl_Inr by (auto simp: isl_def)
qed

theorem ddr3_bursts_apart_witness:
  "11 + cas_lat (d3_nCL (ddr3_speed_table DDR3_1600K)) (d3_nCWL (ddr3_speed_table DDR3_1600K)) RD
      + d3_nBL (ddr3_speed_table DDR3_1600K)
   \<le> 20 + cas_lat (d3_nCL (ddr3_speed_table DDR3_1600K)) (d3_nCWL (ddr3_speed_table DDR3_1600K)) WR"
proof -
  obtain sp t where sp: "mk_ddr3 DDR3_2Gb_x8 DDR3_1600K 1 2 = Inr sp"
    "issue_checked sp ddr3_run (new_dram sp 0 0) = Inr t" using ddr3_run_ok by blast
  have "sp_count sp = (\<lambda>lv. [1, 2, 8, 32768, 1024] ! lv)" "sp_row_level sp = 3"
    using sp(1) ddr3_init_speed_ok [of "ddr3_org_table DDR3_2Gb_x8" DDR3_1600K]
    by (auto simp: mk_ddr3_def ddr3_spec_def ddr_spec_def set_rank_number_def set_channel_number_def org_entry.defs)
  then have "\<forall>(c, a, k)\<in>set ddr3_run. addr_ok sp c a \<and> a ! 0 = 0"
    by (auto simp: ddr3_run_def addr_ok_def less_Suc_eq numeral_3_eq_3)
  moreover have "hist_ok (rev ddr3_run)" by (simp add: hist_ok_def ddr3_run_def)
  ultimately show ?thesis
    using ddr3_bursts_apart [OF sp(1) _ _ _ sp(2), of "butlast ddr3_run" WR "[0, 1, 3, 9, 0]" 20 "[]" RD "[0, 0, 3, 7, 0]" 11]
    by (simp add: ddr3_run_def)
qed

end
