(* ===== verification/DDR4_Spec.thy ===== *)
theory DDR4_Spec
  imports DDR_Common
begin

text \<open>
  DDR4: \<open>ramulator/src/DDR4.h\<close> and \<open>DDR4.cpp\<close>.  The tree of a channel has the levels Channel (0),
  Rank (1), BankGroup (2) and Bank (3).  The tables are those of the source, entry by entry;
  \<open>init_speed\<close> completes an entry of the speed table from the organisation and the refresh mode, which
  is \<open>Refresh_1X\<close> in every object the program makes.
\<close>

section \<open>Organisation and speed\<close>

datatype ddr4_org =
    DDR4_2Gb_x4 | DDR4_2Gb_x8 | DDR4_2Gb_x16 | DDR4_4Gb_x4 | DDR4_4Gb_x8 |
    DDR4_4Gb_x16 | DDR4_8Gb_x4 | DDR4_8Gb_x8 | DDR4_8Gb_x16

fun ddr4_org_table :: "ddr4_org \<Rightarrow> org_entry" where
  "ddr4_org_table DDR4_2Gb_x4 = org_entry.make 2048 4 [0, 0, 4, 4, 32768, 1024]"
| "ddr4_org_table DDR4_2Gb_x8 = org_entry.make 2048 8 [0, 0, 4, 4, 16384, 1024]"
| "ddr4_org_table DDR4_2Gb_x16 = org_entry.make 2048 16 [0, 0, 2, 4, 16384, 1024]"
| "ddr4_org_table DDR4_4Gb_x4 = org_entry.make 4096 4 [0, 0, 4, 4, 65536, 1024]"
| "ddr4_org_table DDR4_4Gb_x8 = org_entry.make 4096 8 [0, 0, 4, 4, 32768, 1024]"
| "ddr4_org_table DDR4_4Gb_x16 = org_entry.make 4096 16 [0, 0, 2, 4, 32768, 1024]"
| "ddr4_org_table DDR4_8Gb_x4 = org_entry.make 8192 4 [0, 0, 4, 4, 131072, 1024]"
| "ddr4_org_table DDR4_8Gb_x8 = org_entry.make 8192 8 [0, 0, 4, 4, 65536, 1024]"
| "ddr4_org_table DDR4_8Gb_x16 = org_entry.make 8192 16 [0, 0, 2, 4, 65536, 1024]"

datatype ddr4_speed_grade =
    DDR4_1600K | DDR4_1600L | DDR4_1866M | DDR4_1866N | DDR4_2133P |
    DDR4_2133R | DDR4_2400R | DDR4_2400U | DDR4_2400R_disable_bg

record ddr4_speed =
  d4_rate :: int
  d4_freq :: rat
  d4_tCK :: rat
  d4_nBL :: int
  d4_nCCDS :: int
  d4_nCCDL :: int
  d4_nRTRS :: int
  d4_nCL :: int
  d4_nRCD :: int
  d4_nRP :: int
  d4_nCWL :: int
  d4_nRAS :: int
  d4_nRC :: int
  d4_nRTP :: int
  d4_nWTRS :: int
  d4_nWTRL :: int
  d4_nWR :: int
  d4_nRRDS :: int
  d4_nRRDL :: int
  d4_nFAW :: int
  d4_nRFC :: int
  d4_nREFI :: int
  d4_nPD :: int
  d4_nXP :: int
  d4_nXPDLL :: int
  d4_nCKESR :: int
  d4_nXS :: int
  d4_nXSDLL :: int

fun ddr4_speed_table :: "ddr4_speed_grade \<Rightarrow> ddr4_speed" where
  "ddr4_speed_table DDR4_1600K =
     ddr4_speed.make 1600 800 (5/4) 4 4 5 2 11 11 11 9 28 39 6 2 6 12 0 0 0 0 0 4 5 0 5 0 0"
| "ddr4_speed_table DDR4_1600L =
     ddr4_speed.make 1600 800 (5/4) 4 4 5 2 12 12 12 9 28 40 6 2 6 12 0 0 0 0 0 4 5 0 5 0 0"
| "ddr4_speed_table DDR4_1866M =
     ddr4_speed.make 1866 (2800/3) (15/14) 4 4 5 2 13 13 13 10 32 45 7 3 7 14 0 0 0 0 0 5 6 0 6 0 0"
| "ddr4_speed_table DDR4_1866N =
     ddr4_speed.make 1866 (2800/3) (15/14) 4 4 5 2 14 14 14 10 32 46 7 3 7 14 0 0 0 0 0 5 6 0 6 0 0"
| "ddr4_speed_table DDR4_2133P =
     ddr4_speed.make 2133 (3200/3) (15/16) 4 4 6 2 15 15 15 11 36 51 8 3 8 16 0 0 0 0 0 6 7 0 7 0 0"
| "ddr4_speed_table DDR4_2133R =
     ddr4_speed.make 2133 (3200/3) (15/16) 4 4 6 2 16 16 16 11 36 52 8 3 8 16 0 0 0 0 0 6 7 0 7 0 0"
| "ddr4_speed_table DDR4_2400R =
     ddr4_speed.make 2400 1200 (5/6) 4 4 6 2 16 16 16 12 39 55 9 3 9 18 0 0 0 0 0 6 8 0 7 0 0"
| "ddr4_speed_table DDR4_2400U =
     ddr4_speed.make 2400 1200 (5/6) 4 4 6 2 18 18 18 12 39 57 9 3 9 18 0 0 0 0 0 6 8 0 7 0 0"
| "ddr4_speed_table DDR4_2400R_disable_bg =
     ddr4_speed.make 2400 1200 (5/6) 4 4 4 2 16 16 16 12 39 55 9 3 9 18 0 0 0 0 0 6 8 0 7 0 0"

definition ddr4_org_of :: "string \<Rightarrow> ddr4_org" where
  "ddr4_org_of =
     enum_of
       [(''DDR4_2Gb_x4'', DDR4_2Gb_x4), (''DDR4_2Gb_x8'', DDR4_2Gb_x8),
        (''DDR4_2Gb_x16'', DDR4_2Gb_x16), (''DDR4_4Gb_x4'', DDR4_4Gb_x4),
        (''DDR4_4Gb_x8'', DDR4_4Gb_x8), (''DDR4_4Gb_x16'', DDR4_4Gb_x16),
        (''DDR4_8Gb_x4'', DDR4_8Gb_x4), (''DDR4_8Gb_x8'', DDR4_8Gb_x8),
        (''DDR4_8Gb_x16'', DDR4_8Gb_x16)] DDR4_2Gb_x4"

definition ddr4_speed_of :: "string \<Rightarrow> ddr4_speed_grade" where
  "ddr4_speed_of =
     enum_of
       [(''DDR4_1600K'', DDR4_1600K), (''DDR4_1600L'', DDR4_1600L), (''DDR4_1866M'', DDR4_1866M),
        (''DDR4_1866N'', DDR4_1866N), (''DDR4_2133P'', DDR4_2133P), (''DDR4_2133R'', DDR4_2133R),
        (''DDR4_2400R'', DDR4_2400R), (''DDR4_2400U'', DDR4_2400U),
        (''DDR4_2400R_disable_bg'', DDR4_2400R_disable_bg)] DDR4_1600K"

datatype ddr4_refresh_mode = Refresh_1X | Refresh_2X | Refresh_4X

fun refresh_mode_num :: "ddr4_refresh_mode \<Rightarrow> nat" where
  "refresh_mode_num Refresh_1X = 0"
| "refresh_mode_num Refresh_2X = 1"
| "refresh_mode_num Refresh_4X = 2"

definition RRDS_TABLE :: "int list list" where
  "RRDS_TABLE = [[4, 4, 4, 4], [5, 5, 6, 7]]"

definition RRDL_TABLE :: "int list list" where
  "RRDL_TABLE = [[5, 5, 6, 6], [6, 6, 7, 8]]"

definition FAW_TABLE :: "int list list" where
  "FAW_TABLE = [[16, 16, 16, 16], [20, 22, 23, 26], [28, 28, 32, 36]]"

definition RFC_TABLE :: "int list list list" where
  "RFC_TABLE =
     [[[128, 150, 171, 193], [208, 243, 278, 313], [280, 327, 374, 421]],
      [[88, 103, 118, 132], [128, 150, 171, 192], [208, 243, 278, 312]],
      [[72, 84, 96, 108], [88, 103, 118, 132], [128, 150, 171, 192]]]"

definition REFI_TABLE :: "int list" where
  "REFI_TABLE = [6240, 7280, 8320, 9360]"

definition XS_TABLE :: "int list list" where
  "XS_TABLE = [[136, 159, 182, 204], [216, 252, 288, 324], [288, 336, 384, 432]]"

definition ddr4_init_speed :: "ddr4_refresh_mode \<Rightarrow> org_entry \<Rightarrow> ddr4_speed \<Rightarrow> ddr4_speed res" where
  "ddr4_init_speed mode org s =
     bindR (switch [(1600, 0), (1866, 1), (2133, 2), (2400, 3)] (d4_rate s)) (\<lambda>speed.
     bindR (switch [(2, 0), (4, 1), (8, 2)] (drop_bit 10 (org_size org))) (\<lambda>density.
       Inr (s\<lparr>d4_nRRDS := RRDS_TABLE ! (if org_dq org = 16 then 1 else 0) ! speed,
              d4_nRRDL := RRDL_TABLE ! (if org_dq org = 16 then 1 else 0) ! speed,
              d4_nFAW := FAW_TABLE ! (if org_dq org = 4 then 0 else if org_dq org = 8 then 1 else 2) ! speed,
              d4_nRFC := RFC_TABLE ! refresh_mode_num mode ! density ! speed,
              d4_nREFI := drop_bit (refresh_mode_num mode) (REFI_TABLE ! speed),
              d4_nXS := XS_TABLE ! density ! speed\<rparr>)))"

section \<open>Levels and states\<close>

fun ddr4_scope :: "command \<Rightarrow> nat" where
  "ddr4_scope ACT = 4"
| "ddr4_scope PRE = 3"
| "ddr4_scope PREA = 1"
| "ddr4_scope RD = 5"
| "ddr4_scope WR = 5"
| "ddr4_scope RDA = 5"
| "ddr4_scope WRA = 5"
| "ddr4_scope REF = 1"
| "ddr4_scope PDE = 1"
| "ddr4_scope PDX = 1"
| "ddr4_scope SRE = 1"
| "ddr4_scope SRX = 1"

definition ddr4_start :: "nat \<Rightarrow> dstate" where
  "ddr4_start lv = [StMAX, PowerUp, StMAX, Closed, Closed, StMAX] ! lv"

section \<open>Prerequisites, row queries and state transitions\<close>

definition ddr4_prereq :: dram_prereq where
  "ddr4_prereq = ddr_prereq 1 3 group_banks"

definition ddr4_rowhit :: dram_query where
  "ddr4_rowhit = ddr_rowhit 3"

definition ddr4_rowopen :: dram_query where
  "ddr4_rowopen = ddr_rowopen 3"

definition ddr4_lambda :: dram_lambda where
  "ddr4_lambda = ddr_lambda 1 3 group_banks on_group_banks"

section \<open>Timing\<close>

definition ddr4_timing_Channel :: "ddr4_speed \<Rightarrow> command pushes" where
  "ddr4_timing_Channel s =
     [push RD RD 1 (d4_nBL s), push RD RDA 1 (d4_nBL s), push RDA RD 1 (d4_nBL s),
      push RDA RDA 1 (d4_nBL s), push WR WR 1 (d4_nBL s), push WR WRA 1 (d4_nBL s),
      push WRA WR 1 (d4_nBL s), push WRA WRA 1 (d4_nBL s)]"

definition ddr4_timing_Rank :: "ddr4_speed \<Rightarrow> command pushes" where
  "ddr4_timing_Rank s =
     [push RD RD 1 (d4_nCCDS s), push RD RDA 1 (d4_nCCDS s), push RDA RD 1 (d4_nCCDS s),
      push RDA RDA 1 (d4_nCCDS s), push WR WR 1 (d4_nCCDS s), push WR WRA 1 (d4_nCCDS s),
      push WRA WR 1 (d4_nCCDS s), push WRA WRA 1 (d4_nCCDS s),
      push RD WR 1 (d4_nCL s + d4_nCCDS s + 2 - d4_nCWL s),
      push RD WRA 1 (d4_nCL s + d4_nCCDS s + 2 - d4_nCWL s),
      push RDA WR 1 (d4_nCL s + d4_nCCDS s + 2 - d4_nCWL s),
      push RDA WRA 1 (d4_nCL s + d4_nCCDS s + 2 - d4_nCWL s),
      push WR RD 1 (d4_nCWL s + d4_nBL s + d4_nWTRS s),
      push WR RDA 1 (d4_nCWL s + d4_nBL s + d4_nWTRS s),
      push WRA RD 1 (d4_nCWL s + d4_nBL s + d4_nWTRS s),
      push WRA RDA 1 (d4_nCWL s + d4_nBL s + d4_nWTRS s), push_sib RD RD 1 (d4_nBL s + d4_nRTRS s),
      push_sib RD RDA 1 (d4_nBL s + d4_nRTRS s), push_sib RDA RD 1 (d4_nBL s + d4_nRTRS s),
      push_sib RDA RDA 1 (d4_nBL s + d4_nRTRS s), push_sib RD WR 1 (d4_nBL s + d4_nRTRS s),
      push_sib RD WRA 1 (d4_nBL s + d4_nRTRS s), push_sib RDA WR 1 (d4_nBL s + d4_nRTRS s),
      push_sib RDA WRA 1 (d4_nBL s + d4_nRTRS s),
      push_sib RD WR 1 (d4_nCL s + d4_nBL s + d4_nRTRS s - d4_nCWL s),
      push_sib RD WRA 1 (d4_nCL s + d4_nBL s + d4_nRTRS s - d4_nCWL s),
      push_sib RDA WR 1 (d4_nCL s + d4_nBL s + d4_nRTRS s - d4_nCWL s),
      push_sib RDA WRA 1 (d4_nCL s + d4_nBL s + d4_nRTRS s - d4_nCWL s),
      push_sib WR RD 1 (d4_nCWL s + d4_nBL s + d4_nRTRS s - d4_nCL s),
      push_sib WR RDA 1 (d4_nCWL s + d4_nBL s + d4_nRTRS s - d4_nCL s),
      push_sib WRA RD 1 (d4_nCWL s + d4_nBL s + d4_nRTRS s - d4_nCL s),
      push_sib WRA RDA 1 (d4_nCWL s + d4_nBL s + d4_nRTRS s - d4_nCL s), push RD PREA 1 (d4_nRTP s),
      push WR PREA 1 (d4_nCWL s + d4_nBL s + d4_nWR s), push RD PDE 1 (d4_nCL s + d4_nBL s + 1),
      push RDA PDE 1 (d4_nCL s + d4_nBL s + 1), push WR PDE 1 (d4_nCWL s + d4_nBL s + d4_nWR s),
      push WRA PDE 1 (d4_nCWL s + d4_nBL s + d4_nWR s + 1), push PDX RD 1 (d4_nXP s),
      push PDX RDA 1 (d4_nXP s), push PDX WR 1 (d4_nXP s), push PDX WRA 1 (d4_nXP s),
      push ACT ACT 1 (d4_nRRDS s), push ACT ACT 4 (d4_nFAW s), push ACT PREA 1 (d4_nRAS s),
      push PREA ACT 1 (d4_nRP s), push PRE REF 1 (d4_nRP s), push PREA REF 1 (d4_nRP s),
      push REF ACT 1 (d4_nRFC s), push ACT PDE 1 1, push PDX ACT 1 (d4_nXP s),
      push PDX PRE 1 (d4_nXP s), push PDX PREA 1 (d4_nXP s), push PRE SRE 1 (d4_nRP s),
      push PREA SRE 1 (d4_nRP s), push SRX ACT 1 (d4_nXS s), push REF REF 1 (d4_nRFC s),
      push REF PDE 1 1, push PDX REF 1 (d4_nXP s), push SRX REF 1 (d4_nXS s),
      push PDE PDX 1 (d4_nPD s), push PDX PDE 1 (d4_nXP s), push PDX SRE 1 (d4_nXP s),
      push SRX PDE 1 (d4_nXS s), push SRE SRX 1 (d4_nCKESR s), push SRX SRE 1 (d4_nXS s)]"

definition ddr4_timing_BankGroup :: "ddr4_speed \<Rightarrow> command pushes" where
  "ddr4_timing_BankGroup s =
     [push RD RD 1 (d4_nCCDL s), push RD RDA 1 (d4_nCCDL s), push RDA RD 1 (d4_nCCDL s),
      push RDA RDA 1 (d4_nCCDL s), push WR WR 1 (d4_nCCDL s), push WR WRA 1 (d4_nCCDL s),
      push WRA WR 1 (d4_nCCDL s), push WRA WRA 1 (d4_nCCDL s),
      push WR RD 1 (d4_nCWL s + d4_nBL s + d4_nWTRL s),
      push WR RDA 1 (d4_nCWL s + d4_nBL s + d4_nWTRL s),
      push WRA RD 1 (d4_nCWL s + d4_nBL s + d4_nWTRL s),
      push WRA RDA 1 (d4_nCWL s + d4_nBL s + d4_nWTRL s), push ACT ACT 1 (d4_nRRDL s)]"

definition ddr4_timing_Bank :: "ddr4_speed \<Rightarrow> command pushes" where
  "ddr4_timing_Bank s =
     [push ACT RD 1 (d4_nRCD s), push ACT RDA 1 (d4_nRCD s), push ACT WR 1 (d4_nRCD s),
      push ACT WRA 1 (d4_nRCD s), push RD PRE 1 (d4_nRTP s),
      push WR PRE 1 (d4_nCWL s + d4_nBL s + d4_nWR s), push RDA ACT 1 (d4_nRTP s + d4_nRP s),
      push WRA ACT 1 (d4_nCWL s + d4_nBL s + d4_nWR s + d4_nRP s), push ACT ACT 1 (d4_nRC s),
      push ACT PRE 1 (d4_nRAS s), push PRE ACT 1 (d4_nRP s)]"

definition ddr4_timing :: "ddr4_speed \<Rightarrow> nat \<Rightarrow> command \<Rightarrow> command timing_entry list" where
  "ddr4_timing s lv =
     entries_for
       (if lv = 0 then ddr4_timing_Channel s
        else if lv = 1 then ddr4_timing_Rank s
        else if lv = 2 then ddr4_timing_BankGroup s
        else if lv = 3 then ddr4_timing_Bank s
        else [])"

section \<open>The standard\<close>

definition ddr4_spec :: "org_entry \<Rightarrow> ddr4_speed \<Rightarrow> (command, dstate) spec" where
  "ddr4_spec org s =
     ddr_spec ddr4_scope ddr4_start 3 ddr4_prereq ddr4_rowhit ddr4_rowopen ddr4_lambda org (ddr4_timing s)
       (d4_nCL s + d4_nBL s) (d4_nREFI s) 8 64"

definition mk_ddr4 :: "ddr4_org \<Rightarrow> ddr4_speed_grade \<Rightarrow> int \<Rightarrow> int \<Rightarrow> (command, dstate) spec res" where
  "mk_ddr4 org speed channels ranks =
     bindR (ddr4_init_speed Refresh_1X (ddr4_org_table org) (ddr4_speed_table speed)) (\<lambda>s.
       Inr (ddr4_spec (set_rank_number ranks (set_channel_number channels (ddr4_org_table org))) s))"

section \<open>The interfaces\<close>

lemma ddr4_init_speed_ok:
  assumes "drop_bit 10 (org_size org) \<in> {2, 4, 8}"
  shows "\<exists>s. ddr4_init_speed mode org (ddr4_speed_table g) = Inr s
     \<and> d4_nCL s = d4_nCL (ddr4_speed_table g) \<and> d4_nCWL s = d4_nCWL (ddr4_speed_table g)
     \<and> d4_nBL s = d4_nBL (ddr4_speed_table g) \<and> d4_nRTRS s = 2
     \<and> d4_nBL s \<le> d4_nCCDS s + 2 \<and> 0 \<le> d4_nCL s \<and> 0 \<le> d4_nWTRS s"
  using assms by (cases g) (auto simp: ddr4_init_speed_def switch_def ddr4_speed.defs)

lemma ddr4_density: "drop_bit 10 (org_size (ddr4_org_table org)) \<in> {2, 4, 8}"
  by (cases org) (simp_all add: org_entry.defs drop_bit_eq_div)

lemma ddr4_timing_push_ok:
  "\<exists>ps. ddr4_timing s lv = entries_for ps \<and> list_all (push_ok is_refreshing is_opening) ps"
  by (rule exI, rule conjI, rule ddr4_timing_def)
    (simp add: ddr4_timing_Channel_def ddr4_timing_Rank_def ddr4_timing_BankGroup_def ddr4_timing_Bank_def)

lemma ddr4_banks:
  "3 < length (org_count (ddr4_org_table org)) \<and> 0 < org_count (ddr4_org_table org) ! 2
   \<and> 0 < org_count (ddr4_org_table org) ! 3"
  by (cases org) (simp_all add: org_entry.defs)

definition ddr4_ranked :: "ddr4_org \<Rightarrow> int \<Rightarrow> nat \<Rightarrow> org_entry" where
  "ddr4_ranked org channels r = set_rank_number (1 + int r) (set_channel_number channels (ddr4_org_table org))"

lemma ddr4_ranked_count:
  "org_count (ddr4_ranked org c r) ! 1 = 1 + int r"
  "2 \<le> lv \<Longrightarrow> org_count (ddr4_ranked org c r) ! lv = org_count (ddr4_org_table org) ! lv"
  using ddr4_banks [of org] by (simp_all add: ddr4_ranked_def set_rank_number_def set_channel_number_def)

interpretation ddr4: dram_spec "ddr4_spec (ddr4_ranked org c r) s" for org c r s
  unfolding ddr4_spec_def
proof (rule ddr_spec_laws [OF _ ddr4_timing_push_ok _ ddr4_lambda_def refl])
  show "0 < org_count (ddr4_ranked org c r) ! lv" if "0 < lv" "lv \<le> 3" for lv
    using that ddr4_ranked_count [where org = org and c = c and r = r] ddr4_banks [of org]
    by (cases "lv = 1"; cases "lv = 2") (auto simp: le_Suc_eq numeral_2_eq_2 numeral_3_eq_3)
qed (simp add: on_group_banks_def)

definition ddr4_final :: "ddr4_org \<Rightarrow> ddr4_speed_grade \<Rightarrow> ddr4_speed" where
  "ddr4_final org g =
     (case ddr4_init_speed Refresh_1X (ddr4_org_table org) (ddr4_speed_table g) of
        Inr s \<Rightarrow> s | Inl _ \<Rightarrow> ddr4_speed_table g)"

lemma ddr4_bus_table:
  assumes "d4_nBL s \<le> d4_nCCDS s + 2" "0 \<le> d4_nCL s" "0 \<le> d4_nWTRS s" "d4_nRTRS s = 2"
  shows "bus_ok (ddr4_spec org s) cas_commands (cas_lat (d4_nCL s) (d4_nCWL s)) (d4_nBL s)"
proof -
  have t: "sp_timing (ddr4_spec org s) 0 = entries_for (ddr4_timing_Channel s)"
    "sp_timing (ddr4_spec org s) 1 = entries_for (ddr4_timing_Rank s)"
    by (simp_all add: ddr4_spec_def ddr4_timing_def fun_eq_iff)
  show ?thesis using assms
    unfolding bus_ok_def separated_push [OF t(1)] separated_push [OF t(2)]
    by (simp add: ddr4_timing_Channel_def ddr4_timing_Rank_def cas_lat_def)
qed

interpretation ddr4_bus: data_bus "ddr4_spec (ddr4_ranked org c r) (ddr4_final org g)" cas_commands
  "cas_lat (d4_nCL (ddr4_speed_table g)) (d4_nCWL (ddr4_speed_table g))" "d4_nBL (ddr4_speed_table g)" for org c r g
proof unfold_locales
  obtain s where s: "ddr4_final org g = s" "d4_nCL s = d4_nCL (ddr4_speed_table g)"
    "d4_nCWL s = d4_nCWL (ddr4_speed_table g)" "d4_nBL s = d4_nBL (ddr4_speed_table g)"
    "d4_nBL s \<le> d4_nCCDS s + 2" "0 \<le> d4_nCL s" "0 \<le> d4_nWTRS s" "d4_nRTRS s = 2"
    using ddr4_init_speed_ok [OF ddr4_density, of Refresh_1X org g] by (auto simp: ddr4_final_def)
  show "bus_ok (ddr4_spec (ddr4_ranked org c r) (ddr4_final org g)) cas_commands
    (cas_lat (d4_nCL (ddr4_speed_table g)) (d4_nCWL (ddr4_speed_table g))) (d4_nBL (ddr4_speed_table g))"
    using ddr4_bus_table [OF s(5-8)] s(1-4) by simp
qed (auto simp: ddr4_spec_def)

section \<open>Properties\<close>

text \<open>
  C17.  On a DDR4 channel with any number of ranks the bursts of two column accesses never overlap on
  the data bus, whatever their banks, bank groups and ranks, if every command was issued when
  \<open>check\<close> allowed it; and the constructor succeeds for every organisation and speed grade.
\<close>

theorem ddr4_bursts_apart:
  assumes "0 < ranks"
  shows "\<exists>sp. mk_ddr4 org g channels ranks = Inr sp
    \<and> (\<forall>xs ys zs c ad clk c0 a k i t.
         hist_ok (rev xs) \<and> (\<forall>(c, a, k)\<in>set xs. addr_ok sp c a \<and> a ! 0 = i)
         \<and> issue_checked sp xs (new_dram sp 0 i) = Inr t \<and> xs = ys @ (c, ad, clk) # zs
         \<and> (c0, a, k) \<in> set ys \<and> c0 \<in> set cas_commands \<and> c \<in> set cas_commands
         \<longrightarrow> k + cas_lat (d4_nCL (ddr4_speed_table g)) (d4_nCWL (ddr4_speed_table g)) c0 + d4_nBL (ddr4_speed_table g)
             \<le> clk + cas_lat (d4_nCL (ddr4_speed_table g)) (d4_nCWL (ddr4_speed_table g)) c)"
proof -
  have "mk_ddr4 org g channels ranks =
    Inr (ddr4_spec (ddr4_ranked org channels (nat (ranks - 1))) (ddr4_final org g))"
    using assms ddr4_init_speed_ok [OF ddr4_density, of Refresh_1X org g]
    by (auto simp: mk_ddr4_def ddr4_final_def ddr4_ranked_def)
  then show ?thesis using ddr4_bus.bursts_apart by blast
qed

definition ddr4_run :: "command history" where
  "ddr4_run =
     [(ACT, [0, 0, 1, 2, 7, 0], 0), (ACT, [0, 1, 3, 0, 9, 0], 3), (WR, [0, 0, 1, 2, 7, 0], 16),
      (RD, [0, 1, 3, 0, 9, 0], 22)]"

theorem ddr4_bursts_apart_witness:
  "16 + cas_lat (d4_nCL (ddr4_speed_table DDR4_2400R)) (d4_nCWL (ddr4_speed_table DDR4_2400R)) WR
      + d4_nBL (ddr4_speed_table DDR4_2400R)
   \<le> 22 + cas_lat (d4_nCL (ddr4_speed_table DDR4_2400R)) (d4_nCWL (ddr4_speed_table DDR4_2400R)) RD"
proof -
  obtain sp where sp: "mk_ddr4 DDR4_4Gb_x8 DDR4_2400R 1 2 = Inr sp" and
    apart: "\<forall>xs ys zs c ad clk c0 a k i t.
         hist_ok (rev xs) \<and> (\<forall>(c, a, k)\<in>set xs. addr_ok sp c a \<and> a ! 0 = i)
         \<and> issue_checked sp xs (new_dram sp 0 i) = Inr t \<and> xs = ys @ (c, ad, clk) # zs
         \<and> (c0, a, k) \<in> set ys \<and> c0 \<in> set cas_commands \<and> c \<in> set cas_commands
         \<longrightarrow> k + cas_lat (d4_nCL (ddr4_speed_table DDR4_2400R)) (d4_nCWL (ddr4_speed_table DDR4_2400R)) c0
               + d4_nBL (ddr4_speed_table DDR4_2400R)
             \<le> clk + cas_lat (d4_nCL (ddr4_speed_table DDR4_2400R)) (d4_nCWL (ddr4_speed_table DDR4_2400R)) c"
    using ddr4_bursts_apart [of 2 DDR4_4Gb_x8 DDR4_2400R 1] by auto
  have "\<not> isl (bindR (mk_ddr4 DDR4_4Gb_x8 DDR4_2400R 1 2) (\<lambda>sp. issue_checked sp ddr4_run (new_dram sp 0 0)))"
    by code_simp
  then obtain t where run: "issue_checked sp ddr4_run (new_dram sp 0 0) = Inr t"
    using sp not_isl_Inr by (auto simp: isl_def)
  have "sp_count sp = (\<lambda>lv. [1, 2, 4, 4, 32768, 1024] ! lv)" "sp_row_level sp = 4"
    using sp ddr4_init_speed_ok [OF ddr4_density, of Refresh_1X DDR4_4Gb_x8 DDR4_2400R]
    by (auto simp: mk_ddr4_def ddr4_spec_def ddr_spec_def set_rank_number_def set_channel_number_def org_entry.defs)
  then have ok: "\<forall>(c, a, k)\<in>set ddr4_run. addr_ok sp c a \<and> a ! 0 = 0"
    by (auto simp: ddr4_run_def addr_ok_def less_Suc_eq eval_nat_numeral)
  have "hist_ok (rev ddr4_run)" by (simp add: hist_ok_def ddr4_run_def)
  with ok run show ?thesis
    by (intro apart [rule_format, of ddr4_run 0 t "butlast ddr4_run" RD "[0, 1, 3, 0, 9, 0]" 22 "[]" WR
          "[0, 0, 1, 2, 7, 0]" 16]) (simp add: ddr4_run_def)
qed

end
