(* ===== verification/GDDR5_Spec.thy ===== *)
theory GDDR5_Spec
  imports DDR_Common
begin

text \<open>
  GDDR5: \<open>ramulator/src/GDDR5.h\<close> and \<open>GDDR5.cpp\<close>.  The tree of a channel has the levels Channel (0),
  Rank (1), BankGroup (2) and Bank (3); there is always one rank.  The tables are those of the
  source, entry by entry.
\<close>

section \<open>Organisation and speed\<close>

datatype gddr5_org =
    GDDR5_512Mb_x16 | GDDR5_512Mb_x32 | GDDR5_1Gb_x16 | GDDR5_1Gb_x32 |
    GDDR5_2Gb_x16 | GDDR5_2Gb_x32 | GDDR5_4Gb_x16 | GDDR5_4Gb_x32 | GDDR5_8Gb_x16 | GDDR5_8Gb_x32 |
    GDDR5_2Gb_x16_bank32 | GDDR5_2Gb_x16_bank64 | GDDR5_2Gb_x16_bank128 | GDDR5_2Gb_x16_bank256 |
    GDDR5_2Gb_x16_bank512

fun gddr5_org_table :: "gddr5_org \<Rightarrow> org_entry" where
  "gddr5_org_table GDDR5_512Mb_x16 = org_entry.make 512 16 [0, 1, 4, 2, 4096, 1024]"
| "gddr5_org_table GDDR5_512Mb_x32 = org_entry.make 512 32 [0, 1, 4, 2, 4096, 512]"
| "gddr5_org_table GDDR5_1Gb_x16 = org_entry.make 1024 16 [0, 1, 4, 4, 4096, 1024]"
| "gddr5_org_table GDDR5_1Gb_x32 = org_entry.make 1024 32 [0, 1, 4, 4, 4096, 512]"
| "gddr5_org_table GDDR5_2Gb_x16 = org_entry.make 2048 16 [0, 1, 4, 4, 8192, 1024]"
| "gddr5_org_table GDDR5_2Gb_x32 = org_entry.make 2048 32 [0, 1, 4, 4, 8192, 512]"
| "gddr5_org_table GDDR5_4Gb_x16 = org_entry.make 4096 16 [0, 1, 4, 4, 16384, 1024]"
| "gddr5_org_table GDDR5_4Gb_x32 = org_entry.make 2048 32 [0, 1, 4, 4, 16384, 512]"
| "gddr5_org_table GDDR5_8Gb_x16 = org_entry.make 8192 16 [0, 1, 4, 4, 16384, 2048]"
| "gddr5_org_table GDDR5_8Gb_x32 = org_entry.make 8192 32 [0, 1, 4, 4, 16384, 1024]"
| "gddr5_org_table GDDR5_2Gb_x16_bank32 = org_entry.make 2048 16 [0, 1, 4, 8, 4096, 1024]"
| "gddr5_org_table GDDR5_2Gb_x16_bank64 = org_entry.make 2048 16 [0, 1, 4, 16, 2048, 1024]"
| "gddr5_org_table GDDR5_2Gb_x16_bank128 = org_entry.make 2048 16 [0, 1, 4, 32, 1024, 1024]"
| "gddr5_org_table GDDR5_2Gb_x16_bank256 = org_entry.make 2048 16 [0, 1, 4, 64, 512, 1024]"
| "gddr5_org_table GDDR5_2Gb_x16_bank512 = org_entry.make 2048 16 [0, 1, 4, 128, 256, 1024]"

datatype gddr5_speed_grade =
    GDDR5_4000 | GDDR5_4500 | GDDR5_5000 | GDDR5_5500 | GDDR5_6000 |
    GDDR5_6500 | GDDR5_7000 | GDDR5_7000_disable_bg | GDDR5_7000_larger_REFI |
    GDDR5_7000_disable_bg_larger_REFI | GDDR5_7000_unlimit_bandwidth

record gddr5_speed =
  g5_rate :: int
  g5_freq :: rat
  g5_tCK :: rat
  g5_nBL :: int
  g5_nCCDS :: int
  g5_nCCDL :: int
  g5_nCL :: int
  g5_nRCDR :: int
  g5_nRCDW :: int
  g5_nRP :: int
  g5_nCWL :: int
  g5_nRAS :: int
  g5_nRC :: int
  g5_nPPD :: int
  g5_nRTP :: int
  g5_nWTR :: int
  g5_nWR :: int
  g5_nRRD :: int
  g5_nFAW :: int
  g5_n32AW :: int
  g5_nRFC :: int
  g5_nREFI :: int
  g5_nPD :: int
  g5_nXPN :: int
  g5_nLK :: int
  g5_nCKESR :: int
  g5_nXS :: int
  g5_nXSDLL :: int

fun gddr5_speed_table :: "gddr5_speed_grade \<Rightarrow> gddr5_speed" where
  "gddr5_speed_table GDDR5_4000 =
     gddr5_speed.make 4000 1000 1 2 2 3 12 12 10 12 3 28 40 1 2 5 12 6 23 184 0 0 10 10 0 0 0 0"
| "gddr5_speed_table GDDR5_4500 =
     gddr5_speed.make 4500 1125 (8/9) 2 2 3 14 14 12 14 4 32 46 2 2 6 14 7 26 207 0 0 10 10 0 0 0 0"
| "gddr5_speed_table GDDR5_5000 =
     gddr5_speed.make 5000 1250 (4/5) 2 2 3 15 15 13 15 4 35 50 2 2 7 15 7 29 230 0 0 10 10 0 0 0 0"
| "gddr5_speed_table GDDR5_5500 =
     gddr5_speed.make 5500 1375 (8/11) 2 2 3 17 17 14 17 5 39 56 2 2 7 17 8 32 253 0 0 10 10 0 0 0 0"
| "gddr5_speed_table GDDR5_6000 =
     gddr5_speed.make 6000 1500 (2/3) 2 2 3 18 18 15 18 5 42 60 2 2 8 18 9 35 276 0 0 10 10 0 0 0 0"
| "gddr5_speed_table GDDR5_6500 =
     gddr5_speed.make 6500 1625 (8/13) 2 2 3 20 20 17 20 5 46 66 2 2 9 20 9 38 299 0 0 10 10 0 0 0 0"
| "gddr5_speed_table GDDR5_7000 =
     gddr5_speed.make 7000 1750 (4/7) 2 2 3 21 21 18 21 6 49 70 2 2 9 21 10 41 322 0 0 10 10 0 0 0 0"
| "gddr5_speed_table GDDR5_7000_disable_bg =
     gddr5_speed.make 7000 1750 (4/7) 2 2 2 21 21 18 21 6 49 70 2 2 9 21 10 41 322 0 0 10 10 0 0 0 0"
| "gddr5_speed_table GDDR5_7000_larger_REFI =
     gddr5_speed.make 7000 1750 (4/7) 2 2 3 21 21 18 21 6 49 70 2 2 9 21 10 41 322 0 13650 10 10 0 0 0 0"
| "gddr5_speed_table GDDR5_7000_disable_bg_larger_REFI =
     gddr5_speed.make 7000 1750 (4/7) 2 2 2 21 21 18 21 6 49 70 2 2 9 21 10 41 322 0 13650 10 10 0 0 0 0"
| "gddr5_speed_table GDDR5_7000_unlimit_bandwidth =
     gddr5_speed.make 7000 1750 (4/7) 0 1 1 21 21 18 21 6 49 70 2 2 9 21 10 41 322 0 0 10 10 0 0 0 0"

definition gddr5_org_of :: "string \<Rightarrow> gddr5_org" where
  "gddr5_org_of =
     enum_of
       [(''GDDR5_512Mb_x16'', GDDR5_512Mb_x16), (''GDDR5_512Mb_x32'', GDDR5_512Mb_x32),
        (''GDDR5_1Gb_x16'', GDDR5_1Gb_x16), (''GDDR5_1Gb_x32'', GDDR5_1Gb_x32),
        (''GDDR5_2Gb_x16'', GDDR5_2Gb_x16), (''GDDR5_2Gb_x32'', GDDR5_2Gb_x32),
        (''GDDR5_4Gb_x16'', GDDR5_4Gb_x16), (''GDDR5_4Gb_x32'', GDDR5_4Gb_x32),
        (''GDDR5_8Gb_x16'', GDDR5_8Gb_x16), (''GDDR5_8Gb_x32'', GDDR5_8Gb_x32),
        (''GDDR5_2Gb_x16_bank32'', GDDR5_2Gb_x16_bank32),
        (''GDDR5_2Gb_x16_bank64'', GDDR5_2Gb_x16_bank64),
        (''GDDR5_2Gb_x16_bank128'', GDDR5_2Gb_x16_bank128),
        (''GDDR5_2Gb_x16_bank256'', GDDR5_2Gb_x16_bank256),
        (''GDDR5_2Gb_x16_bank512'', GDDR5_2Gb_x16_bank512)] GDDR5_512Mb_x16"

definition gddr5_speed_of :: "string \<Rightarrow> gddr5_speed_grade" where
  "gddr5_speed_of =
     enum_of
       [(''GDDR5_4000'', GDDR5_4000), (''GDDR5_4500'', GDDR5_4500), (''GDDR5_5000'', GDDR5_5000),
        (''GDDR5_5500'', GDDR5_5500), (''GDDR5_6000'', GDDR5_6000), (''GDDR5_6500'', GDDR5_6500),
        (''GDDR5_7000'', GDDR5_7000), (''GDDR5_7000_disable_bg'', GDDR5_7000_disable_bg),
        (''GDDR5_7000_larger_REFI'', GDDR5_7000_larger_REFI),
        (''GDDR5_7000_disable_bg_larger_REFI'', GDDR5_7000_disable_bg_larger_REFI),
        (''GDDR5_7000_unlimit_bandwidth'', GDDR5_7000_unlimit_bandwidth)] GDDR5_4000"

text \<open>The arrays have one element per speed grade; the elements without initialiser are 0.\<close>

definition REFIL_TABLE :: "int list" where
  "REFIL_TABLE = [3900, 4388, 4875, 5363, 5850, 6338, 6825, 0, 0, 0, 0]"

definition REFIS_TABLE :: "int list" where
  "REFIS_TABLE = [1900, 2138, 2375, 2613, 2850, 3088, 3325, 0, 0, 0, 0]"

definition gddr5_RFC_TABLE :: "int list list" where
  "gddr5_RFC_TABLE =
     [[90, 102, 113, 124, 135, 147, 158, 0, 0, 0, 0],
      [110, 124, 138, 152, 165, 179, 193, 0, 0, 0, 0],
      [160, 180, 200, 220, 240, 260, 280, 0, 0, 0, 0],
      [260, 293, 325, 358, 390, 423, 455, 0, 0, 0, 0],
      [350, 394, 438, 482, 525, 569, 613, 0, 0, 0, 0]]"

definition gddr5_init_speed :: "org_entry \<Rightarrow> gddr5_speed \<Rightarrow> gddr5_speed res" where
  "gddr5_init_speed org s =
     bindR (switch [(4000, 0), (4500, 1), (5000, 2), (5500, 3), (6000, 4), (6500, 5), (7000, 6)] (g5_rate s)) (\<lambda>speed.
     bindR (switch [(1, 0), (2, 1), (4, 2), (8, 3), (16, 4)] (drop_bit 9 (org_size org))) (\<lambda>density.
       let s1 = (if g5_nREFI s = 0 then
                   s\<lparr>g5_nREFI := (if org_size org \<le> 1024 then REFIL_TABLE ! speed else REFIS_TABLE ! speed)\<rparr>
                 else s)
       in Inr (s1\<lparr>g5_nRFC := gddr5_RFC_TABLE ! density ! speed\<rparr>)))"

section \<open>Levels and states\<close>

fun gddr5_scope :: "command \<Rightarrow> nat" where
  "gddr5_scope ACT = 4"
| "gddr5_scope PRE = 3"
| "gddr5_scope PREA = 1"
| "gddr5_scope RD = 5"
| "gddr5_scope WR = 5"
| "gddr5_scope RDA = 5"
| "gddr5_scope WRA = 5"
| "gddr5_scope REF = 1"
| "gddr5_scope PDE = 1"
| "gddr5_scope PDX = 1"
| "gddr5_scope SRE = 1"
| "gddr5_scope SRX = 1"

definition gddr5_start :: "nat \<Rightarrow> dstate" where
  "gddr5_start lv = [StMAX, PowerUp, StMAX, Closed, Closed, StMAX] ! lv"

section \<open>Prerequisites, row queries and state transitions\<close>

definition gddr5_prereq :: dram_prereq where
  "gddr5_prereq = ddr_prereq 1 3 group_banks"

definition gddr5_rowhit :: dram_query where
  "gddr5_rowhit = ddr_rowhit 3"

definition gddr5_rowopen :: dram_query where
  "gddr5_rowopen = ddr_rowopen 3"

definition gddr5_lambda :: dram_lambda where
  "gddr5_lambda = ddr_lambda 1 3 group_banks on_group_banks"

section \<open>Timing\<close>

definition gddr5_timing_Channel :: "gddr5_speed \<Rightarrow> command pushes" where
  "gddr5_timing_Channel s =
     [push RD RD 1 (g5_nBL s), push RD RDA 1 (g5_nBL s), push RDA RD 1 (g5_nBL s),
      push RDA RDA 1 (g5_nBL s), push WR WR 1 (g5_nBL s), push WR WRA 1 (g5_nBL s),
      push WRA WR 1 (g5_nBL s), push WRA WRA 1 (g5_nBL s)]"

definition gddr5_timing_Rank :: "gddr5_speed \<Rightarrow> command pushes" where
  "gddr5_timing_Rank s =
     [push RD RD 1 (g5_nCCDS s), push RD RDA 1 (g5_nCCDS s), push RDA RD 1 (g5_nCCDS s),
      push RDA RDA 1 (g5_nCCDS s), push WR WR 1 (g5_nCCDS s), push WR WRA 1 (g5_nCCDS s),
      push WRA WR 1 (g5_nCCDS s), push WRA WRA 1 (g5_nCCDS s),
      push RD WR 1 (g5_nCL s + g5_nCCDS s + 2 - g5_nCWL s),
      push RD WRA 1 (g5_nCL s + g5_nCCDS s + 2 - g5_nCWL s),
      push RDA WR 1 (g5_nCL s + g5_nCCDS s + 2 - g5_nCWL s),
      push RDA WRA 1 (g5_nCL s + g5_nCCDS s + 2 - g5_nCWL s),
      push WR RD 1 (g5_nCWL s + g5_nBL s + g5_nWTR s),
      push WR RDA 1 (g5_nCWL s + g5_nBL s + g5_nWTR s),
      push WRA RD 1 (g5_nCWL s + g5_nBL s + g5_nWTR s),
      push WRA RDA 1 (g5_nCWL s + g5_nBL s + g5_nWTR s), push RD PREA 1 (g5_nRTP s),
      push WR PREA 1 (g5_nCWL s + g5_nBL s + g5_nWR s), push RD PDE 1 (g5_nCL s + g5_nBL s + 1),
      push RDA PDE 1 (g5_nCL s + g5_nBL s + 1), push WR PDE 1 (g5_nCWL s + g5_nBL s + g5_nWR s),
      push WRA PDE 1 (g5_nCWL s + g5_nBL s + g5_nWR s + 1), push PDX RD 1 (g5_nXPN s),
      push PDX RDA 1 (g5_nXPN s), push PDX WR 1 (g5_nXPN s), push PDX WRA 1 (g5_nXPN s),
      push ACT ACT 1 (g5_nRRD s), push ACT ACT 4 (g5_nFAW s), push ACT ACT 32 (g5_n32AW s),
      push ACT PREA 1 (g5_nRAS s), push PREA ACT 1 (g5_nRP s), push PRE PRE 1 (g5_nPPD s),
      push PRE REF 1 (g5_nRP s), push PREA REF 1 (g5_nRP s), push REF ACT 1 (g5_nRFC s),
      push ACT PDE 1 1, push PDX ACT 1 (g5_nXPN s), push PDX PRE 1 (g5_nXPN s),
      push PDX PREA 1 (g5_nXPN s), push PRE SRE 1 (g5_nRP s), push PREA SRE 1 (g5_nRP s),
      push SRX ACT 1 (g5_nXS s), push REF REF 1 (g5_nRFC s), push REF PDE 1 1,
      push PDX REF 1 (g5_nXPN s), push SRX REF 1 (g5_nXS s), push PDE PDX 1 (g5_nPD s),
      push PDX PDE 1 (g5_nXPN s), push PDX SRE 1 (g5_nXPN s), push SRX PDE 1 (g5_nXS s),
      push SRE SRX 1 (g5_nCKESR s), push SRX SRE 1 (g5_nXS s)]"

definition gddr5_timing_BankGroup :: "gddr5_speed \<Rightarrow> command pushes" where
  "gddr5_timing_BankGroup s =
     [push RD RD 1 (g5_nCCDL s), push RD RDA 1 (g5_nCCDL s), push RDA RD 1 (g5_nCCDL s),
      push RDA RDA 1 (g5_nCCDL s), push WR WR 1 (g5_nCCDL s), push WR WRA 1 (g5_nCCDL s),
      push WRA WR 1 (g5_nCCDL s), push WRA WRA 1 (g5_nCCDL s)]"

definition gddr5_timing_Bank :: "gddr5_speed \<Rightarrow> command pushes" where
  "gddr5_timing_Bank s =
     [push ACT RD 1 (g5_nRCDR s), push ACT RDA 1 (g5_nRCDR s), push ACT WR 1 (g5_nRCDW s),
      push ACT WRA 1 (g5_nRCDW s), push RD PRE 1 (g5_nRTP s),
      push WR PRE 1 (g5_nCWL s + g5_nBL s + g5_nWR s), push RDA ACT 1 (g5_nRTP s + g5_nRP s),
      push WRA ACT 1 (g5_nCWL s + g5_nBL s + g5_nWR s + g5_nRP s), push ACT ACT 1 (g5_nRC s),
      push ACT PRE 1 (g5_nRAS s), push PRE ACT 1 (g5_nRP s)]"

definition gddr5_timing :: "gddr5_speed \<Rightarrow> nat \<Rightarrow> command \<Rightarrow> command timing_entry list" where
  "gddr5_timing s lv =
     entries_for
       (if lv = 0 then gddr5_timing_Channel s
        else if lv = 1 then gddr5_timing_Rank s
        else if lv = 2 then gddr5_timing_BankGroup s
        else if lv = 3 then gddr5_timing_Bank s
        else [])"

section \<open>The standard\<close>

definition gddr5_spec :: "org_entry \<Rightarrow> gddr5_speed \<Rightarrow> (command, dstate) spec" where
  "gddr5_spec org s =
     ddr_spec gddr5_scope gddr5_start 3 gddr5_prereq gddr5_rowhit gddr5_rowopen gddr5_lambda org (gddr5_timing s)
       (g5_nCL s + g5_nBL s) (g5_nREFI s) 8 64"

text \<open>\<open>set_rank_number\<close> only asserts that the number is 1.\<close>

definition mk_gddr5 :: "gddr5_org \<Rightarrow> gddr5_speed_grade \<Rightarrow> int \<Rightarrow> int \<Rightarrow> (command, dstate) spec res" where
  "mk_gddr5 org speed channels ranks =
     bindR (gddr5_init_speed (gddr5_org_table org) (gddr5_speed_table speed)) (\<lambda>s.
     bindR (guardR (ranks = 1)) (\<lambda>_.
       Inr (gddr5_spec (set_channel_number channels (gddr5_org_table org)) s)))"

section \<open>The interfaces\<close>

lemma gddr5_init_speed_ok:
  assumes "drop_bit 9 (org_size org) \<in> {1, 2, 4, 8, 16}"
  shows "\<exists>s. gddr5_init_speed org (gddr5_speed_table g) = Inr s
     \<and> g5_nCL s = g5_nCL (gddr5_speed_table g) \<and> g5_nCWL s = g5_nCWL (gddr5_speed_table g)
     \<and> g5_nBL s = g5_nBL (gddr5_speed_table g) \<and> g5_nFAW s = g5_nFAW (gddr5_speed_table g)
     \<and> g5_n32AW s = g5_n32AW (gddr5_speed_table g)
     \<and> g5_nBL s \<le> g5_nCCDS s + 2 \<and> 0 \<le> g5_nCL s \<and> 0 \<le> g5_nWTR s"
  using assms by (cases g) (auto simp: gddr5_init_speed_def switch_def gddr5_speed.defs Let_def)

lemma gddr5_density: "drop_bit 9 (org_size (gddr5_org_table org)) \<in> {1, 2, 4, 8, 16}"
  by (cases org) (simp_all add: org_entry.defs drop_bit_eq_div)

lemma gddr5_timing_push_ok:
  "\<exists>ps. gddr5_timing s lv = entries_for ps \<and> list_all (push_ok is_refreshing is_opening) ps"
  by (rule exI, rule conjI, rule gddr5_timing_def)
    (simp add: gddr5_timing_Channel_def gddr5_timing_Rank_def gddr5_timing_BankGroup_def gddr5_timing_Bank_def)

lemma gddr5_banks:
  "3 < length (org_count (gddr5_org_table org)) \<and> org_count (gddr5_org_table org) ! 1 = 1
   \<and> 0 < org_count (gddr5_org_table org) ! 2 \<and> 0 < org_count (gddr5_org_table org) ! 3"
  by (cases org) (simp_all add: org_entry.defs)

abbreviation gddr5_device :: "gddr5_org \<Rightarrow> int \<Rightarrow> gddr5_speed \<Rightarrow> (command, dstate) spec" where
  "gddr5_device org channels s \<equiv> gddr5_spec (set_channel_number channels (gddr5_org_table org)) s"

interpretation gddr5: dram_spec "gddr5_device org c s" for org c s
  unfolding gddr5_spec_def
proof (rule ddr_spec_laws [OF _ gddr5_timing_push_ok _ gddr5_lambda_def refl])
  show "0 < org_count (set_channel_number c (gddr5_org_table org)) ! lv" if "0 < lv" "lv \<le> 3" for lv
    using that gddr5_banks [of org]
    by (auto simp: set_channel_number_def le_Suc_eq numeral_2_eq_2 numeral_3_eq_3)
qed (simp add: on_group_banks_def)

definition gddr5_final :: "gddr5_org \<Rightarrow> gddr5_speed_grade \<Rightarrow> gddr5_speed" where
  "gddr5_final org g =
     (case gddr5_init_speed (gddr5_org_table org) (gddr5_speed_table g) of
        Inr s \<Rightarrow> s | Inl _ \<Rightarrow> gddr5_speed_table g)"

lemma gddr5_final_ok:
  "gddr5_init_speed (gddr5_org_table org) (gddr5_speed_table g) = Inr (gddr5_final org g)
   \<and> g5_nCL (gddr5_final org g) = g5_nCL (gddr5_speed_table g)
   \<and> g5_nCWL (gddr5_final org g) = g5_nCWL (gddr5_speed_table g)
   \<and> g5_nBL (gddr5_final org g) = g5_nBL (gddr5_speed_table g)
   \<and> g5_nFAW (gddr5_final org g) = g5_nFAW (gddr5_speed_table g)
   \<and> g5_n32AW (gddr5_final org g) = g5_n32AW (gddr5_speed_table g)
   \<and> g5_nBL (gddr5_final org g) \<le> g5_nCCDS (gddr5_final org g) + 2
   \<and> 0 \<le> g5_nCL (gddr5_final org g) \<and> 0 \<le> g5_nWTR (gddr5_final org g)"
  using gddr5_init_speed_ok [OF gddr5_density, of org g] by (auto simp: gddr5_final_def)

lemma mk_gddr5_eq:
  "mk_gddr5 org g channels ranks =
     (if ranks = 1 then Inr (gddr5_device org channels (gddr5_final org g)) else Inl AssertFailed)"
  using gddr5_final_ok [of org g] by (simp add: mk_gddr5_def guardR_def)

lemma gddr5_bus_table:
  assumes "g5_nBL s \<le> g5_nCCDS s + 2" "0 \<le> g5_nCL s" "0 \<le> g5_nWTR s" "org_count org ! 1 = 1"
  shows "bus_ok (gddr5_spec org s) cas_commands (cas_lat (g5_nCL s) (g5_nCWL s)) (g5_nBL s)"
proof -
  have t: "sp_timing (gddr5_spec org s) 0 = entries_for (gddr5_timing_Channel s)"
    "sp_timing (gddr5_spec org s) 1 = entries_for (gddr5_timing_Rank s)"
    and c: "sp_count (gddr5_spec org s) 1 = 1"
    using assms(4) by (simp_all add: gddr5_spec_def gddr5_timing_def fun_eq_iff)
  show ?thesis using assms(1-3)
    unfolding bus_ok_def separated_push [OF t(1)] separated_push [OF t(2)] c
    by (simp add: gddr5_timing_Channel_def gddr5_timing_Rank_def cas_lat_def)
qed

interpretation gddr5_bus: data_bus "gddr5_device org c (gddr5_final org g)" cas_commands
  "cas_lat (g5_nCL (gddr5_speed_table g)) (g5_nCWL (gddr5_speed_table g))" "g5_nBL (gddr5_speed_table g)" for org c g
proof unfold_locales
  have "org_count (set_channel_number c (gddr5_org_table org)) ! 1 = 1"
    using gddr5_banks [of org] by (simp add: set_channel_number_def)
  then show "bus_ok (gddr5_device org c (gddr5_final org g)) cas_commands
    (cas_lat (g5_nCL (gddr5_speed_table g)) (g5_nCWL (gddr5_speed_table g))) (g5_nBL (gddr5_speed_table g))"
    using gddr5_bus_table [of "gddr5_final org g"] gddr5_final_ok [of org g] by simp
qed (auto simp: gddr5_spec_def)

section \<open>Properties\<close>

text \<open>
  A GDDR5 device can be made for every organisation and speed grade, but only with one rank:
  any other rank number of the configuration ends in the assertion of \<open>set_rank_number\<close>.
\<close>

lemma gddr5_one_rank:
  "((\<exists>sp. mk_gddr5 org g channels ranks = Inr sp) \<longleftrightarrow> ranks = 1)
   \<and> (mk_gddr5 org g channels ranks = Inl AssertFailed \<longleftrightarrow> ranks \<noteq> 1)"
  by (simp add: mk_gddr5_eq)

text \<open>
  C18.  The activation windows of GDDR5: in a run in which every command was issued when \<open>check\<close> allowed
  it, an activation comes at least \<open>nFAW\<close> cycles after the fourth and at least \<open>n32AW\<close> cycles after
  the thirty-second activation before it in the same rank.
\<close>

theorem gddr5_activate_windows:
  assumes "mk_gddr5 org g channels ranks = Inr sp"
    and "hist_ok (rev xs)" and "\<forall>(c, a, k)\<in>set xs. addr_ok sp c a \<and> a ! 0 = i"
    and "issue_checked sp xs (new_dram sp 0 i) = Inr t" and "xs = ys @ (ACT, ad, clk) # zs"
    and "w \<in> {(4, g5_nFAW (gddr5_speed_table g)), (32, g5_n32AW (gddr5_speed_table g))}"
    and "fst w \<le> length (hist (rev ys) [i, ad ! 1] ACT)"
  shows "hist (rev ys) [i, ad ! 1] ACT ! (fst w - 1) + snd w \<le> clk"
proof -
  let ?sp = "gddr5_device org channels (gddr5_final org g)"
  have sp: "sp = ?sp" using assms(1) by (simp add: mk_gddr5_eq split: if_splits)
  have leg: "legal ?sp (rev ys) ACT ad clk"
    using gddr5.issue_checked_legal [OF gddr5.tree_inv_new [of "[]" 0 _ _ _ i, simplified] _ assms(3-5) [unfolded sp]]
      assms(2) by simp
  have ad: "addr_ok ?sp ACT ad" "ad ! 0 = i" using assms(3,5) sp by auto
  then have len: "4 < length ad" and pos: "0 \<le> ad ! 1" by (auto simp: addr_ok_def gddr5_spec_def)
  then have path: "take (Suc 1) ad = [i, ad ! 1]" using ad(2) by (cases ad; cases "tl ad") auto
  let ?e = "\<lparr>te_cmd = ACT, te_dist = fst w, te_val = snd w, te_sibling = False\<rparr>"
  have "?e \<in> set (sp_timing ?sp 1 ACT)"
    using assms(6) gddr5_final_ok [of org g]
    by (auto simp: gddr5_spec_def gddr5_timing_def entries_for_set gddr5_timing_Rank_def push_def)
  from gddr5.legal_entry [OF leg this] path assms(7) len pos show ?thesis by (simp add: gddr5_spec_def)
qed

definition gddr5_acts :: "command history" where
  "gddr5_acts =
     [(ACT, [0, 0, 0, 0, 7, 0], 0), (ACT, [0, 0, 1, 0, 7, 0], 6), (ACT, [0, 0, 2, 0, 7, 0], 12),
      (ACT, [0, 0, 3, 0, 7, 0], 18)]"

theorem gddr5_activate_windows_witness:
  "hist (rev gddr5_acts) [0, 0] ACT ! 3 + g5_nFAW (gddr5_speed_table GDDR5_4000) \<le> (24::int)"
proof -
  let ?xs = "gddr5_acts @ [(ACT, [0, 0, 0, 1, 7, 0], 24)]"
  obtain sp where sp: "mk_gddr5 GDDR5_512Mb_x16 GDDR5_4000 1 1 = Inr sp" by (simp add: mk_gddr5_eq)
  have "\<not> isl (bindR (mk_gddr5 GDDR5_512Mb_x16 GDDR5_4000 1 1) (\<lambda>sp. issue_checked sp ?xs (new_dram sp 0 0)))"
    by code_simp
  then obtain t where run: "issue_checked sp ?xs (new_dram sp 0 0) = Inr t"
    using sp not_isl_Inr by (auto simp: isl_def)
  have "sp_count sp = (\<lambda>lv. [1, 1, 4, 2, 4096, 1024] ! lv)" "sp_row_level sp = 4"
    using sp by (auto simp: mk_gddr5_eq gddr5_spec_def ddr_spec_def set_channel_number_def org_entry.defs)
  then have "\<forall>(c, a, k)\<in>set ?xs. addr_ok sp c a \<and> a ! 0 = 0"
    by (auto simp: gddr5_acts_def addr_ok_def less_Suc_eq eval_nat_numeral)
  moreover have "hist_ok (rev ?xs)" by (simp add: hist_ok_def gddr5_acts_def)
  ultimately show ?thesis
    using gddr5_activate_windows [OF sp _ _ run, of gddr5_acts "[0, 0, 0, 1, 7, 0]" 24 "[]" "(4, g5_nFAW (gddr5_speed_table GDDR5_4000))"]
    by (simp add: gddr5_acts_def hist_def)
qed

end
