(* ===== verification/Spec2Isabelle.thy ===== *)
theory Spec2Isabelle
  imports Simulation Trace_Schedule Config_Props DDR3_Spec DDR4_Spec GDDR5_Spec
begin

text \<open>
  A verification library for ramulator-pim (\<open>src/ramulator/src\<close>): a cycle-accurate simulator of DRAM
  devices with the hybrid memory cube (HMC) as its memory for processing in memory, and a processor model
  that runs traces on it.

  \<^bold>\<open>The program.\<close>  \<open>main\<close> reads a configuration and a command line, builds the memory and runs
  \<open>run_cputrace\<close>.  The loop clocks a \<open>Processor\<close> and the memory.  The processor spreads the requests of
  one trace over its cores (or gives each core its own trace); a core keeps the instructions in flight in
  a window and sends reads and writes to its L1 cache or to the memory; responses come back through
  \<open>Processor::receive\<close>, to the caches and the core.  \<open>Memory<HMC>\<close> translates addresses, makes packets, and
  sends them over links and the switch of the logic layer to the vault controllers (in memory mode
  directly); a controller queues requests, schedules commands, refreshes, and drives the tree of DRAM
  nodes, which holds states and timing constraints given by the tables of the standard.

  \<^bold>\<open>Conventions.\<close>  Every assertion, exception, index out of range, null pointer and division by zero is
  a value of \<open>error\<close> in the result type \<open>res\<close>, never a silent default.  C++ integers are \<open>int\<close>, with
  the wrap-around or the mask written out where the code depends on the width (\<open>to_long\<close>, \<open>to_unsigned\<close>,
  \<open>get_index\<close>, the index mask of a cache, the fields of a packet); \<open>double\<close> timing values are rational.  What the program
  leaves uninitialised is a parameter.  Objects are records passed through the operations; a callback is
  recorded as the request it is called with.  The history \<open>vc_issued\<close> of the commands of a controller is the
  only field the program does not have; nothing reads it.  Maps whose iteration order matters are ordered association
  lists (\<open>Ram_Map\<close>).

  \<^bold>\<open>Theories and sources.\<close>
  \<^item> \<open>Ram_Prelude\<close>, \<open>Ram_Map\<close>, \<open>Ram_Bits\<close>, \<open>Ram_Request\<close>: results and their folds, ordered maps, bit helpers
    (\<open>calc_log2\<close>, \<open>slice_lower_bits\<close>, \<open>leftmostbit\<close>), \<open>Request.h\<close>.
  \<^item> \<open>DRAM_Tree\<close> (\<open>DRAM.h\<close>): the node tree with \<open>decode\<close>, \<open>check\<close>, \<open>get_next\<close>, \<open>update\<close>, \<open>check_row_hit\<close>,
    \<open>update_serving_requests\<close>, generic in the standard.  \<open>DRAM_Timing\<close>, \<open>DRAM_Legal\<close>, \<open>DRAM_Standard\<close>, \<open>DRAM_Bus\<close>,
    \<open>DRAM_Serving\<close>: the timestamps kept in the nodes are equivalent to a specification over the whole
    command history (\<open>dram_spec\<close>, the contract of a standard; \<open>data_bus\<close>, the contract of a data bus).
  \<^item> \<open>HMC_Spec\<close>, \<open>HMC_Vault\<close> (\<open>HMC.h\<close>, \<open>HMC.cpp\<close>): tables, prerequisites and state changes; they satisfy
    both contracts; a vault refines an abstract one of power state and open rows.  \<open>DDR_Common\<close>, \<open>DDR3_Spec\<close>,
    \<open>DDR4_Spec\<close>, \<open>GDDR5_Spec\<close>: the same for these standards, from their own sources.
  \<^item> \<open>Scheduler\<close> (\<open>Scheduler.h\<close>): scheduling and row policies, the row table.  \<open>HMC_Packet\<close> (\<open>Packet.h\<close>,
    \<open>Packet.cpp\<close>).  \<open>HMC_Controller\<close> (\<open>HMC_Controller.h\<close>, \<open>Refresh.h\<close>, \<open>Refresh.cpp\<close>); \<open>HMC_Ctrl_Device\<close>,
    \<open>HMC_Ctrl_Inv\<close>, \<open>HMC_Ctrl_Run\<close>: its invariant and what it gives.
  \<^item> \<open>LogicLayer\<close> (\<open>LogicLayer.h\<close>, \<open>LogicLayer.cpp\<close>), \<open>HMC_Memory\<close> (\<open>HMC_Memory.h\<close>, \<open>start_run<HMC>\<close> of
    \<open>Main.cpp\<close>); \<open>HMC_Mem_Map\<close>, \<open>HMC_Pages\<close>, \<open>HMC_Layer_Inv\<close>, \<open>HMC_Mem_Inv\<close>, \<open>HMC_System\<close>: address mapping, page
    allocation, and the invariant of the whole memory.
  \<^item> \<open>Inst_Window\<close> (\<open>Window\<close>), \<open>Trace_Parser\<close> and \<open>Trace_Props\<close> (\<open>Trace\<close>), \<open>Core_Model\<close> and \<open>Core_Props\<close>
    (\<open>Core\<close>), all of \<open>Processor.h\<close> and \<open>Processor.cpp\<close>.
  \<^item> \<open>Cache_Model\<close> (\<open>Cache.h\<close>, \<open>Cache.cpp\<close>); \<open>Cache_Store\<close>, \<open>Cache_LRU\<close>, \<open>Cache_System\<close>: its invariant, the
    abstract cache with least-recently-used replacement, and the caches of a processor in operation.
  \<^item> \<open>Processor_Model\<close> (\<open>Processor\<close> on an HMC memory, \<open>run_cputrace\<close>); \<open>Trace_Schedule\<close>: the spreading of a
    trace; \<open>Processor_Mem\<close>, \<open>Processor_Inv\<close>, \<open>Processor_System\<close>, \<open>Simulation\<close>: processor, caches and memory together.
  \<^item> \<open>Config_Model\<close>, \<open>Config_Props\<close> (\<open>Config.h\<close>, \<open>Config.cpp\<close>, the options in \<open>main\<close>).

  \<^bold>\<open>Interfaces.\<close>  The client lemmas are proved once in locales and used through interpretations on the
  definitions of the model: \<open>std_map\<close> by the ordered maps; \<open>dram_spec\<close> and \<open>data_bus\<close> by HMC, DDR3, DDR4 and GDDR5; \<open>fifo_window\<close> by the
  circular window; \<open>core_port\<close>, what a core relies on when it sends a request or asks for a page, by the
  caches and the HMC memory behind them (\<open>hmc_port\<close>).

  \<^bold>\<open>What is shown.\<close>
  \<^item> Together: from construction on, cycles of the processor and cycles of the memory with its responses,
    in any order, never fail; the loop runs, keeps the ratio of the clocks and is left only when its
    condition holds.  (For the configurations under \<open>Bounds\<close>.)
  \<^item> Memory: no cycle and no request fails, and no request is lost or duplicated between host, links,
    switch and vaults.  The address mapping is invertible and in range.  Pages of different
    owners get different frames until one has to be replaced.
  \<^item> Controller: no assertion fails, the history of the commands it issues respects the timing tables and
    leads to the state of its device, every refresh interval has its refresh command in its first 400 cycles,
    requests are conserved, queues are bounded, FR-FCFS and the row-hit policy choose as intended.
  \<^item> Devices: \<open>check\<close> and \<open>get_next\<close> are exact for the timing tables; activation windows and data bursts
    are kept apart; following \<open>decode\<close> reaches every access; the parameters of the standards are consistent.
  \<^item> Caches and cores: an L1 refines the abstract cache, loses no dirty block and stays well formed;
    the window is a FIFO queue; the cores advance at most by the width of the window.
  \<^item> Input: DRAM traces and configurations are read back as written, zsim lines give well-typed values and
    what was written (a prefetch keeps the type of the line before), a trace is placed on the cores by vault without loss.
  \<^item> Defects: lower cache levels are never used, a lone L3 dereferences a null pointer, the in-order core
    never sends its reads, the options for channels and ranks have no effect.

  \<^bold>\<open>Bounds and fuel.\<close>  \<open>calc_log2\<close> and \<open>leftmostbit\<close> are partial functions of the option type, since their
  loop does not end for negative arguments; it is shown to end for all others.  The calls of a cache to the
  caches above and below it carry a depth of 3, the number of levels; the invariant of the caches shows
  that it is never exhausted (no operation returns \<open>Diverges\<close>).  \<open>update_state_fuel\<close> has the depth of the tree.
  \<open>sim_loop\<close> counts iterations, since the simulation of an arbitrary trace need not end; its statements hold
  for every number of them.  All other loops terminate by a measure.  The configurations covered by the
  statements about the whole memory are one stack with at most 32 vaults (the size of an array in
  \<open>HMC_Memory.h\<close>) and one to eight host links, with the option \<open>no_DRAM_latency\<close> off (when it is on, the
  controller bypasses the states of the device) and requests that carry the number of a core, for which the
  memory has counters; that the processor sends no others, and that the responses carry the number of a
  core, is shown.  The statements about the whole simulator also leave out the configuration with an L3 cache
  and no caches of the cores, whose first request dereferences a null pointer.

  \<^bold>\<open>Not modelled.\<close>  The templates \<open>Memory.h\<close>, \<open>Controller.h\<close>, \<open>Controller.cpp\<close>, \<open>SpeedyController.h\<close> and
  \<open>MemoryFactory\<close> for the other standards, and the tables of HBM, LPDDR3, LPDDR4, WideIO, WideIO2, SALP, DSARP,
  AL-DRAM and TL-DRAM: they repeat the structure of the parts that are modelled and are not connected to the HMC.
  \<open>run_dramtrace\<close> of \<open>Main.cpp\<close>.  Names, formulas and printing of the statistics, including the averages that \<open>finish\<close> and \<open>calc_stats\<close>
  compute in floating point; the counters are fields of the models, with the assertion on the index of a vector of them.
  The parser of the command line (Boost), DRAMPower, the gem5 wrapper, and zsim, which only produces traces.
\<close>

end
